(* ===== verification/Prelude.thy ===== *)
theory Prelude
  imports Complex_Main "HOL-Library.AList" "HOL-Library.Multiset"
begin

section \<open>Prelude: what the Go source takes for granted\<close>

text \<open>
  The vocabulary every component theory shares: Go errors as values, Go integers with their
  wrap-around written out, Go maps with the difference between a nil map and an empty one, the
  association lists that stand for maps the code iterates over, and the insertion sort and the
  ordered-list facts several packages rely on.
\<close>

named_theorems wrap_simps "arithmetic at a fixed width when the value is in range"
named_theorems gomap_simps "reading a Go map after writing it"

subsection \<open>Errors\<close>

text \<open>
  Go's \<open>error\<close> is an open interface. A package-level variable (\<open>errors.New\<close>) is a
  \<open>Sentinel\<close> with its qualified name, an error built by \<open>fmt.Errorf\<close> or a struct
  is a \<open>Formatted\<close> value with the words that identify it, an error of the database
  driver, a socket or another process is an \<open>IOErr\<close> with an arbitrary code, and a run-time
  panic is a \<open>Panic\<close>.
\<close>

datatype error =
    Sentinel string
  | Formatted "string list"
  | IOErr nat
  | Panic string

type_synonym 'a result = "error + 'a"

definition is_ok :: "'a result \<Rightarrow> bool" where
  "is_ok r = (case r of Inl _ \<Rightarrow> False | Inr _ \<Rightarrow> True)"

lemma is_ok_simps [simp]: "is_ok (Inr v)" "\<not> is_ok (Inl e)"
  by (simp_all add: is_ok_def)

lemma is_okE: "is_ok r \<Longrightarrow> (\<And>v. r = Inr v \<Longrightarrow> P) \<Longrightarrow> P"
  by (cases r) simp_all

lemma case_result_iff: "(case r of Inl _ \<Rightarrow> False | Inr v \<Rightarrow> P v) \<longleftrightarrow> (\<exists>v. r = Inr v \<and> P v)"
  by (cases r) simp_all

subsection \<open>Integers of a fixed width\<close>

text \<open>
  \<open>int32\<close> and \<open>int64\<close> values are kept as \<open>int\<close>; every operation that can leave the range
  is followed by the two's complement wrap-around, as Go's arithmetic is.
\<close>

definition wrap32 :: "int \<Rightarrow> int" where
  "wrap32 x = (x + 2 ^ 31) mod 2 ^ 32 - 2 ^ 31"

definition wrap64 :: "int \<Rightarrow> int" where
  "wrap64 x = (x + 2 ^ 63) mod 2 ^ 64 - 2 ^ 63"

definition in32 :: "int \<Rightarrow> bool" where
  "in32 x \<longleftrightarrow> - (2 ^ 31) \<le> x \<and> x < 2 ^ 31"

definition in64 :: "int \<Rightarrow> bool" where
  "in64 x \<longleftrightarrow> - (2 ^ 63) \<le> x \<and> x < 2 ^ 63"

lemma wrap32_in32 [simp, wrap_simps]: "in32 (wrap32 x)"
  by (simp add: wrap32_def in32_def)

lemma wrap64_in64 [simp, wrap_simps]: "in64 (wrap64 x)"
  by (simp add: wrap64_def in64_def)

lemma wrap32_id [wrap_simps]: "in32 x \<Longrightarrow> wrap32 x = x"
  by (simp add: wrap32_def in32_def)

lemma wrap64_id [wrap_simps]: "in64 x \<Longrightarrow> wrap64 x = x"
  by (simp add: wrap64_def in64_def)

lemma in32_imp_in64: "in32 x \<Longrightarrow> in64 x"
  by (simp add: in32_def in64_def)

lemma in32_between: "in32 a \<Longrightarrow> in32 b \<Longrightarrow> a \<le> x \<Longrightarrow> x \<le> b \<Longrightarrow> in32 x"
  by (simp add: in32_def)

lemma in64_between: "in64 a \<Longrightarrow> in64 b \<Longrightarrow> a \<le> x \<Longrightarrow> x \<le> b \<Longrightarrow> in64 x"
  by (simp add: in64_def)

lemma wrap64_le: "- (2 ^ 63) \<le> x \<Longrightarrow> wrap64 x \<le> x"
proof -
  assume "- (2 ^ 63) \<le> x"
  then have "(x + 2 ^ 63) mod 2 ^ 64 \<le> x + 2 ^ 63"
    by (intro zmod_le_nonneg_dividend) simp
  then show ?thesis by (simp add: wrap64_def)
qed

lemma wrap32_mod_cong: "x mod 2 ^ 32 = y mod 2 ^ 32 \<Longrightarrow> wrap32 x = wrap32 y"
  unfolding wrap32_def by (metis mod_add_left_eq)

lemma wrap64_mod_cong: "x mod 2 ^ 64 = y mod 2 ^ 64 \<Longrightarrow> wrap64 x = wrap64 y"
  unfolding wrap64_def by (metis mod_add_left_eq)

lemma wrap64_mod: "wrap64 x mod 2 ^ 64 = x mod 2 ^ 64"
proof -
  have "wrap64 x mod 2 ^ 64 = ((x + 2 ^ 63) - 2 ^ 63) mod 2 ^ 64"
    unfolding wrap64_def by (rule mod_diff_left_eq)
  then show ?thesis by simp
qed

subsection \<open>Clock readings\<close>

text \<open>\<open>time.Time.Sub\<close> saturates at the range of a \<open>Duration\<close>.\<close>

definition time_Sub :: "int \<Rightarrow> int \<Rightarrow> int" where
  "time_Sub t u = max (- (2 ^ 63)) (min (2 ^ 63 - 1) (t - u))"

lemma time_Sub_exact: "in64 (t - u) \<Longrightarrow> time_Sub t u = t - u"
  by (simp add: time_Sub_def in64_def)

subsection \<open>Go maps\<close>

text \<open>
  A Go map is nil (\<open>None\<close>) or allocated. Reading a missing key, or a nil map, gives the
  element type's zero value; writing to a nil map panics.
\<close>

type_synonym ('k, 'v) gomap = "('k \<rightharpoonup> 'v) option"

definition gm_get :: "'v \<Rightarrow> ('k, 'v) gomap \<Rightarrow> 'k \<Rightarrow> 'v" where
  "gm_get zero m k = (case m of None \<Rightarrow> zero | Some f \<Rightarrow> (case f k of None \<Rightarrow> zero | Some v \<Rightarrow> v))"

definition gm_set :: "('k, 'v) gomap \<Rightarrow> 'k \<Rightarrow> 'v \<Rightarrow> ('k, 'v) gomap result" where
  "gm_set m k v = (case m of None \<Rightarrow> Inl (Panic ''assignment to entry in nil map'')
                   | Some f \<Rightarrow> Inr (Some (f(k \<mapsto> v))))"

definition gm_alloc :: "('k, 'v) gomap \<Rightarrow> ('k, 'v) gomap" where
  "gm_alloc m = (case m of None \<Rightarrow> Some Map.empty | Some f \<Rightarrow> Some f)"

lemma gm_get_nil [simp, gomap_simps]: "gm_get z None k = z"
  by (simp add: gm_get_def)

lemma gm_get_upd [simp, gomap_simps]:
  "gm_get z (Some (f(k \<mapsto> v))) k' = (if k' = k then v else gm_get z (Some f) k')"
  by (simp add: gm_get_def)

lemma gm_get_empty [simp, gomap_simps]: "gm_get z (Some Map.empty) k = z"
  by (simp add: gm_get_def)

lemma gm_get_alloc [simp, gomap_simps]: "gm_get z (gm_alloc m) k = gm_get z m k"
  by (cases m) (simp_all add: gm_alloc_def)

lemma gm_alloc_Some: "\<exists>f. gm_alloc m = Some f"
  by (cases m) (simp_all add: gm_alloc_def)

lemma gm_set_Some [simp, gomap_simps]: "gm_set (Some f) k v = Inr (Some (f(k \<mapsto> v)))"
  by (simp add: gm_set_def)

subsection \<open>Association lists for maps the code iterates over\<close>

abbreviation keys :: "('k \<times> 'v) list \<Rightarrow> 'k list" where
  "keys xs \<equiv> map fst xs"

definition al_ok :: "('k \<times> 'v) list \<Rightarrow> bool" where
  "al_ok xs \<longleftrightarrow> distinct (keys xs)"

lemma al_ok_Nil [simp]: "al_ok []"
  by (simp add: al_ok_def)

lemma al_ok_update [simp]: "al_ok xs \<Longrightarrow> al_ok (AList.update k v xs)"
  by (simp add: al_ok_def AList.distinct_update)

lemma al_ok_delete [simp]: "al_ok xs \<Longrightarrow> al_ok (AList.delete k xs)"
  by (simp add: al_ok_def AList.distinct_delete)

lemma map_of_update [simp]: "map_of (AList.update k v xs) = (map_of xs)(k \<mapsto> v)"
  by (rule AList.update_conv')

lemma map_of_delete [simp]: "map_of (AList.delete k xs) = (map_of xs)(k := None)"
  by (rule AList.delete_conv')

lemma set_keys_iff: "k \<in> set (keys xs) \<longleftrightarrow> map_of xs k \<noteq> None"
  by (simp add: map_of_eq_None_iff)

lemma list_all_map_of:
  "al_ok xs \<Longrightarrow> list_all P xs \<longleftrightarrow> (\<forall>k v. map_of xs k = Some v \<longrightarrow> P (k, v))"
  by (auto simp: al_ok_def list_all_iff dest: map_of_SomeD)

lemma set_keys_dom: "set (keys xs) = dom (map_of xs)"
  by (simp add: dom_map_of_conv_image_fst)

lemma map_of_snoc: "k \<notin> set (keys xs) \<Longrightarrow> map_of (xs @ [(k, v)]) = (map_of xs)(k \<mapsto> v)"
  by (induction xs) (auto simp: fun_eq_iff)

subsection \<open>Insertion sort by adjacent exchanges\<close>

text \<open>
  \<open>entity.sortByID\<close> and \<open>relation.sortIDs\<close> are the same loop: for each position \<open>i\<close>
  from 1, the element is exchanged leftwards while its left neighbour is greater. On the list
  sorted so far (kept reversed, so its last element is the head) this is \<open>sift\<close>.
\<close>

fun sift :: "('a \<Rightarrow> int) \<Rightarrow> 'a list \<Rightarrow> 'a \<Rightarrow> 'a list" where
  "sift key [] x = [x]"
| "sift key (y # ys) x = (if key y > key x then y # sift key ys x else x # y # ys)"

fun sort_loop :: "('a \<Rightarrow> int) \<Rightarrow> 'a list \<Rightarrow> 'a list \<Rightarrow> 'a list" where
  "sort_loop key done_rev [] = rev done_rev"
| "sort_loop key done_rev (x # xs) = sort_loop key (sift key done_rev x) xs"

lemma mset_sift: "mset (sift key ys x) = add_mset x (mset ys)"
  by (induction ys) auto

lemma set_sift: "set (sift key ys x) = insert x (set ys)"
  by (metis mset_sift set_mset_add_mset_insert set_mset_mset)

lemma sorted_sift:
  "sorted_wrt (\<lambda>a b. key a \<ge> key b) ys \<Longrightarrow> sorted_wrt (\<lambda>a b. key a \<ge> key b) (sift key ys x)"
  by (induction ys) (auto simp: set_sift)

lemma mset_sort_loop: "mset (sort_loop key ds xs) = mset ds + mset xs"
  by (induction xs arbitrary: ds) (auto simp: mset_sift)

lemma sorted_sort_loop:
  "sorted_wrt (\<lambda>a b. key a \<ge> key b) ds \<Longrightarrow> sorted (map key (sort_loop key ds xs))"
proof (induction xs arbitrary: ds)
  case Nil
  then show ?case by (simp add: sorted_map sorted_wrt_rev)
next
  case (Cons x xs)
  then show ?case by (simp add: sorted_sift)
qed

subsection \<open>Lists\<close>

lemma filter_neq_idem: "k \<notin> set (keys xs) \<Longrightarrow> filter (\<lambda>(k', _). k' \<noteq> k) xs = xs"
  by (induction xs) auto

lemma sorted_list_of_distinct_eq:
  "sorted xs \<Longrightarrow> distinct xs \<Longrightarrow> sorted ys \<Longrightarrow> distinct ys \<Longrightarrow> set xs = set ys \<Longrightarrow> xs = ys"
  by (metis sorted_distinct_set_unique)

subsection \<open>strconv.FormatInt(n, 10)\<close>

definition digit :: "nat \<Rightarrow> char" where
  "digit n = char_of (48 + n)"

fun format_nat :: "nat \<Rightarrow> string" where
  "format_nat n = (if n < 10 then [digit n] else format_nat (n div 10) @ [digit (n mod 10)])"

declare format_nat.simps [simp del]

definition FormatInt :: "int \<Rightarrow> string" where
  "FormatInt n = (if n < 0 then CHR ''-'' # format_nat (nat (- n)) else format_nat (nat n))"

definition parse_digits :: "string \<Rightarrow> nat" where
  "parse_digits s = foldl (\<lambda>a c. 10 * a + (of_char c - 48)) 0 s"

lemma of_char_digit: "n < 10 \<Longrightarrow> (of_char (digit n) :: nat) = 48 + n"
  by (simp add: digit_def of_char_of take_bit_eq_mod)

lemma parse_format_nat: "parse_digits (format_nat n) = n"
proof (induction n rule: format_nat.induct)
  case (1 n)
  show ?case
  proof (cases "n < 10")
    case True
    then show ?thesis by (subst format_nat.simps) (simp add: parse_digits_def of_char_digit)
  next
    case False
    then have "parse_digits (format_nat n) = 10 * parse_digits (format_nat (n div 10)) + n mod 10"
      by (subst format_nat.simps) (simp add: parse_digits_def of_char_digit)
    then show ?thesis using 1 [OF False] by simp
  qed
qed

lemma format_nat_not_minus: "format_nat n \<noteq> CHR ''-'' # s"
proof
  assume a: "format_nat n = CHR ''-'' # s"
  have "\<exists>m < 10. hd (format_nat n) = digit m"
  proof (induction n rule: format_nat.induct)
    case (1 n)
    have ne: "format_nat k \<noteq> []" for k by (subst format_nat.simps) simp
    show ?case using 1 ne by (subst format_nat.simps) (auto simp: hd_append)
  qed
  then obtain m where m: "m < 10" "digit m = CHR ''-''" using a by auto
  have "(of_char (CHR ''-'') :: nat) = 45" by simp
  with m of_char_digit [OF m(1)] show False by simp
qed

lemma FormatInt_inj:
  assumes "FormatInt a = FormatInt b"
  shows "a = b"
proof -
  have sign: "a < 0 \<longleftrightarrow> b < 0"
    using assms format_nat_not_minus by (auto simp: FormatInt_def split: if_splits) metis+
  then have "format_nat (nat \<bar>a\<bar>) = format_nat (nat \<bar>b\<bar>)"
    using assms by (auto simp: FormatInt_def split: if_splits)
  then have "nat \<bar>a\<bar> = nat \<bar>b\<bar>" using parse_format_nat by metis
  with sign show ?thesis by linarith
qed

end
