(* ===== verification/Float64.thy ===== *)
theory Float64
  imports Prelude "HOL-Library.Log_Nat"
begin

section \<open>Go's float64\<close>

text \<open>
  IEEE 754 binary64 as Go uses it: a finite value is a rational, every operation computes the
  exact result and rounds it once to the nearest representable value, ties to even; results
  beyond the range are infinities and invalid operations give NaN. The sign of a zero is the
  only thing left out (no operation of the program can observe it). The lemmas the components
  use are that rounding is monotone, that it is the identity on values already representable and
  in particular on integers up to 2 to the 53, and what follows for sums, differences and
  comparisons.
\<close>

datatype f64 = Fin rat | PosInf | NegInf | NaN

subsection \<open>Rounding\<close>

text \<open>Nearest integer, ties to even.\<close>

definition rhe :: "rat \<Rightarrow> int" where
  "rhe x = (let f = \<lfloor>x\<rfloor>; d = x - of_int f in
            if d < 1/2 then f else if 1/2 < d then f + 1 else if even f then f else f + 1)"

text \<open>The exponent of the leading bit of a positive rational.\<close>

definition ilog2 :: "rat \<Rightarrow> int" where
  "ilog2 x = (let (a, b) = quotient_of x; k = bitlen a - bitlen b
              in if 2 powi k \<le> x then k else k - 1)"

text \<open>The exponent of the last bit a binary64 value of this magnitude has.\<close>

definition fexp :: "rat \<Rightarrow> int" where
  "fexp x = max (- 1074) (ilog2 \<bar>x\<bar> - 52)"

definition grid :: "int \<Rightarrow> rat \<Rightarrow> rat" where
  "grid e x = of_int (rhe (x / 2 powi e)) * 2 powi e"

definition rnd :: "rat \<Rightarrow> f64" where
  "rnd x = (let r = grid (fexp x) x in
            if 2 ^ 1024 \<le> r then PosInf else if r \<le> - (2 ^ 1024) then NegInf else Fin r)"

lemma rhe_of_int [simp]: "rhe (of_int n) = n"
  by (simp add: rhe_def Let_def)

lemma rhe_lower: "of_int n \<le> x \<Longrightarrow> n \<le> rhe x"
proof -
  assume "of_int n \<le> x"
  then have "n \<le> \<lfloor>x\<rfloor>" by (simp add: le_floor_iff)
  then show ?thesis by (simp add: rhe_def Let_def)
qed

lemma rhe_upper: "x \<le> of_int n \<Longrightarrow> rhe x \<le> n"
proof -
  assume le: "x \<le> of_int n"
  show ?thesis
  proof (cases "x = of_int n")
    case False
    with le have "\<lfloor>x\<rfloor> < n" by (simp add: floor_less_iff)
    then show ?thesis by (simp add: rhe_def Let_def)
  qed simp
qed

lemma rhe_mono: "x \<le> y \<Longrightarrow> rhe x \<le> rhe y"
proof -
  assume le: "x \<le> y"
  then have fl: "\<lfloor>x\<rfloor> \<le> \<lfloor>y\<rfloor>" by (rule floor_mono)
  show ?thesis
  proof (cases "\<lfloor>x\<rfloor> = \<lfloor>y\<rfloor>")
    case True
    with le have "x - of_int \<lfloor>x\<rfloor> \<le> y - of_int \<lfloor>y\<rfloor>" by simp
    with True show ?thesis unfolding rhe_def Let_def by (auto simp del: One_nat_def)
  next
    case False
    with fl have "\<lfloor>x\<rfloor> + 1 \<le> \<lfloor>y\<rfloor>" by simp
    moreover have "rhe x \<le> \<lfloor>x\<rfloor> + 1" by (simp add: rhe_def Let_def)
    moreover have "\<lfloor>y\<rfloor> \<le> rhe y" by (simp add: rhe_def Let_def)
    ultimately show ?thesis by linarith
  qed
qed

lemma rhe_minus: "rhe (- x) = - rhe x"
proof (cases "x = of_int \<lfloor>x\<rfloor>")
  case True
  then show ?thesis by (metis of_int_minus rhe_of_int)
next
  case False
  define f d where "f = \<lfloor>x\<rfloor>" and "d = x - of_int f"
  have d: "0 < d" "d < 1"
    using False floor_correct [of x] by (auto simp: d_def f_def order_less_le)
  have x: "x = of_int f + d" by (simp add: d_def)
  have fm: "\<lfloor>- x\<rfloor> = - f - 1"
    using d by (intro floor_unique) (simp_all add: x)
  have "- x - of_int (- f - 1) = 1 - d" by (simp add: x)
  with fm have "rhe (- x) = (if 1 - d < 1/2 then - f - 1 else if 1/2 < 1 - d then - f
      else if even (- f - 1) then - f - 1 else - f)"
    by (simp add: rhe_def Let_def)
  moreover have "rhe x = (if d < 1/2 then f else if 1/2 < d then f + 1 else if even f then f else f + 1)"
    by (simp add: rhe_def Let_def d_def f_def)
  ultimately show ?thesis by auto
qed

lemma bitlen_bounds_rat:
  assumes "0 < (a::int)"
  shows "(2::rat) powi (bitlen a - 1) \<le> of_int a" "of_int a < (2::rat) powi bitlen a"
proof -
  have b: "2 ^ nat (bitlen a - 1) \<le> a \<and> a < 2 ^ nat (bitlen a)"
    using assms by (rule bitlen_bounds)
  have pos: "0 < bitlen a" using assms by (simp add: bitlen_eq_zero_iff order_less_le bitlen_nonneg)
  have "(2::rat) powi (bitlen a - 1) = of_int (2 ^ nat (bitlen a - 1))"
    using pos by (simp add: power_int_def)
  also have "\<dots> \<le> of_int a" using b by (subst of_int_le_iff) simp
  finally show "(2::rat) powi (bitlen a - 1) \<le> of_int a" .
  have "of_int a < (of_int (2 ^ nat (bitlen a)) :: rat)" using b by (subst of_int_less_iff) simp
  then show "of_int a < (2::rat) powi bitlen a"
    using pos by (simp add: power_int_def)
qed

lemma ilog2_bounds:
  assumes "0 < x"
  shows "2 powi ilog2 x \<le> x" "x < 2 powi (ilog2 x + 1)"
proof -
  obtain a b where q: "quotient_of x = (a, b)" by fastforce
  have b: "0 < b" using q by (rule quotient_of_denom_pos)
  have x: "x = of_int a / of_int b" using q by (rule quotient_of_div)
  with assms b have a: "0 < a" by (simp add: zero_less_divide_iff)
  define k where "k = bitlen a - bitlen b"
  note A = bitlen_bounds_rat [OF a] and B = bitlen_bounds_rat [OF b]
  have lo: "2 powi (k - 1) < x"
  proof -
    have "(2::rat) powi (k - 1) * of_int b < 2 powi (k - 1) * 2 powi bitlen b"
      using B by simp
    also have "\<dots> = 2 powi (bitlen a - 1)"
      by (simp add: k_def flip: power_int_add)
    also note A(1)
    finally show ?thesis using b by (simp add: x pos_less_divide_eq)
  qed
  have hi: "x < 2 powi (k + 1)"
  proof -
    have "of_int a < (2::rat) powi (k + 1) * 2 powi (bitlen b - 1)"
      using A(2) by (simp add: k_def flip: power_int_add)
    also have "\<dots> \<le> 2 powi (k + 1) * of_int b" using B by simp
    finally show ?thesis using b by (simp add: x pos_divide_less_eq)
  qed
  have i: "ilog2 x = (if 2 powi k \<le> x then k else k - 1)"
    by (simp add: ilog2_def q k_def)
  show "2 powi ilog2 x \<le> x" using lo by (simp add: i)
  show "x < 2 powi (ilog2 x + 1)" using hi by (simp add: i)
qed

lemma powi2_mono: "e \<le> e' \<Longrightarrow> (2::rat) powi e \<le> 2 powi e'"
  by (simp add: power_int_increasing)

lemma powi2_less: "(2::rat) powi e < 2 powi e' \<longleftrightarrow> e < e'"
  by (metis linorder_not_le powi2_mono power_int_strict_increasing one_less_numeral_iff semiring_norm(76))

lemma powi2_pos [simp]: "0 < (2::rat) powi e"
  by simp

lemma ilog2_mono: "0 < x \<Longrightarrow> x \<le> y \<Longrightarrow> ilog2 x \<le> ilog2 y"
proof -
  assume x: "0 < x" and le: "x \<le> y"
  then have "0 < y" by simp
  then have "2 powi ilog2 x < (2::rat) powi (ilog2 y + 1)"
    using ilog2_bounds [OF x] ilog2_bounds [of y] le by linarith
  then show ?thesis by (simp add: powi2_less)
qed

lemma ilog2_less: "0 < x \<Longrightarrow> x < 2 powi e \<Longrightarrow> ilog2 x < e"
proof -
  assume x: "0 < x" "x < 2 powi e"
  then have "(2::rat) powi ilog2 x < 2 powi e" using ilog2_bounds(1) [of x] by linarith
  then show ?thesis by (simp add: powi2_less)
qed

lemma ilog2_powi [simp]: "ilog2 (2 powi e) = e"
proof -
  have "(2::rat) powi ilog2 (2 powi e) \<le> 2 powi e" "(2::rat) powi e < 2 powi (ilog2 (2 powi e) + 1)"
    using ilog2_bounds [of "2 powi e"] by simp_all
  then show ?thesis by (metis linorder_not_le powi2_less zless_add1_eq order_antisym)
qed

text \<open>A multiple of the grid is not moved.\<close>

lemma grid_exact: "e \<le> e' \<Longrightarrow> grid e (of_int n * 2 powi e') = of_int n * 2 powi e'"
proof -
  assume le: "e \<le> e'"
  have "of_int n * 2 powi e' / 2 powi e = (of_int n * 2 powi (e' - e) :: rat)"
    by (simp add: power_int_diff)
  also have "\<dots> = of_int (n * 2 ^ nat (e' - e))"
    using le by (simp add: power_int_def)
  finally have "rhe (of_int n * 2 powi e' / 2 powi e) = n * 2 ^ nat (e' - e)"
    by (simp only: rhe_of_int)
  moreover have "(2::rat) ^ nat (e' - e) * 2 powi e = 2 powi e'"
  proof -
    have "(2::rat) ^ nat (e' - e) = 2 powi (e' - e)" using le by (simp add: power_int_def)
    then show ?thesis by (simp flip: power_int_add)
  qed
  ultimately show ?thesis by (simp add: grid_def mult.assoc)
qed

lemma grid_mono: "x \<le> y \<Longrightarrow> grid e x \<le> grid e y"
  by (simp add: grid_def rhe_mono divide_right_mono)

lemma grid_minus: "grid e (- x) = - grid e x"
  using rhe_minus [of "x / 2 powi e"] by (simp add: grid_def)

lemma fexp_minus: "fexp (- x) = fexp x"
  by (simp add: fexp_def)

lemma fexp_mono: "0 < x \<Longrightarrow> x \<le> y \<Longrightarrow> fexp x \<le> fexp y"
  using ilog2_mono [of x y] by (simp add: fexp_def)

definition gr :: "rat \<Rightarrow> rat" where
  "gr x = grid (fexp x) x"

lemma gr_minus: "gr (- x) = - gr x"
  by (simp add: gr_def fexp_minus grid_minus)

lemma gr_zero [simp]: "gr 0 = 0"
  using rhe_of_int [of 0] by (simp add: gr_def grid_def del: rhe_of_int)

lemma gr_mono_pos: "0 < x \<Longrightarrow> x \<le> y \<Longrightarrow> gr x \<le> gr y"
proof -
  assume x: "0 < x" and le: "x \<le> y"
  have fe: "fexp x \<le> fexp y" using x le by (rule fexp_mono)
  show ?thesis
  proof (cases "fexp x = fexp y")
    case True
    with le show ?thesis by (simp add: gr_def grid_mono)
  next
    case False
    define E where "E = fexp y"
    from x le have y: "0 < y" by simp
    have E: "E = ilog2 y - 52" and lt: "fexp x < E"
      using False fe x y by (auto simp: E_def fexp_def)
    have up: "2 powi (E + 52) \<le> y" using ilog2_bounds(1) [OF y] by (simp add: E)
    have "ilog2 x + 1 \<le> E + 52" using lt x by (simp add: fexp_def)
    then have dn: "x \<le> 2 powi (E + 52)"
      using ilog2_bounds(2) [OF x] powi2_mono [of "ilog2 x + 1" "E + 52"] by linarith
    have "gr x \<le> 2 powi (E + 52)"
      using grid_mono [OF dn, of "fexp x"] grid_exact [of "fexp x" "E + 52" 1] lt
      by (simp add: gr_def)
    also have "\<dots> \<le> gr y"
      using grid_mono [OF up, of E] grid_exact [of E "E + 52" 1] by (simp add: gr_def E_def)
    finally show ?thesis .
  qed
qed

lemma gr_nonneg: "0 \<le> x \<Longrightarrow> 0 \<le> gr x"
proof -
  assume "0 \<le> x"
  then have "0 \<le> rhe (x / 2 powi fexp x)" by (intro rhe_lower) simp
  then show ?thesis by (simp add: gr_def grid_def)
qed

lemma gr_mono: "x \<le> y \<Longrightarrow> gr x \<le> gr y"
proof -
  assume le: "x \<le> y"
  consider "0 < x" | "x \<le> 0" "0 \<le> y" | "y < 0" by linarith
  then show ?thesis
  proof cases
    case 1
    with le show ?thesis by (simp add: gr_mono_pos)
  next
    case 2
    have "0 \<le> gr (- x)" "0 \<le> gr y" using 2 by (auto intro: gr_nonneg)
    then show ?thesis by (simp add: gr_minus)
  next
    case 3
    with le have "gr (- y) \<le> gr (- x)" by (intro gr_mono_pos) auto
    then show ?thesis by (simp add: gr_minus)
  qed
qed

text \<open>Values with a 53-bit significand on a grid no finer than the subnormals are exact.\<close>

lemma gr_exact:
  assumes n: "\<bar>n\<bar> \<le> 2 ^ 53" and e: "- 1074 \<le> e"
  shows "gr (of_int n * 2 powi e) = of_int n * 2 powi e"
proof (cases "n = 0")
  case False
  define v where "v = of_int n * (2::rat) powi e"
  have av: "\<bar>v\<bar> = of_int \<bar>n\<bar> * 2 powi e" and pos: "0 < \<bar>v\<bar>"
    using False by (auto simp: v_def abs_mult)
  show ?thesis
  proof (cases "\<bar>n\<bar> < 2 ^ 53")
    case True
    then have "of_int \<bar>n\<bar> < (2::rat) ^ 53"
      by (metis of_int_less_iff of_int_numeral of_int_power)
    then have "\<bar>v\<bar> < 2 ^ 53 * 2 powi e" by (simp add: av)
    also have "\<dots> = 2 powi (e + 53)" by (simp add: power_int_add)
    finally have "ilog2 \<bar>v\<bar> < e + 53" using pos by (intro ilog2_less)
    then have "fexp v \<le> e" using e by (simp add: fexp_def)
    then show ?thesis by (simp add: gr_def v_def grid_exact)
  next
    case False
    with n have n53: "\<bar>n\<bar> = 2 ^ 53" by simp
    then have "\<bar>v\<bar> = 2 powi (e + 53)" by (simp add: av power_int_add)
    then have fe: "fexp v = e + 1" using e by (simp add: fexp_def)
    have "n = 2 * (if 0 < n then 2 ^ 52 else - (2 ^ 52))" using n53 by (auto simp: abs_if split: if_splits)
    then obtain m where m: "n = m * 2" by (metis mult.commute)
    have v': "v = of_int m * 2 powi (e + 1)" by (simp add: v_def m power_int_add)
    have "grid (e + 1) v = v" using grid_exact [of "e + 1" "e + 1" m] by (simp add: v')
    then have "gr v = v" by (simp add: gr_def fe)
    then show ?thesis by (simp add: v_def)
  qed
qed simp

lemma gr_shape: "\<exists>n e. gr x = of_int n * 2 powi e \<and> \<bar>n\<bar> \<le> 2 ^ 53 \<and> - 1074 \<le> e"
proof (cases "x = 0")
  case True
  then show ?thesis by (intro exI [of _ 0] exI [of _ 0]) simp
next
  case False
  define e where "e = fexp x"
  have pos: "0 < \<bar>x\<bar>" using False by simp
  have ie: "ilog2 \<bar>x\<bar> + 1 \<le> e + 53" by (simp add: e_def fexp_def)
  have "\<bar>x\<bar> \<le> 2 powi (e + 53)"
    using ilog2_bounds(2) [OF pos] powi2_mono [OF ie] by linarith
  then have "\<bar>x / 2 powi e\<bar> \<le> of_int (2 ^ 53)"
    by (simp add: abs_divide pos_divide_le_eq power_int_add mult.commute)
  then have "x / 2 powi e \<le> of_int (2 ^ 53)" "of_int (- (2 ^ 53)) \<le> x / 2 powi e"
    by linarith+
  then have "rhe (x / 2 powi e) \<le> 2 ^ 53" "- (2 ^ 53) \<le> rhe (x / 2 powi e)"
    by (auto intro: rhe_upper rhe_lower simp del: of_int_minus of_int_power)
  then show ?thesis
    by (intro exI [of _ "rhe (x / 2 powi e)"] exI [of _ e])
      (auto simp: gr_def grid_def e_def fexp_def abs_le_iff)
qed

lemma gr_idem: "gr (gr x) = gr x"
  using gr_shape [of x] gr_exact by metis

lemma gr_of_int: "\<bar>n\<bar> \<le> 2 ^ 53 \<Longrightarrow> gr (of_int n) = of_int n"
  using gr_exact [of n 0] by simp

lemma rnd_alt:
  "rnd x = (if 2 ^ 1024 \<le> gr x then PosInf else if gr x \<le> - (2 ^ 1024) then NegInf else Fin (gr x))"
  by (simp add: rnd_def gr_def Let_def)


subsection \<open>Comparisons\<close>

text \<open>Every comparison with NaN is false.\<close>

fun fle :: "f64 \<Rightarrow> f64 \<Rightarrow> bool" where
  "fle NaN _ = False"
| "fle _ NaN = False"
| "fle NegInf _ = True"
| "fle _ PosInf = True"
| "fle (Fin a) (Fin b) = (a \<le> b)"
| "fle _ _ = False"

fun feq :: "f64 \<Rightarrow> f64 \<Rightarrow> bool" where
  "feq NaN _ = False"
| "feq a b = (a = b)"

definition flt :: "f64 \<Rightarrow> f64 \<Rightarrow> bool" where
  "flt a b \<longleftrightarrow> fle a b \<and> \<not> feq a b"

lemma flt_Fin [simp]: "flt (Fin a) (Fin b) \<longleftrightarrow> a < b"
  by (auto simp: flt_def)

lemma flt_NaN [simp]: "\<not> flt NaN b" "\<not> flt a NaN"
  by (simp add: flt_def) (cases a; simp add: flt_def)

lemma flt_inf [simp]: "flt (Fin r) PosInf" "flt NegInf (Fin r)" "flt NegInf PosInf"
  by (simp_all add: flt_def)

lemma not_flt_inf [simp]: "\<not> flt PosInf a" "\<not> flt a NegInf"
  by (cases a; simp add: flt_def)+

lemma fle_refl: "a \<noteq> NaN \<Longrightarrow> fle a a"
  by (cases a) auto

lemma fle_trans: "fle a b \<Longrightarrow> fle b c \<Longrightarrow> fle a c"
  by (cases a; cases b; cases c) auto

lemma fle_not_flt: "a \<noteq> NaN \<Longrightarrow> b \<noteq> NaN \<Longrightarrow> fle a b \<longleftrightarrow> \<not> flt b a"
  by (cases a; cases b) (auto simp: flt_def)

lemma rnd_not_NaN [simp]: "rnd x \<noteq> NaN"
  by (simp add: rnd_alt)

lemma rnd_mono: "x \<le> y \<Longrightarrow> fle (rnd x) (rnd y)"
  using gr_mono [of x y] by (auto simp: rnd_alt)

subsection \<open>Arithmetic\<close>

fun fneg :: "f64 \<Rightarrow> f64" where
  "fneg NaN = NaN"
| "fneg PosInf = NegInf"
| "fneg NegInf = PosInf"
| "fneg (Fin a) = Fin (- a)"

fun fadd :: "f64 \<Rightarrow> f64 \<Rightarrow> f64" where
  "fadd (Fin a) (Fin b) = rnd (a + b)"
| "fadd NaN _ = NaN"
| "fadd _ NaN = NaN"
| "fadd PosInf NegInf = NaN"
| "fadd NegInf PosInf = NaN"
| "fadd PosInf _ = PosInf"
| "fadd NegInf _ = NegInf"
| "fadd _ PosInf = PosInf"
| "fadd _ NegInf = NegInf"

definition fsub :: "f64 \<Rightarrow> f64 \<Rightarrow> f64" where
  "fsub a b = fadd a (fneg b)"

fun fmul :: "f64 \<Rightarrow> f64 \<Rightarrow> f64" where
  "fmul (Fin a) (Fin b) = rnd (a * b)"
| "fmul NaN _ = NaN"
| "fmul _ NaN = NaN"
| "fmul (Fin a) PosInf = (if a = 0 then NaN else if 0 < a then PosInf else NegInf)"
| "fmul (Fin a) NegInf = (if a = 0 then NaN else if 0 < a then NegInf else PosInf)"
| "fmul PosInf (Fin b) = (if b = 0 then NaN else if 0 < b then PosInf else NegInf)"
| "fmul NegInf (Fin b) = (if b = 0 then NaN else if 0 < b then NegInf else PosInf)"
| "fmul PosInf PosInf = PosInf"
| "fmul NegInf NegInf = PosInf"
| "fmul PosInf NegInf = NegInf"
| "fmul NegInf PosInf = NegInf"

text \<open>Division, with a zero divisor taken as positive zero.\<close>

fun fdiv :: "f64 \<Rightarrow> f64 \<Rightarrow> f64" where
  "fdiv (Fin a) (Fin b) = (if b = 0 then (if a = 0 then NaN else if 0 < a then PosInf else NegInf)
                           else rnd (a / b))"
| "fdiv NaN _ = NaN"
| "fdiv _ NaN = NaN"
| "fdiv (Fin a) _ = Fin 0"
| "fdiv PosInf (Fin b) = (if b < 0 then NegInf else PosInf)"
| "fdiv NegInf (Fin b) = (if b < 0 then PosInf else NegInf)"
| "fdiv _ _ = NaN"

text \<open>
  Conversions. \<open>float64(n)\<close> rounds; \<open>int64(x)\<close> truncates towards zero, and where the value
  does not fit (or is NaN) the result is the one of the amd64 instruction Go compiles it to.
\<close>

definition f64_of_int :: "int \<Rightarrow> f64" where
  "f64_of_int n = rnd (of_int n)"

definition rat_trunc :: "rat \<Rightarrow> int" where
  "rat_trunc r = (if 0 \<le> r then \<lfloor>r\<rfloor> else \<lceil>r\<rceil>)"

definition int64_of_f64 :: "f64 \<Rightarrow> int" where
  "int64_of_f64 x = (case x of
     Fin r \<Rightarrow> (if in64 (rat_trunc r) then rat_trunc r else - (2 ^ 63))
   | _ \<Rightarrow> - (2 ^ 63))"

subsection \<open>Representable values\<close>

definition f64_ok :: "f64 \<Rightarrow> bool" where
  "f64_ok x = (case x of Fin r \<Rightarrow> rnd r = Fin r | _ \<Rightarrow> True)"

lemma f64_ok_simps [simp]: "f64_ok PosInf" "f64_ok NegInf" "f64_ok NaN"
  by (simp_all add: f64_ok_def)

lemma f64_ok_Fin: "f64_ok (Fin r) \<longleftrightarrow> gr r = r \<and> \<bar>r\<bar> < 2 ^ 1024"
  by (auto simp: f64_ok_def rnd_alt split: if_splits)

lemma f64_ok_rnd [simp]: "f64_ok (rnd x)"
  by (auto simp: f64_ok_def rnd_alt gr_idem)

lemma f64_ok_fneg: "f64_ok a \<Longrightarrow> f64_ok (fneg a)"
  by (cases a) (simp_all add: f64_ok_Fin gr_minus)

lemma f64_ok_fadd [simp]: "f64_ok (fadd a b)"
  by (cases a; cases b) auto

lemma f64_ok_fsub [simp]: "f64_ok (fsub a b)"
  by (simp add: fsub_def)

lemma f64_ok_fmul [simp]: "f64_ok (fmul a b)"
  by (cases a; cases b) auto

lemma f64_ok_of_int [simp]: "f64_ok (f64_of_int n)"
  by (simp add: f64_of_int_def)

lemma two_pow_53_1024: "(2::rat) ^ 53 < 2 ^ 1024"
  by (intro power_strict_increasing) simp_all

lemma rnd_of_int: "\<bar>n\<bar> \<le> 2 ^ 53 \<Longrightarrow> rnd (of_int n) = Fin (of_int n)"
proof -
  assume n: "\<bar>n\<bar> \<le> 2 ^ 53"
  then have "\<bar>of_int n\<bar> \<le> (2::rat) ^ 53"
    by (metis of_int_abs of_int_le_iff of_int_numeral of_int_power)
  with two_pow_53_1024 have "\<bar>of_int n\<bar> < (2::rat) ^ 1024" by linarith
  with gr_of_int [OF n] show ?thesis by (auto simp: rnd_alt abs_less_iff)
qed

lemma f64_of_int_exact: "\<bar>n\<bar> \<le> 2 ^ 53 \<Longrightarrow> f64_of_int n = Fin (of_int n)"
  by (simp add: f64_of_int_def rnd_of_int)

lemma rnd_numeral [simp]:
  "(numeral k :: int) \<le> 2 ^ 53 \<Longrightarrow> rnd (numeral k) = Fin (numeral k)"
  "(numeral k :: int) \<le> 2 ^ 53 \<Longrightarrow> rnd (- numeral k) = Fin (- numeral k)"
  using rnd_of_int [of "numeral k"] rnd_of_int [of "- numeral k"] by simp_all

lemma rnd_0_1 [simp]: "rnd 0 = Fin 0" "rnd 1 = Fin 1" "rnd (- 1) = Fin (- 1)"
  using rnd_of_int [of 0] rnd_of_int [of 1] rnd_of_int [of "- 1"] by simp_all

lemma f64_of_int_int32: "in32 n \<Longrightarrow> f64_of_int n = Fin (of_int n)"
  by (intro f64_of_int_exact) (auto simp: in32_def abs_le_iff)

lemma int64_of_f64_of_int: "\<bar>n\<bar> \<le> 2 ^ 53 \<Longrightarrow> int64_of_f64 (f64_of_int n) = n"
  by (auto simp: f64_of_int_exact int64_of_f64_def rat_trunc_def in64_def abs_le_iff)

lemma int64_of_f64_in64 [simp]: "in64 (int64_of_f64 x)"
  by (auto simp: int64_of_f64_def in64_def split: f64.splits)

lemma rat_trunc_mono: "x \<le> y \<Longrightarrow> rat_trunc x \<le> rat_trunc y"
proof -
  assume le: "x \<le> y"
  show ?thesis
  proof (cases "0 \<le> x \<or> y < 0")
    case True
    with le show ?thesis by (auto simp: rat_trunc_def floor_mono ceiling_mono)
  next
    case False
    then have "\<lceil>x\<rceil> \<le> 0" "0 \<le> \<lfloor>y\<rfloor>" by (simp_all add: ceiling_le_iff le_floor_iff)
    then have "\<lceil>x\<rceil> \<le> \<lfloor>y\<rfloor>" by linarith
    with False show ?thesis by (simp add: rat_trunc_def)
  qed
qed

text \<open>Subtracting and adding a non-negative amount move a representable value the right way.\<close>

lemma fsub_Fin_le:
  assumes a: "f64_ok (Fin a)" and b: "0 \<le> b"
  shows "fle (fsub (Fin a) (Fin b)) (Fin a)"
proof -
  have "fle (rnd (a - b)) (rnd a)" using b by (intro rnd_mono) simp
  with a show ?thesis by (simp add: fsub_def f64_ok_def)
qed

lemma fsub_Fin_finite:
  assumes a: "f64_ok (Fin a)" "0 \<le> a" and b: "f64_ok (Fin b)" "0 \<le> b"
  obtains r where "fsub (Fin a) (Fin b) = Fin r" "r \<le> a" "f64_ok (Fin r)"
proof -
  have "fle (rnd (a - b)) (rnd a)" "fle (rnd (- b)) (rnd (a - b))"
    using a b by (auto intro!: rnd_mono)
  moreover have "rnd (- b) = Fin (- b)"
    using f64_ok_fneg [OF b(1)] by (simp add: f64_ok_def)
  moreover have "rnd a = Fin a" using a by (simp add: f64_ok_def)
  ultimately obtain r where "rnd (a - b) = Fin r" "r \<le> a"
    by (cases "rnd (a - b)") auto
  moreover from this have "f64_ok (Fin r)" using f64_ok_rnd [of "a - b"] by simp
  ultimately show thesis using that by (simp add: fsub_def)
qed

lemma fadd_Fin_ge:
  assumes a: "f64_ok (Fin a)" and b: "0 \<le> b"
  shows "fle (Fin a) (fadd (Fin a) (Fin b))"
proof -
  have "fle (rnd a) (rnd (a + b))" using b by (intro rnd_mono) simp
  with a show ?thesis by (simp add: f64_ok_def)
qed

subsection \<open>Durations in seconds\<close>

text \<open>\<open>Duration.Seconds\<close>: whole seconds and the rest, each as a float; Go's division truncates.\<close>

definition Seconds :: "int \<Rightarrow> f64" where
  "Seconds d = (let q = sgn d * (\<bar>d\<bar> div 1000000000) in
     fadd (f64_of_int q) (fdiv (f64_of_int (d - q * 1000000000)) (Fin 1000000000)))"

lemma Seconds_below_1:
  assumes "0 \<le> d" and "d < 10 ^ 9"
  shows "flt (Seconds d) (Fin 1)"
proof -
  have q: "\<bar>d\<bar> div 1000000000 = 0" using assms by simp
  have f: "f64_of_int d = Fin (of_int d)" using assms by (intro f64_of_int_exact) simp
  have y: "rnd (1 - 1 / 2 ^ 30) = Fin (1 - 1 / 2 ^ 30)"
  proof -
    have "gr (of_int (2 ^ 30 - 1) * 2 powi (- 30)) = of_int (2 ^ 30 - 1) * 2 powi (- 30)" by (rule gr_exact) simp_all
    moreover have "(of_int (2 ^ 30 - 1) * 2 powi (- 30) :: rat) = 1 - 1 / 2 ^ 30" by (simp add: power_int_def power_divide)
    ultimately have "gr (1 - 1 / 2 ^ 30) = 1 - 1 / 2 ^ 30" by simp
    then show ?thesis using two_pow_53_1024 by (simp add: rnd_alt)
  qed
  have step: "\<exists>s. rnd r = Fin s \<and> 0 \<le> s \<and> s \<le> 1 - 1 / 2 ^ 30" if "0 \<le> r" "r \<le> 1 - 1 / 2 ^ 30" for r
  proof -
    have "fle (Fin 0) (rnd r)" using rnd_mono [OF that(1)] by simp
    moreover have "fle (rnd r) (Fin (1 - 1 / 2 ^ 30))" using rnd_mono [OF that(2)] y by simp
    ultimately show ?thesis by (cases "rnd r") auto
  qed
  have "d \<le> 999999999" using assms by simp
  then have "of_int d \<le> (999999999 :: rat)" by (metis of_int_le_iff of_int_numeral)
  then have "0 \<le> (of_int d / 1000000000 :: rat)" "(of_int d / 1000000000 :: rat) \<le> 1 - 1 / 2 ^ 30" using assms by simp_all
  from step [OF this] obtain s where s: "rnd (of_int d / 1000000000) = Fin s" "0 \<le> s" "s \<le> 1 - 1 / 2 ^ 30" by blast
  from step [OF s(2,3)] obtain t where "rnd s = Fin t" "t \<le> 1 - 1 / 2 ^ 30" by blast
  moreover have "Seconds d = rnd s" unfolding Seconds_def using f64_of_int_exact [of 0] by (simp add: q f s)
  ultimately show ?thesis by simp
qed

lemma Seconds_not_NaN:
  assumes "\<bar>d\<bar> < 2 ^ 63"
  shows "Seconds d \<noteq> NaN"
proof -
  have "\<bar>d\<bar> div 1000000000 \<le> 2 ^ 53" using assms by simp
  then have "\<bar>sgn d * (\<bar>d\<bar> div 1000000000)\<bar> \<le> 2 ^ 53" by (cases "d = 0") (simp_all add: abs_mult)
  then have q: "f64_of_int (sgn d * (\<bar>d\<bar> div 1000000000)) = Fin (of_int (sgn d * (\<bar>d\<bar> div 1000000000)))"
    by (rule f64_of_int_exact)
  have x: "x \<noteq> NaN \<Longrightarrow> fdiv x (Fin 1000000000) \<noteq> NaN" for x by (cases x) auto
  have y: "y \<noteq> NaN \<Longrightarrow> fadd (Fin a) y \<noteq> NaN" for a y by (cases y) auto
  show ?thesis unfolding Seconds_def Let_def q by (intro y x) (simp add: f64_of_int_def)
qed

lemma Seconds_from_1:
  assumes "10 ^ 9 \<le> d" and "d < 2 ^ 63"
  shows "\<not> flt (Seconds d) (Fin 1)"
proof -
  let ?q = "sgn d * (\<bar>d\<bar> div 1000000000)"
  have qd: "?q = d div 1000000000" using assms by simp
  have q: "1 \<le> ?q" "\<bar>?q\<bar> \<le> 2 ^ 53" using assms unfolding qd by simp_all
  then have fq: "f64_of_int ?q = Fin (of_int ?q)" by (intro f64_of_int_exact)
  have m: "d - ?q * 1000000000 = d mod 1000000000" unfolding qd by (simp add: minus_div_mult_eq_mod)
  have fm: "f64_of_int (d mod 1000000000) = Fin (of_int (d mod 1000000000))" by (intro f64_of_int_exact) simp
  have "fle (Fin 0) (rnd (of_int (d mod 1000000000) / 1000000000))" using rnd_mono [of 0 "of_int (d mod 1000000000) / 1000000000"] by simp
  then obtain x where x: "rnd (of_int (d mod 1000000000) / 1000000000) = x" "x = PosInf \<or> (\<exists>y \<ge> 0. x = Fin y)"
    by (cases "rnd (of_int (d mod 1000000000) / 1000000000)") auto
  have s: "Seconds d = fadd (Fin (of_int ?q)) x" unfolding Seconds_def Let_def fq m fm by (simp add: x(1))
  show ?thesis
  proof (cases "x = PosInf")
    case True
    then show ?thesis unfolding s by simp
  next
    case False
    then obtain y where y: "x = Fin y" "0 \<le> y" using x(2) by blast
    have "(1::rat) \<le> of_int ?q" using q(1) by (metis of_int_1 of_int_le_iff)
    then have "(1::rat) \<le> of_int ?q + y" using y(2) by linarith
    from rnd_mono [OF this] have "fle (Fin 1) (Seconds d)" unfolding s y(1) by simp
    then show ?thesis by (cases "Seconds d") (auto simp: flt_def)
  qed
qed

end
