(* ===== verification/Database.thy ===== *)
theory Database
  imports Prelude
begin

section \<open>The persistence seam: sdk/engine/store\<close>

text \<open>
  Repositories reach Postgres through \<open>store.Store\<close>. The driver and the server are not part
  of the repository; what the code relies on is that a statement either takes effect on the tables
  as its SQL says or fails and changes nothing, and that a transaction commits as a whole or not
  at all. A \<open>DB\<close> is therefore the tables plus the outcomes the driver will report for the
  coming calls: \<open>Some n\<close> makes the next call fail with error \<open>n\<close>, an exhausted list means no
  further failure. Every theorem about a repository quantifies over that list, so it covers a
  failure at any statement.
\<close>

record 'tb DB =
  db_tables :: 'tb
  db_faults :: "nat option list"

definition db_call :: "'tb DB \<Rightarrow> error option \<times> 'tb DB" where
  "db_call d = (case db_faults d of
     [] \<Rightarrow> (None, d)
   | f # fs \<Rightarrow> (map_option IOErr f, d\<lparr>db_faults := fs\<rparr>))"

text \<open>
  \<open>Exec\<close> and \<open>QueryRow(...).Scan\<close>: the driver call, then the statement on the tables,
  which may itself be rejected (no row, a violated constraint).
\<close>

definition db_stmt :: "('tb \<Rightarrow> ('a \<times> 'tb) result) \<Rightarrow> 'tb DB \<Rightarrow> 'a result \<times> 'tb DB" where
  "db_stmt stmt d = (case db_call d of
     (Some e, d') \<Rightarrow> (Inl e, d')
   | (None, d') \<Rightarrow> (case stmt (db_tables d') of
        Inl e \<Rightarrow> (Inl e, d')
      | Inr (a, tb) \<Rightarrow> (Inr a, d'\<lparr>db_tables := tb\<rparr>)))"

text \<open>
  Reading the rows of a \<open>Query\<close>: each \<open>rows.Next()\<close> may fail, which ends the loop; the
  error is kept for \<open>rows.Err()\<close>. The result is the rows delivered and that error.
\<close>

fun fetch_rows :: "'r list \<Rightarrow> 'tb DB \<Rightarrow> ('r list \<times> error option) \<times> 'tb DB" where
  "fetch_rows [] d = (case db_call d of (e, d') \<Rightarrow> (([], e), d'))"
| "fetch_rows (r # rs) d = (case db_call d of
     (Some e, d') \<Rightarrow> (([], Some e), d')
   | (None, d') \<Rightarrow> (case fetch_rows rs d' of ((got, e), d'') \<Rightarrow> ((r # got, e), d'')))"

text \<open>
  \<open>WithinTx\<close>: begin, run the function on the transaction, commit; an error (or a panic)
  of the function, of begin or of commit leaves the tables as they were.
\<close>

definition WithinTx :: "'tb DB \<Rightarrow> ('tb DB \<Rightarrow> 'a result \<times> 'tb DB) \<Rightarrow> 'a result \<times> 'tb DB" where
  "WithinTx d fn = (case db_call d of
     (Some e, d1) \<Rightarrow> (Inl e, d1)
   | (None, d1) \<Rightarrow> (case fn d1 of
        (Inl e, d2) \<Rightarrow> (Inl e, d2\<lparr>db_tables := db_tables d\<rparr>)
      | (Inr a, d2) \<Rightarrow> (case db_call d2 of
           (Some e, d3) \<Rightarrow> (Inl e, d3\<lparr>db_tables := db_tables d\<rparr>)
         | (None, d3) \<Rightarrow> (Inr a, d3))))"

lemma db_call_tables [simp]: "db_call d = (r, d') \<Longrightarrow> db_tables d' = db_tables d"
  by (auto simp: db_call_def split: list.splits)

lemma db_call_no_faults [simp]: "db_faults d = [] \<Longrightarrow> db_call d = (None, d)"
  by (simp add: db_call_def)

lemma db_stmt_Inl: "db_stmt stmt d = (Inl e, d') \<Longrightarrow> db_tables d' = db_tables d"
  by (auto simp: db_stmt_def split: prod.splits option.splits sum.splits)

lemma db_stmt_Inr:
  "db_stmt stmt d = (Inr a, d') \<Longrightarrow> stmt (db_tables d) = Inr (a, db_tables d')"
  by (auto simp: db_stmt_def split: prod.splits option.splits sum.splits)

text \<open>An error is the driver's or the statement's own.\<close>

lemma db_stmt_Inl_cases: "db_stmt stmt d = (Inl e, d') \<Longrightarrow> (\<exists>n. e = IOErr n) \<or> stmt (db_tables d) = Inl e"
proof -
  assume a: "db_stmt stmt d = (Inl e, d')"
  obtain f d1 where c: "db_call d = (f, d1)" by fastforce
  have t: "db_tables d1 = db_tables d" by (rule db_call_tables [OF c])
  have x: "\<exists>n. y = IOErr n" if "f = Some y" for y
    using c that by (cases "db_faults d") (auto simp: db_call_def)
  show ?thesis
  proof (cases f)
    case None
    then show ?thesis using a c t by (cases "stmt (db_tables d)") (simp_all add: db_stmt_def split_beta)
  next
    case (Some y)
    then show ?thesis using a c x by (simp add: db_stmt_def)
  qed
qed

lemma db_stmt_upd:
  "db_stmt (\<lambda>t. Inr (g t, f t)) d = (Inr a, d') \<Longrightarrow> db_tables d' = f (db_tables d) \<and> a = g (db_tables d)"
  by (auto dest!: db_stmt_Inr)

lemma db_stmt_no_faults:
  "db_faults d = [] \<Longrightarrow> db_stmt stmt d = (case stmt (db_tables d) of
     Inl e \<Rightarrow> (Inl e, d) | Inr (a, tb) \<Rightarrow> (Inr a, d\<lparr>db_tables := tb\<rparr>))"
  by (simp add: db_stmt_def)

lemma fetch_rows_tables: "fetch_rows rs d = (r, d') \<Longrightarrow> db_tables d' = db_tables d"
  by (induction rs arbitrary: d r) (auto split: prod.splits option.splits)

lemma fetch_rows_prefix:
  "fetch_rows rs d = ((got, e), d') \<Longrightarrow> (\<exists>rest. rs = got @ rest) \<and> (e = None \<longrightarrow> got = rs)"
  by (induction rs arbitrary: d got d') (fastforce split: prod.splits option.splits)+

lemma fetch_rows_no_faults: "db_faults d = [] \<Longrightarrow> fetch_rows rs d = ((rs, None), d)"
  by (induction rs) auto

text \<open>Atomicity: a transaction that reports an error has changed no table.\<close>

lemma WithinTx_atomic: "WithinTx d fn = (Inl e, d') \<Longrightarrow> db_tables d' = db_tables d"
  by (auto simp: WithinTx_def split: prod.splits option.splits sum.splits)

text \<open>A transaction that reports success holds exactly what its function wrote.\<close>

lemma WithinTx_committed:
  assumes "WithinTx d fn = (Inr a, d')"
  obtains d1 d2 where "db_tables d1 = db_tables d" "fn d1 = (Inr a, d2)" "db_tables d' = db_tables d2"
  using assms by (auto simp: WithinTx_def split: prod.splits option.splits sum.splits)
    (metis db_call_tables)

lemma WithinTx_no_faults:
  "db_faults d = [] \<Longrightarrow> fn d = (Inr a, d2) \<Longrightarrow> db_faults d2 = [] \<Longrightarrow> WithinTx d fn = (Inr a, d2)"
  by (simp add: WithinTx_def)

subsection \<open>Sequences of statements\<close>

text \<open>
  \<open>if err != nil { return err }\<close> after a statement, and the translation of one error into another.
\<close>

definition tx_bind :: "('tb DB \<Rightarrow> 'a result \<times> 'tb DB) \<Rightarrow> ('a \<Rightarrow> 'tb DB \<Rightarrow> 'b result \<times> 'tb DB) \<Rightarrow> 'tb DB \<Rightarrow> 'b result \<times> 'tb DB" where
  "tx_bind m f d = (case m d of (Inl e, d') \<Rightarrow> (Inl e, d') | (Inr a, d') \<Rightarrow> f a d')"

definition tx_return :: "'a result \<Rightarrow> 'tb DB \<Rightarrow> 'a result \<times> 'tb DB" where
  "tx_return r d = (r, d)"

definition tx_map_err :: "(error \<Rightarrow> error) \<Rightarrow> ('tb DB \<Rightarrow> 'a result \<times> 'tb DB) \<Rightarrow> 'tb DB \<Rightarrow> 'a result \<times> 'tb DB" where
  "tx_map_err f m d = (case m d of (Inl e, d') \<Rightarrow> (Inl (f e), d') | (Inr a, d') \<Rightarrow> (Inr a, d'))"

abbreviation ErrNoRows :: error where "ErrNoRows \<equiv> Sentinel ''pgx.ErrNoRows''"

lemma tx_bind_Inr:
  assumes "tx_bind m f d = (Inr b, d')"
  obtains a d1 where "m d = (Inr a, d1)" "f a d1 = (Inr b, d')"
  using assms by (auto simp: tx_bind_def split: prod.splits sum.splits)

lemma tx_bind_ok: "m d = (Inr a, d1) \<Longrightarrow> tx_bind m f d = f a d1"
  by (simp add: tx_bind_def)

lemma tx_bind_cases:
  obtains e d1 where "m d = (Inl e, d1)" "tx_bind m f d = (Inl e, d1)"
  | a d1 where "m d = (Inr a, d1)" "tx_bind m f d = f a d1"
proof -
  obtain r d1 where "m d = (r, d1)" by fastforce
  then show thesis using that by (cases r) (auto simp: tx_bind_def)
qed

lemma tx_map_err_Inr [simp]: "tx_map_err f m d = (Inr a, d') \<longleftrightarrow> m d = (Inr a, d')"
  by (auto simp: tx_map_err_def split: prod.splits sum.splits)

lemma tx_return_Inr [simp]: "tx_return r d = (Inr a, d') \<longleftrightarrow> r = Inr a \<and> d' = d"
  by (auto simp: tx_return_def)

text \<open>Sequences that only read.\<close>

definition reads :: "('tb DB \<Rightarrow> 'a \<times> 'tb DB) \<Rightarrow> bool" where
  "reads m \<longleftrightarrow> (\<forall>d r d'. m d = (r, d') \<longrightarrow> db_tables d' = db_tables d)"

lemma readsD: "reads m \<Longrightarrow> m d = (r, d') \<Longrightarrow> db_tables d' = db_tables d"
  by (simp add: reads_def)

lemma reads_bind [intro]: "reads m \<Longrightarrow> (\<And>a. reads (f a)) \<Longrightarrow> reads (tx_bind m f)"
  by (fastforce simp: reads_def tx_bind_def split: prod.splits sum.splits)

lemma reads_return [intro]: "reads (tx_return r)"
  by (simp add: reads_def tx_return_def)

lemma reads_map_err [intro]: "reads m \<Longrightarrow> reads (tx_map_err f m)"
  by (fastforce simp: reads_def tx_map_err_def split: prod.splits sum.splits)

lemma reads_stmt: "(\<And>t a t'. stmt t = Inr (a, t') \<Longrightarrow> t' = t) \<Longrightarrow> reads (db_stmt stmt)"
  by (fastforce simp: reads_def db_stmt_def split: prod.splits sum.splits option.splits)

lemma reads_fetch [intro]: "reads (\<lambda>d. case fetch_rows rows d of ((got, _), d') \<Rightarrow> (f got, d'))"
  by (auto simp: reads_def split: prod.splits dest: fetch_rows_tables)

text \<open>A sequence of reads before a final step: how a success and a failure came about.\<close>

lemma tx_bind_readE:
  assumes "tx_bind m f d = (r, d')" "reads m"
  obtains e where "m d = (Inl e, d')" "r = Inl e" "db_tables d' = db_tables d"
  | a d1 where "m d = (Inr a, d1)" "db_tables d1 = db_tables d" "f a d1 = (r, d')"
  using assms by (auto simp: tx_bind_def reads_def split: prod.splits sum.splits)

text \<open>Sequences whose failure leaves the tables as they were (when they start from \<open>t\<close>).\<close>

definition err_keeps :: "'tb \<Rightarrow> ('tb DB \<Rightarrow> 'a result \<times> 'tb DB) \<Rightarrow> bool" where
  "err_keeps t m \<longleftrightarrow> (\<forall>d e d'. db_tables d = t \<longrightarrow> m d = (Inl e, d') \<longrightarrow> db_tables d' = t)"

lemma err_keepsD: "err_keeps (db_tables d) m \<Longrightarrow> m d = (Inl e, d') \<Longrightarrow> db_tables d' = db_tables d"
  unfolding err_keeps_def by blast

lemma err_keepsI: "(\<And>d e d'. db_tables d = t \<Longrightarrow> m d = (Inl e, d') \<Longrightarrow> db_tables d' = t) \<Longrightarrow> err_keeps t m"
  unfolding err_keeps_def by blast

lemma err_keeps_reads: "reads m \<Longrightarrow> err_keeps t m"
  by (rule err_keepsI) (metis readsD)

lemma err_keeps_stmt: "err_keeps t (db_stmt stmt)"
  by (rule err_keepsI) (metis db_stmt_Inl)

lemma err_keeps_WithinTx: "err_keeps t (\<lambda>d. WithinTx d fn)"
  by (rule err_keepsI) (metis WithinTx_atomic)

lemma err_keeps_map_err:
  assumes "err_keeps t m"
  shows "err_keeps t (tx_map_err f m)"
proof (rule err_keepsI)
  fix d e d'
  assume a: "db_tables d = t" "tx_map_err f m d = (Inl e, d')"
  then obtain e' where "m d = (Inl e', d')" by (auto simp: tx_map_err_def split: prod.splits sum.splits)
  with assms a(1) show "db_tables d' = t" using err_keepsD by metis
qed

lemma err_keeps_bind:
  assumes m: "reads m" and f: "\<And>a d d'. m d = (Inr a, d') \<Longrightarrow> db_tables d = t \<Longrightarrow> err_keeps t (f a)"
  shows "err_keeps t (tx_bind m f)"
proof (rule err_keepsI)
  fix d e d'
  assume a: "db_tables d = t" "tx_bind m f d = (Inl e, d')"
  from a(2) m show "db_tables d' = t"
  proof (cases rule: tx_bind_readE)
    case 1
    then show ?thesis using a(1) by simp
  next
    case (2 x d1)
    then have "err_keeps (db_tables d1) (f x)" using f a(1) by metis
    with 2 a(1) show ?thesis using err_keepsD by metis
  qed
qed

lemma err_keeps_last:
  assumes "err_keeps t m"
  shows "err_keeps t (tx_bind m (\<lambda>a. tx_return (Inr (g a))))"
proof (rule err_keepsI)
  fix d e d'
  assume a: "db_tables d = t" "tx_bind m (\<lambda>a. tx_return (Inr (g a))) d = (Inl e, d')"
  then have "m d = (Inl e, d')" by (auto simp: tx_bind_def tx_return_def split: prod.splits sum.splits)
  with assms a(1) show "db_tables d' = t" using err_keepsD by metis
qed

text \<open>A success of a sequence that begins with a read.\<close>

lemma tx_bind_read_Inr:
  assumes "tx_bind m f d = (Inr b, d')" "reads m"
  obtains a d1 where "m d = (Inr a, d1)" "db_tables d1 = db_tables d" "f a d1 = (Inr b, d')"
  using assms by (auto elim!: tx_bind_Inr dest: readsD)

text \<open>Sequences that leave a part \<open>P\<close> of the tables alone.\<close>

definition frames :: "('tb \<Rightarrow> 'p) \<Rightarrow> ('tb DB \<Rightarrow> 'a \<times> 'tb DB) \<Rightarrow> bool" where
  "frames P m \<longleftrightarrow> (\<forall>d r d'. m d = (r, d') \<longrightarrow> P (db_tables d') = P (db_tables d))"

lemma framesI: "(\<And>d r d'. m d = (r, d') \<Longrightarrow> P (db_tables d') = P (db_tables d)) \<Longrightarrow> frames P m"
  unfolding frames_def by blast

lemma framesD: "frames P m \<Longrightarrow> m d = (r, d') \<Longrightarrow> P (db_tables d') = P (db_tables d)"
  unfolding frames_def by blast

lemma frames_reads: "reads m \<Longrightarrow> frames P m"
  by (rule framesI) (metis readsD)

lemma frames_bind:
  assumes "frames P m" "\<And>a. frames P (f a)"
  shows "frames P (tx_bind m f)"
proof (rule framesI)
  fix d r d'
  assume "tx_bind m f d = (r, d')"
  then show "P (db_tables d') = P (db_tables d)"
    by (cases rule: tx_bind_cases [of m d f]) (use framesD [OF assms(1)] framesD [OF assms(2)] in fastforce)+
qed

lemma frames_return: "frames P (tx_return r)"
  by (rule framesI) (simp add: tx_return_def)

lemma frames_map_err: "frames P m \<Longrightarrow> frames P (tx_map_err f m)"
  by (rule framesI) (auto simp: tx_map_err_def split: prod.splits sum.splits dest: framesD)

lemma frames_stmt: "(\<And>t a t'. stmt t = Inr (a, t') \<Longrightarrow> P t' = P t) \<Longrightarrow> frames P (db_stmt stmt)"
  by (rule framesI, rename_tac d r d', case_tac r) (auto dest!: db_stmt_Inl db_stmt_Inr)

lemma frames_WithinTx:
  assumes "frames P fn"
  shows "frames P (\<lambda>d. WithinTx d fn)"
proof (rule framesI)
  fix d r d'
  assume w: "WithinTx d fn = (r, d')"
  show "P (db_tables d') = P (db_tables d)"
  proof (cases r)
    case (Inl e)
    with w show ?thesis by (metis WithinTx_atomic)
  next
    case (Inr a)
    with w obtain d1 d2 where "db_tables d1 = db_tables d" "fn d1 = (Inr a, d2)" "db_tables d' = db_tables d2"
      by (metis WithinTx_committed)
    then show ?thesis using framesD [OF assms] by metis
  qed
qed

lemmas frames_intros = frames_bind frames_return frames_map_err frames_stmt frames_WithinTx

end
