(* ===== verification/Json.thy ===== *)
theory Json
  imports Prelude
begin

section \<open>The part of encoding/json the component stores use\<close>

text \<open>
  JSON values and the decoding rules of \<open>json.Unmarshal\<close> for struct fields: an absent
  field, or null, leaves the zero value; a number decodes into an integer field only when it is an
  integer in the field's range. Object keys are matched exactly.
\<close>

datatype json =
    JNull
  | JBool bool
  | JNum rat
  | JStr string
  | JArr "json list"
  | JObj "(string \<times> json) list"

definition json_err :: error where
  "json_err = Formatted [''json: cannot unmarshal'']"

definition json_field :: "string \<Rightarrow> json \<Rightarrow> json result" where
  "json_field k j = (case j of
     JObj fs \<Rightarrow> Inr (case map_of fs k of None \<Rightarrow> JNull | Some v \<Rightarrow> v)
   | JNull \<Rightarrow> Inr JNull
   | _ \<Rightarrow> Inl json_err)"

definition json_int :: "(int \<Rightarrow> bool) \<Rightarrow> json \<Rightarrow> int result" where
  "json_int in_range j = (case j of
     JNull \<Rightarrow> Inr 0
   | JNum r \<Rightarrow> (if r = of_int \<lfloor>r\<rfloor> \<and> in_range \<lfloor>r\<rfloor> then Inr \<lfloor>r\<rfloor> else Inl json_err)
   | _ \<Rightarrow> Inl json_err)"

definition json_string :: "json \<Rightarrow> string result" where
  "json_string j = (case j of JNull \<Rightarrow> Inr [] | JStr s \<Rightarrow> Inr s | _ \<Rightarrow> Inl json_err)"

fun json_list :: "(json \<Rightarrow> 'a result) \<Rightarrow> json list \<Rightarrow> 'a list result" where
  "json_list dec [] = Inr []"
| "json_list dec (j # js) = (case dec j of Inl e \<Rightarrow> Inl e
     | Inr a \<Rightarrow> (case json_list dec js of Inl e \<Rightarrow> Inl e | Inr as \<Rightarrow> Inr (a # as)))"

definition json_array :: "(json \<Rightarrow> 'a result) \<Rightarrow> json \<Rightarrow> 'a list result" where
  "json_array dec j = (case j of JNull \<Rightarrow> Inr [] | JArr js \<Rightarrow> json_list dec js | _ \<Rightarrow> Inl json_err)"

lemma json_int_num [simp]: "in_range n \<Longrightarrow> json_int in_range (JNum (of_int n)) = Inr n"
  by (simp add: json_int_def)

lemma json_list_map:
  "(\<And>a. a \<in> set as \<Longrightarrow> dec (enc a) = Inr a) \<Longrightarrow> json_list dec (map enc as) = Inr as"
  by (induction as) auto

text \<open>A codec: what a component store needs of \<open>json.Marshal\<close> and \<open>json.Unmarshal\<close>;
  \<open>valid\<close> holds of the values Go's type can have.\<close>

locale json_codec =
  fixes marshal :: "'v \<Rightarrow> json result" and unmarshal :: "json \<Rightarrow> 'v result"
    and valid :: "'v \<Rightarrow> bool"
  assumes codec_roundtrip: "valid v \<Longrightarrow> marshal v = Inr j \<Longrightarrow> unmarshal j = Inr v"

end
