(* ===== verification/Component_Store.thy ===== *)
theory Component_Store
  imports Database Json
begin

section \<open>Component stores: gamekit/component\<close>

text \<open>
  \<open>component.Store[T]\<close> is an interface; \<open>Store\<close> is its dictionary of operations over a
  state \<open>'s\<close>. Two implementations are modelled: the in-memory store and the JSONB store over
  the persistence seam. The locale \<open>component_store\<close> is the contract the toolkits rely on, and
  both implementations are shown to meet it.
\<close>

record ('s, 'v) Store =
  st_Name :: string
  st_Get :: "'s \<Rightarrow> int \<Rightarrow> 'v option result \<times> 's"
  st_Set :: "'s \<Rightarrow> int \<Rightarrow> 'v \<Rightarrow> unit result \<times> 's"
  st_Delete :: "'s \<Rightarrow> int \<Rightarrow> unit result \<times> 's"
  st_Has :: "'s \<Rightarrow> int \<Rightarrow> bool result \<times> 's"
  st_EntityIDs :: "'s \<Rightarrow> int list result \<times> 's"

subsection \<open>The in-memory store (mem.go)\<close>

text \<open>Its map, in some order without duplicate keys: \<open>EntityIDs\<close> iterates over it and sorts.\<close>

type_synonym 'v memStore = "(int \<times> 'v) list"

definition mem_Get :: "'v memStore \<Rightarrow> int \<Rightarrow> 'v option result \<times> 'v memStore" where
  "mem_Get m entityID = (Inr (map_of m entityID), m)"

definition mem_Set :: "'v memStore \<Rightarrow> int \<Rightarrow> 'v \<Rightarrow> unit result \<times> 'v memStore" where
  "mem_Set m entityID v = (Inr (), AList.update entityID v m)"

definition mem_Delete :: "'v memStore \<Rightarrow> int \<Rightarrow> unit result \<times> 'v memStore" where
  "mem_Delete m entityID = (Inr (), AList.delete entityID m)"

definition mem_Has :: "'v memStore \<Rightarrow> int \<Rightarrow> bool result \<times> 'v memStore" where
  "mem_Has m entityID = (Inr (map_of m entityID \<noteq> None), m)"

definition mem_EntityIDs :: "'v memStore \<Rightarrow> int list result \<times> 'v memStore" where
  "mem_EntityIDs m = (Inr (sort (keys m)), m)"

definition NewMemStore :: "string \<Rightarrow> ('v memStore, 'v) Store" where
  "NewMemStore name = \<lparr>st_Name = name, st_Get = mem_Get, st_Set = mem_Set, st_Delete = mem_Delete,
     st_Has = mem_Has, st_EntityIDs = mem_EntityIDs\<rparr>"

subsection \<open>The JSONB store (json.go)\<close>

text \<open>Its table: entity id (the primary key) to the JSONB data.\<close>

type_synonym jsonTable = "(int \<times> json) list DB"

definition jsonStore_Get :: "(json \<Rightarrow> 'v result) \<Rightarrow> jsonTable \<Rightarrow> int \<Rightarrow> 'v option result \<times> jsonTable" where
  "jsonStore_Get unmarshal d entityID = (case db_call d of
     (Some e, d') \<Rightarrow> (Inl e, d')
   | (None, d') \<Rightarrow> (case map_of (db_tables d') entityID of
        None \<Rightarrow> (Inr None, d')
      | Some raw \<Rightarrow> (case unmarshal raw of Inl e \<Rightarrow> (Inl e, d') | Inr v \<Rightarrow> (Inr (Some v), d'))))"

definition jsonStore_Set :: "('v \<Rightarrow> json result) \<Rightarrow> jsonTable \<Rightarrow> int \<Rightarrow> 'v \<Rightarrow> unit result \<times> jsonTable" where
  "jsonStore_Set marshal d entityID v = (case marshal v of
     Inl e \<Rightarrow> (Inl e, d)
   | Inr raw \<Rightarrow> db_stmt (\<lambda>rows. Inr ((), AList.update entityID raw rows)) d)"

definition jsonStore_Delete :: "jsonTable \<Rightarrow> int \<Rightarrow> unit result \<times> jsonTable" where
  "jsonStore_Delete d entityID = db_stmt (\<lambda>rows. Inr ((), AList.delete entityID rows)) d"

definition jsonStore_Has :: "jsonTable \<Rightarrow> int \<Rightarrow> bool result \<times> jsonTable" where
  "jsonStore_Has d entityID = db_stmt (\<lambda>rows. Inr (map_of rows entityID \<noteq> None, rows)) d"

definition jsonStore_EntityIDs :: "jsonTable \<Rightarrow> int list result \<times> jsonTable" where
  "jsonStore_EntityIDs d = (case db_call d of
     (Some e, d1) \<Rightarrow> (Inl e, d1)
   | (None, d1) \<Rightarrow> (case fetch_rows (sort (keys (db_tables d1))) d1 of
        ((ids, Some e), d2) \<Rightarrow> (Inl e, d2)
      | ((ids, None), d2) \<Rightarrow> (Inr ids, d2)))"

definition NewJSONStore :: "('v \<Rightarrow> json result) \<Rightarrow> (json \<Rightarrow> 'v result) \<Rightarrow> string \<Rightarrow> (jsonTable, 'v) Store" where
  "NewJSONStore marshal unmarshal name = \<lparr>st_Name = name, st_Get = jsonStore_Get unmarshal,
     st_Set = jsonStore_Set marshal, st_Delete = jsonStore_Delete, st_Has = jsonStore_Has,
     st_EntityIDs = jsonStore_EntityIDs\<rparr>"

subsection \<open>The contract\<close>

text \<open>
  \<open>abs\<close> is the component map the store holds. An operation that reports an error leaves it as
  it was; one that succeeds reads or changes exactly the entity it names.
\<close>

locale component_store =
  fixes S :: "('s, 'v) Store"
    and abs :: "'s \<Rightarrow> (int \<rightharpoonup> 'v)"
    and inv :: "'s \<Rightarrow> bool"
    and okv :: "'v \<Rightarrow> bool"
  assumes get_ok: "inv s \<Longrightarrow> st_Get S s k = (Inr r, s') \<Longrightarrow> r = abs s k \<and> abs s' = abs s \<and> inv s'"
    and get_err: "inv s \<Longrightarrow> st_Get S s k = (Inl e, s') \<Longrightarrow> abs s' = abs s \<and> inv s'"
    and set_ok: "inv s \<Longrightarrow> okv v \<Longrightarrow> st_Set S s k v = (Inr u, s') \<Longrightarrow> abs s' = (abs s)(k \<mapsto> v) \<and> inv s'"
    and set_err: "inv s \<Longrightarrow> okv v \<Longrightarrow> st_Set S s k v = (Inl e, s') \<Longrightarrow> abs s' = abs s \<and> inv s'"
    and delete_ok: "inv s \<Longrightarrow> st_Delete S s k = (Inr u, s') \<Longrightarrow> abs s' = (abs s)(k := None) \<and> inv s'"
    and delete_err: "inv s \<Longrightarrow> st_Delete S s k = (Inl e, s') \<Longrightarrow> abs s' = abs s \<and> inv s'"
    and has_ok: "inv s \<Longrightarrow> st_Has S s k = (Inr b, s') \<Longrightarrow> b = (abs s k \<noteq> None) \<and> abs s' = abs s \<and> inv s'"
    and has_err: "inv s \<Longrightarrow> st_Has S s k = (Inl e, s') \<Longrightarrow> abs s' = abs s \<and> inv s'"
    and ids_ok: "inv s \<Longrightarrow> st_EntityIDs S s = (Inr ids, s') \<Longrightarrow>
                 sorted ids \<and> distinct ids \<and> set ids = dom (abs s) \<and> abs s' = abs s \<and> inv s'"
    and ids_err: "inv s \<Longrightarrow> st_EntityIDs S s = (Inl e, s') \<Longrightarrow> abs s' = abs s \<and> inv s'"
    and okv_abs: "inv s \<Longrightarrow> abs s k = Some v \<Longrightarrow> okv v"
begin

lemma get_frame: "inv s \<Longrightarrow> st_Get S s k = (r, s') \<Longrightarrow> abs s' = abs s \<and> inv s'"
  by (cases r) (auto dest: get_ok get_err)

text \<open>What a read returns after a write.\<close>

lemma get_after_set:
  "inv s \<Longrightarrow> okv v \<Longrightarrow> st_Set S s k v = (Inr u, s') \<Longrightarrow> st_Get S s' k' = (Inr r, s'') \<Longrightarrow>
   r = (if k' = k then Some v else abs s k')"
  using set_ok [of s v k u s'] get_ok [of s' k' r s''] by auto

lemma get_after_delete:
  "inv s \<Longrightarrow> st_Delete S s k = (Inr u, s') \<Longrightarrow> st_Get S s' k' = (Inr r, s'') \<Longrightarrow>
   r = (if k' = k then None else abs s k')"
  using delete_ok [of s k u s'] get_ok [of s' k' r s''] by auto

end

lemma sorted_keys_dom:
  "al_ok m \<Longrightarrow> sorted (sort (keys m)) \<and> distinct (sort (keys m)) \<and> set (sort (keys m)) = dom (map_of m)"
  unfolding al_ok_def set_sort set_keys_dom by simp

lemmas mem_defs = NewMemStore_def mem_Get_def mem_Set_def mem_Delete_def mem_Has_def mem_EntityIDs_def

text \<open>The map holds values of the component's type only: \<open>okv\<close> is what that type guarantees.\<close>

definition mem_inv :: "('v \<Rightarrow> bool) \<Rightarrow> 'v memStore \<Rightarrow> bool" where
  "mem_inv okv m \<longleftrightarrow> al_ok m \<and> list_all (\<lambda>(_, v). okv v) m"

lemma mem_inv_iff: "mem_inv okv m \<longleftrightarrow> al_ok m \<and> (\<forall>k v. map_of m k = Some v \<longrightarrow> okv v)"
  by (auto simp: mem_inv_def list_all_map_of)

interpretation mem: component_store "NewMemStore name" map_of "mem_inv okv" okv
proof (unfold_locales, goal_cases)
  case (9 s ids s')
  then show ?case using sorted_keys_dom [of s]
    by (auto simp: mem_defs mem_inv_def simp del: set_sort distinct_sort)
qed (auto simp: mem_defs mem_inv_iff split: if_splits)

definition json_abs :: "(json \<Rightarrow> 'v result) \<Rightarrow> jsonTable \<Rightarrow> int \<Rightarrow> 'v option" where
  "json_abs unmarshal d k = (case map_of (db_tables d) k of None \<Rightarrow> None
     | Some raw \<Rightarrow> (case unmarshal raw of Inl _ \<Rightarrow> None | Inr v \<Rightarrow> Some v))"

definition json_inv :: "(json \<Rightarrow> 'v result) \<Rightarrow> ('v \<Rightarrow> bool) \<Rightarrow> jsonTable \<Rightarrow> bool" where
  "json_inv unmarshal valid d \<longleftrightarrow> al_ok (db_tables d) \<and>
     list_all (\<lambda>(k, raw). case unmarshal raw of Inl _ \<Rightarrow> False | Inr v \<Rightarrow> valid v) (db_tables d)"

lemma json_inv_iff:
  "json_inv u w d \<longleftrightarrow> al_ok (db_tables d) \<and>
     (\<forall>k raw. map_of (db_tables d) k = Some raw \<longrightarrow> (\<exists>v. u raw = Inr v \<and> w v))"
  by (auto simp: json_inv_def list_all_map_of case_result_iff)

lemma json_frame:
  "db_tables d' = db_tables d \<Longrightarrow> json_abs u d' = json_abs u d \<and> json_inv u w d' = json_inv u w d"
  by (simp add: json_abs_def json_inv_def fun_eq_iff)

lemma json_inv_update:
  "json_inv u w d \<Longrightarrow> u raw = Inr v \<Longrightarrow> w v \<Longrightarrow> db_tables d' = AList.update k raw (db_tables d) \<Longrightarrow>
   json_inv u w d' \<and> json_abs u d' = (json_abs u d)(k \<mapsto> v)"
  by (auto simp: json_inv_iff json_abs_def fun_eq_iff)

lemma json_inv_delete:
  "json_inv u w d \<Longrightarrow> db_tables d' = AList.delete k (db_tables d) \<Longrightarrow>
   json_inv u w d' \<and> json_abs u d' = (json_abs u d)(k := None)"
  by (auto simp: json_inv_iff json_abs_def fun_eq_iff)

lemma json_dom: "json_inv u w d \<Longrightarrow> dom (json_abs u d) = dom (map_of (db_tables d))"
  by (auto simp: json_inv_iff json_abs_def dom_def split: option.splits sum.splits) (metis sum.simps(4))

lemma json_inv_lookup:
  "json_inv u w d \<Longrightarrow> map_of (db_tables d) k = Some raw \<Longrightarrow> \<exists>v. u raw = Inr v \<and> w v"
  by (simp add: json_inv_iff)

lemma jsonStore_Get_cases:
  assumes "json_inv u w d" "jsonStore_Get u d k = (r, d')"
  shows "db_tables d' = db_tables d \<and> (\<forall>x. r = Inr x \<longrightarrow> x = json_abs u d k)"
  using assms
  by (auto simp: jsonStore_Get_def json_abs_def split: prod.splits option.splits sum.splits)

lemma jsonStore_EntityIDs_cases:
  assumes "json_inv u w d" "jsonStore_EntityIDs d = (r, d')"
  shows "db_tables d' = db_tables d \<and> (\<forall>ids. r = Inr ids \<longrightarrow> ids = sort (keys (db_tables d)))"
  using assms
  by (auto simp: jsonStore_EntityIDs_def dest: fetch_rows_tables fetch_rows_prefix
      split: prod.splits option.splits)

sublocale json_codec \<subseteq> js: component_store "NewJSONStore marshal unmarshal name"
    "json_abs unmarshal" "json_inv unmarshal valid" valid
proof (unfold_locales, goal_cases)
  case (1 s k r s')
  then show ?case using jsonStore_Get_cases [of unmarshal valid s k "Inr r" s'] json_frame
    by (metis NewJSONStore_def Store.select_convs(2))
next
  case (2 s k e s')
  then show ?case using jsonStore_Get_cases [of unmarshal valid s k "Inl e" s'] json_frame
    by (metis NewJSONStore_def Store.select_convs(2))
next
  case (3 s v k u s')
  then obtain raw where raw: "marshal v = Inr raw" "db_tables s' = AList.update k raw (db_tables s)"
    by (auto simp: NewJSONStore_def jsonStore_Set_def dest!: db_stmt_Inr split: sum.splits)
  with 3 show ?case using json_inv_update codec_roundtrip by metis
next
  case (4 s v k e s')
  then have "db_tables s' = db_tables s"
    by (auto simp: NewJSONStore_def jsonStore_Set_def dest: db_stmt_Inl split: sum.splits)
  with 4 show ?case using json_frame by metis
next
  case (5 s k u s')
  then have "db_tables s' = AList.delete k (db_tables s)"
    by (auto simp: NewJSONStore_def jsonStore_Delete_def dest!: db_stmt_Inr)
  with 5 show ?case using json_inv_delete by metis
next
  case (6 s k e s')
  then have "db_tables s' = db_tables s"
    by (auto simp: NewJSONStore_def jsonStore_Delete_def dest: db_stmt_Inl)
  with 6 show ?case using json_frame by metis
next
  case (7 s k b s')
  then have "b = (map_of (db_tables s) k \<noteq> None) \<and> db_tables s' = db_tables s"
    by (auto simp: NewJSONStore_def jsonStore_Has_def dest!: db_stmt_Inr)
  moreover have "(map_of (db_tables s) k \<noteq> None) = (json_abs unmarshal s k \<noteq> None)"
    using json_dom [OF 7(1)] by blast
  ultimately show ?case using 7 json_frame by metis
next
  case (8 s k e s')
  then have "db_tables s' = db_tables s"
    by (auto simp: NewJSONStore_def jsonStore_Has_def dest: db_stmt_Inl)
  with 8 show ?case using json_frame by metis
next
  case (9 s ids s')
  then have *: "ids = sort (keys (db_tables s))" "db_tables s' = db_tables s"
    using jsonStore_EntityIDs_cases [of unmarshal valid s "Inr ids" s'] by (auto simp: NewJSONStore_def)
  moreover have "distinct (keys (db_tables s))" using 9 by (simp add: json_inv_def al_ok_def)
  moreover have "set (keys (db_tables s)) = dom (json_abs unmarshal s)"
    using json_dom [OF 9(1)] by (simp only: set_keys_dom)
  ultimately show ?case using 9 json_frame by (metis distinct_sort set_sort sorted_sort)
next
  case (10 s e s')
  then show ?case
    using jsonStore_EntityIDs_cases [of unmarshal valid s "Inl e" s'] json_frame
    by (metis NewJSONStore_def Store.select_convs(6))
next
  case (11 s k v)
  then show ?case
    by (auto simp: json_abs_def dest: json_inv_lookup split: option.splits sum.splits)
qed

end
