(* ===== verification/Hooks.thy ===== *)
theory Hooks
  imports Prelude "HOL-Library.Product_Lexorder"
begin

section \<open>Filters and actions: sdk/engine/hooks\<close>

text \<open>
  The synchronous extension points every toolkit routes through. A chain is the slice of
  entries registered under a name, kept sorted by (priority, registration number). The Go
  registry holds functions of any type in one slice; for a call at type \<open>'v\<close> an entry is
  either a filter of that type, which returns or panics, or a value of another type, which the
  call skips. An action also changes the program's state \<open>'s\<close>.
\<close>

record 'f entry =
  e_priority :: int
  e_seq :: int
  e_fn :: 'f

record ('f, 'a) Hooks =
  h_filters :: "string \<Rightarrow> 'f entry list"
  h_actions :: "string \<Rightarrow> 'a entry list"
  h_seq :: int

text \<open>\<open>FilterFn f\<close>: \<open>f v = None\<close> when the filter panics on \<open>v\<close>.\<close>

datatype 'v filter_any = FilterFn "'v \<Rightarrow> 'v option" | FilterOther

datatype outcome = Returned "error option" | Panicked

datatype ('v, 's) action_any = ActionFn "'v \<Rightarrow> 's \<Rightarrow> outcome \<times> 's" | ActionOther

definition hooks_New :: "('f, 'a) Hooks" where
  "hooks_New = \<lparr>h_filters = (\<lambda>_. []), h_actions = (\<lambda>_. []), h_seq = 0\<rparr>"

abbreviation entry_key :: "'f entry \<Rightarrow> int \<times> int" where
  "entry_key e \<equiv> (e_priority e, e_seq e)"

text \<open>\<open>register\<close>: number the entry, append it and sort the slice stably.\<close>

definition hooks_register :: "int \<Rightarrow> (string \<Rightarrow> 'f entry list) \<Rightarrow> string \<Rightarrow> int \<Rightarrow> 'f \<Rightarrow> (string \<Rightarrow> 'f entry list)" where
  "hooks_register seq m name priority fn =
     (let lst = m name @ [\<lparr>e_priority = priority, e_seq = seq, e_fn = fn\<rparr>]
      in m(name := sort_key entry_key lst))"

text \<open>A nil registry or a nil function is ignored.\<close>

definition AddFilter :: "('f, 'a) Hooks option \<Rightarrow> string \<Rightarrow> int \<Rightarrow> 'f option \<Rightarrow> ('f, 'a) Hooks option" where
  "AddFilter h name priority fn = (case (h, fn) of
     (Some hk, Some f) \<Rightarrow>
       (let seq = h_seq hk + 1 in
        Some (hk\<lparr>h_filters := hooks_register seq (h_filters hk) name priority f, h_seq := seq\<rparr>))
   | _ \<Rightarrow> h)"

definition AddAction :: "('f, 'a) Hooks option \<Rightarrow> string \<Rightarrow> int \<Rightarrow> 'a option \<Rightarrow> ('f, 'a) Hooks option" where
  "AddAction h name priority fn = (case (h, fn) of
     (Some hk, Some f) \<Rightarrow>
       (let seq = h_seq hk + 1 in
        Some (hk\<lparr>h_actions := hooks_register seq (h_actions hk) name priority f, h_seq := seq\<rparr>))
   | _ \<Rightarrow> h)"

text \<open>\<open>applyOne\<close>: a panic is recovered and the value passes through unchanged.\<close>

definition applyOne :: "('v \<Rightarrow> 'v option) \<Rightarrow> 'v \<Rightarrow> 'v" where
  "applyOne fn value = (case fn value of None \<Rightarrow> value | Some out \<Rightarrow> out)"

fun apply_chain :: "'v filter_any entry list \<Rightarrow> 'v \<Rightarrow> 'v" where
  "apply_chain [] value = value"
| "apply_chain (e # es) value = (case e_fn e of
     FilterOther \<Rightarrow> apply_chain es value
   | FilterFn fn \<Rightarrow> apply_chain es (applyOne fn value))"

definition ApplyFilters :: "('v filter_any, 'a) Hooks option \<Rightarrow> string \<Rightarrow> 'v \<Rightarrow> 'v" where
  "ApplyFilters h name value =
     (case h of None \<Rightarrow> value | Some hk \<Rightarrow> apply_chain (h_filters hk name) value)"

text \<open>\<open>doOne\<close>: a panic is recovered and does not abort the chain.\<close>

definition doOne :: "('v \<Rightarrow> 's \<Rightarrow> outcome \<times> 's) \<Rightarrow> 'v \<Rightarrow> 's \<Rightarrow> error option \<times> 's" where
  "doOne fn value s = (case fn value s of (Panicked, s') \<Rightarrow> (None, s') | (Returned err, s') \<Rightarrow> (err, s'))"

fun do_chain :: "('v, 's) action_any entry list \<Rightarrow> 'v \<Rightarrow> 's \<Rightarrow> error option \<times> 's" where
  "do_chain [] value s = (None, s)"
| "do_chain (e # es) value s = (case e_fn e of
     ActionOther \<Rightarrow> do_chain es value s
   | ActionFn fn \<Rightarrow> (case doOne fn value s of
         (Some err, s') \<Rightarrow> (Some err, s')
       | (None, s') \<Rightarrow> do_chain es value s'))"

definition DoAction :: "('f, ('v, 's) action_any) Hooks option \<Rightarrow> string \<Rightarrow> 'v \<Rightarrow> 's \<Rightarrow> error option \<times> 's" where
  "DoAction h name value s =
     (case h of None \<Rightarrow> (None, s) | Some hk \<Rightarrow> do_chain (h_actions hk name) value s)"

subsection \<open>Order of a chain\<close>

lemma insort_key_cong:
  "(\<And>y. y \<in> set ys \<Longrightarrow> (f x \<le> f y) = (g x \<le> g y)) \<Longrightarrow> insort_key f x ys = insort_key g x ys"
  by (induction ys) auto

text \<open>Sorting by (priority, number) a list already in order of number is sorting by priority.\<close>

lemma sort_entry_key:
  "sorted_wrt (\<lambda>a b. e_seq a < e_seq b) es \<Longrightarrow> sort_key entry_key es = sort_key e_priority es"
proof (induction es)
  case Nil
  then show ?case by simp
next
  case (Cons e es)
  have "insort_key entry_key e (sort_key e_priority es) = insort_key e_priority e (sort_key e_priority es)"
  proof (rule insort_key_cong)
    fix y assume "y \<in> set (sort_key e_priority es)"
    with Cons.prems have "e_seq e < e_seq y" by simp
    then show "(entry_key e \<le> entry_key y) = (e_priority e \<le> e_priority y)"
      by (auto simp: less_eq_prod_def)
  qed
  with Cons show ?case by simp
qed

lemma inj_entry_key: "sorted_wrt (\<lambda>a b. e_seq a < e_seq b) es \<Longrightarrow> inj_on entry_key (set es)"
proof (induction es)
  case (Cons e es)
  then show ?case by (fastforce simp: inj_on_def)
qed simp

text \<open>
  A registration session: the entries in the order they were registered. The chain the
  registry holds is their stable sort by priority.
\<close>

fun register_all :: "int \<Rightarrow> (string \<Rightarrow> 'f entry list) \<Rightarrow> string \<Rightarrow> (int \<times> 'f) list \<Rightarrow> (string \<Rightarrow> 'f entry list)" where
  "register_all seq m name [] = m"
| "register_all seq m name ((p, fn) # rs) = register_all (seq + 1) (hooks_register (seq + 1) m name p fn) name rs"

fun numbered :: "int \<Rightarrow> (int \<times> 'f) list \<Rightarrow> 'f entry list" where
  "numbered seq [] = []"
| "numbered seq ((p, fn) # rs) = \<lparr>e_priority = p, e_seq = seq + 1, e_fn = fn\<rparr> # numbered (seq + 1) rs"

lemma numbered_seq: "e \<in> set (numbered seq rs) \<Longrightarrow> seq < e_seq e"
  by (induction seq rs rule: numbered.induct) auto

lemma numbered_sorted: "sorted_wrt (\<lambda>a b. e_seq a < e_seq b) (numbered seq rs)"
  by (induction seq rs rule: numbered.induct) (auto dest: numbered_seq)

lemma numbered_fns: "map (\<lambda>e. (e_priority e, e_fn e)) (numbered seq rs) = rs"
  by (induction seq rs rule: numbered.induct) auto

lemma register_all_chain:
  assumes "sorted_wrt (\<lambda>a b. e_seq a < e_seq b) (es @ numbered seq rs)"
    and "m name = sort_key entry_key es"
  shows "register_all seq m name rs name = sort_key entry_key (es @ numbered seq rs)"
  using assms
proof (induction seq m name rs arbitrary: es rule: register_all.induct)
  case (1 seq m name)
  then show ?case by simp
next
  case (2 seq m name p fn rs)
  define e where "e = \<lparr>e_priority = p, e_seq = seq + 1, e_fn = fn\<rparr>"
  have srt: "sorted_wrt (\<lambda>a b. e_seq a < e_seq b) ((es @ [e]) @ numbered (seq + 1) rs)"
    using "2.prems"(1) by (simp add: e_def)
  then have "sorted_wrt (\<lambda>a b. e_seq a < e_seq b) (es @ [e])"
    by (simp add: sorted_wrt_append)
  then have inj: "inj_on entry_key (set (sort_key entry_key es @ [e]))"
    using inj_entry_key [of "es @ [e]"] by simp
  have "sort_key entry_key (sort_key entry_key es @ [e]) = sort_key entry_key (es @ [e])"
    by (rule sort_key_inj_key_eq [OF _ inj]) simp_all
  then have "hooks_register (seq + 1) m name p fn name = sort_key entry_key (es @ [e])"
    by (simp add: hooks_register_def e_def "2.prems"(2))
  from "2.IH" [OF srt this] show ?case by (simp add: e_def)
qed

lemma register_all_stable:
  "register_all 0 (\<lambda>_. []) name rs name = sort_key e_priority (numbered 0 rs)"
proof -
  have "register_all 0 (\<lambda>_. []) name rs name = sort_key entry_key ([] @ numbered 0 rs)"
    by (rule register_all_chain) (simp_all add: numbered_sorted)
  then show ?thesis by (simp add: sort_entry_key numbered_sorted)
qed

lemma register_other: "name' \<noteq> name \<Longrightarrow> hooks_register seq m name p fn name' = m name'"
  by (simp add: hooks_register_def Let_def)

subsection \<open>Running a chain\<close>

lemma apply_chain_append: "apply_chain (xs @ ys) v = apply_chain ys (apply_chain xs v)"
  by (induction xs arbitrary: v) (auto split: filter_any.splits)

lemma do_chain_append:
  "do_chain (xs @ ys) v s = (case do_chain xs v s of (Some e, s') \<Rightarrow> (Some e, s')
                            | (None, s') \<Rightarrow> do_chain ys v s')"
  by (induction xs arbitrary: s) (auto split: action_any.splits option.splits prod.splits)

text \<open>A chain of filters that all keep a predicate keeps it, panics and mistyped entries included.\<close>

lemma apply_chain_preserves:
  assumes "P v" and "\<And>e fn x y. e \<in> set es \<Longrightarrow> e_fn e = FilterFn fn \<Longrightarrow> P x \<Longrightarrow> fn x = Some y \<Longrightarrow> P y"
  shows "P (apply_chain es v)"
  using assms
proof (induction es arbitrary: v)
  case (Cons e es)
  have tail: "P (apply_chain es x)" if "P x" for x
    using that by (rule Cons.IH) (blast intro: Cons.prems(2) list.set_intros(2))
  show ?case
  proof (cases "e_fn e")
    case (FilterFn fn)
    have "P (applyOne fn v)"
      using Cons.prems(1) Cons.prems(2) [of e fn v] FilterFn by (auto simp: applyOne_def split: option.splits)
    then show ?thesis using FilterFn by (simp add: tail)
  next
    case FilterOther
    then show ?thesis using Cons.prems(1) by (simp add: tail)
  qed
qed simp

lemma ApplyFilters_nil [simp]: "ApplyFilters None name v = v"
  by (simp add: ApplyFilters_def)

lemma DoAction_nil [simp]: "DoAction None name v s = (None, s)"
  by (simp add: DoAction_def)

lemma ApplyFilters_New [simp]: "ApplyFilters (Some hooks_New) name v = v"
  by (simp add: ApplyFilters_def hooks_New_def)

lemma DoAction_New [simp]: "DoAction (Some hooks_New) name v s = (None, s)"
  by (simp add: DoAction_def hooks_New_def)

subsection \<open>A session of registrations on a registry\<close>

definition add_filters :: "string \<Rightarrow> (int \<times> 'f) list \<Rightarrow> ('f, 'a) Hooks option \<Rightarrow> ('f, 'a) Hooks option" where
  "add_filters name rs h = fold (\<lambda>(p, fn) h. AddFilter h name p (Some fn)) rs h"

definition add_actions :: "string \<Rightarrow> (int \<times> 'a) list \<Rightarrow> ('f, 'a) Hooks option \<Rightarrow> ('f, 'a) Hooks option" where
  "add_actions name rs h = fold (\<lambda>(p, fn) h. AddAction h name p (Some fn)) rs h"

lemma add_filters_chain:
  "\<exists>hk'. add_filters name rs (Some hk) = Some hk' \<and>
         h_filters hk' = register_all (h_seq hk) (h_filters hk) name rs"
proof (induction rs arbitrary: hk)
  case (Cons r rs)
  obtain p fn where r: "r = (p, fn)" by fastforce
  let ?hk = "hk\<lparr>h_filters := hooks_register (h_seq hk + 1) (h_filters hk) name p fn, h_seq := h_seq hk + 1\<rparr>"
  have "AddFilter (Some hk) name p (Some fn) = Some ?hk" by (simp add: AddFilter_def Let_def)
  then show ?case using Cons.IH [of ?hk] by (simp add: add_filters_def r)
qed (simp add: add_filters_def)

lemma add_actions_chain:
  "\<exists>hk'. add_actions name rs (Some hk) = Some hk' \<and>
         h_actions hk' = register_all (h_seq hk) (h_actions hk) name rs"
proof (induction rs arbitrary: hk)
  case (Cons r rs)
  obtain p fn where r: "r = (p, fn)" by fastforce
  let ?hk = "hk\<lparr>h_actions := hooks_register (h_seq hk + 1) (h_actions hk) name p fn, h_seq := h_seq hk + 1\<rparr>"
  have "AddAction (Some hk) name p (Some fn) = Some ?hk" by (simp add: AddAction_def Let_def)
  then show ?case using Cons.IH [of ?hk] by (simp add: add_actions_def r)
qed (simp add: add_actions_def)

lemma insort_key_map: "insort_key f (g x) (map g xs) = map g (insort_key (\<lambda>x. f (g x)) x xs)"
  by (induction xs) auto

lemma sort_key_map: "sort_key f (map g xs) = map g (sort_key (\<lambda>x. f (g x)) xs)"
  by (induction xs) (auto simp: insort_key_map)

lemma chain_fns:
  "map e_fn (register_all 0 (\<lambda>_. []) name rs name) = map snd (sort_key fst rs)"
proof -
  let ?g = "\<lambda>e. (e_priority e, e_fn e)"
  have "map snd (sort_key fst (map ?g (numbered 0 rs))) = map e_fn (sort_key e_priority (numbered 0 rs))"
    by (simp add: sort_key_map)
  then show ?thesis by (simp add: register_all_stable numbered_fns)
qed

definition filter_step :: "'v filter_any \<Rightarrow> 'v \<Rightarrow> 'v" where
  "filter_step f v = (case f of FilterOther \<Rightarrow> v | FilterFn fn \<Rightarrow> applyOne fn v)"

lemma apply_chain_fold: "apply_chain es v = fold filter_step (map e_fn es) v"
  by (induction es arbitrary: v) (auto simp: filter_step_def split: filter_any.splits)

text \<open>
  C29: whatever filters are registered for a hook, in whatever order, \<open>ApplyFilters\<close> threads the
  value through exactly these filters in ascending priority, filters of equal priority in the
  order of their registration (the sort is stable); a filter of another type and a filter that
  panics pass the value on unchanged and the filters after them still run.
\<close>

theorem ApplyFilters_order:
  "ApplyFilters (add_filters name rs (Some hooks_New)) name v =
   fold filter_step (map snd (sort_key fst rs)) v"
proof -
  obtain hk where "add_filters name rs (Some (hooks_New :: ('a filter_any, 'b) Hooks)) = Some hk"
    "h_filters hk = register_all 0 (\<lambda>_. []) name rs"
    using add_filters_chain [of name rs hooks_New] by (auto simp: hooks_New_def)
  then show ?thesis by (simp add: ApplyFilters_def apply_chain_fold chain_fns)
qed


end
