(* ===== verification/Economy.thy ===== *)
theory Economy
  imports Component_Store Hooks
begin

section \<open>Wallets: gamekit/economy\<close>

text \<open>
  \<open>economy.Service\<close> over any component store and any hook registry. Every operation that
  touches the store returns the Go result and the store's new state. The client lemmas are proved
  in the locale \<open>wallet_store\<close> (a component store of wallets); the interpretation on the in-memory
  store follows.
\<close>

record Wallet =
  w_Balances :: "(string, int) gomap"

record Change =
  c_EntityID :: int
  c_Currency :: string
  c_Amount :: int

abbreviation HookEarn :: string where "HookEarn \<equiv> ''economy.earn''"
abbreviation HookSpend :: string where "HookSpend \<equiv> ''economy.spend''"
abbreviation ErrInsufficient :: error where "ErrInsufficient \<equiv> Sentinel ''economy.ErrInsufficient''"

definition zero_Wallet :: Wallet where
  "zero_Wallet = \<lparr>w_Balances = None\<rparr>"

definition economy_Get :: "('s, Wallet) Store \<Rightarrow> 's \<Rightarrow> int \<Rightarrow> Wallet result \<times> 's" where
  "economy_Get S s entityID = (case st_Get S s entityID of
     (Inl e, s') \<Rightarrow> (Inl e, s')
   | (Inr r, s') \<Rightarrow> (Inr (case r of None \<Rightarrow> zero_Wallet | Some w \<Rightarrow> w), s'))"

definition economy_Balance :: "('s, Wallet) Store \<Rightarrow> 's \<Rightarrow> int \<Rightarrow> string \<Rightarrow> int result \<times> 's" where
  "economy_Balance S s entityID currency = (case economy_Get S s entityID of
     (Inl e, s') \<Rightarrow> (Inl e, s')
   | (Inr w, s') \<Rightarrow> (Inr (gm_get 0 (w_Balances w) currency), s'))"

definition economy_CanAfford :: "('s, Wallet) Store \<Rightarrow> 's \<Rightarrow> int \<Rightarrow> string \<Rightarrow> int \<Rightarrow> bool result \<times> 's" where
  "economy_CanAfford S s entityID currency amount = (case economy_Balance S s entityID currency of
     (Inl e, s') \<Rightarrow> (Inl e, s')
   | (Inr bal, s') \<Rightarrow> (Inr (bal \<ge> amount), s'))"

definition economy_filter :: "(Change filter_any, 'a) Hooks option \<Rightarrow> string \<Rightarrow> Change \<Rightarrow> Change" where
  "economy_filter h hook c = (let c = ApplyFilters h hook c in
     if c_Amount c < 0 then c\<lparr>c_Amount := 0\<rparr> else c)"

text \<open>\<open>w.Balances[currency] = x; return w, s.store.Set(ctx, entityID, w)\<close>.\<close>

definition economy_put :: "('s, Wallet) Store \<Rightarrow> 's \<Rightarrow> int \<Rightarrow> Wallet \<Rightarrow> string \<Rightarrow> int \<Rightarrow> Wallet result \<times> 's" where
  "economy_put S s entityID w currency x = (case gm_set (w_Balances w) currency x of
     Inl e \<Rightarrow> (Inl e, s)
   | Inr b \<Rightarrow> (let w' = w\<lparr>w_Balances := b\<rparr> in
       case st_Set S s entityID w' of (Inl e, s') \<Rightarrow> (Inl e, s') | (Inr _, s') \<Rightarrow> (Inr w', s')))"

definition economy_Earn ::
  "('s, Wallet) Store \<Rightarrow> (Change filter_any, 'a) Hooks option \<Rightarrow> 's \<Rightarrow> int \<Rightarrow> string \<Rightarrow> int \<Rightarrow> Wallet result \<times> 's" where
  "economy_Earn S h s entityID currency amount =
     (let c = economy_filter h HookEarn \<lparr>c_EntityID = entityID, c_Currency = currency, c_Amount = amount\<rparr> in
      case economy_Get S s entityID of
        (Inl e, s1) \<Rightarrow> (Inl e, s1)
      | (Inr w, s1) \<Rightarrow>
          if c_Amount c \<le> 0 then (Inr w, s1)
          else (let w = w\<lparr>w_Balances := gm_alloc (w_Balances w)\<rparr> in
                economy_put S s1 entityID w (c_Currency c)
                  (wrap64 (gm_get 0 (w_Balances w) (c_Currency c) + c_Amount c))))"

definition economy_Spend ::
  "('s, Wallet) Store \<Rightarrow> (Change filter_any, 'a) Hooks option \<Rightarrow> 's \<Rightarrow> int \<Rightarrow> string \<Rightarrow> int \<Rightarrow> Wallet result \<times> 's" where
  "economy_Spend S h s entityID currency amount =
     (let c = economy_filter h HookSpend \<lparr>c_EntityID = entityID, c_Currency = currency, c_Amount = amount\<rparr> in
      case economy_Get S s entityID of
        (Inl e, s1) \<Rightarrow> (Inl e, s1)
      | (Inr w, s1) \<Rightarrow>
          if c_Amount c \<le> 0 then (Inr w, s1)
          else if gm_get 0 (w_Balances w) (c_Currency c) < c_Amount c then (Inl ErrInsufficient, s1)
          else economy_put S s1 entityID w (c_Currency c)
                 (wrap64 (gm_get 0 (w_Balances w) (c_Currency c) - c_Amount c)))"

subsection \<open>Balances of a component map\<close>

definition bal :: "(int \<rightharpoonup> Wallet) \<Rightarrow> int \<Rightarrow> string \<Rightarrow> int" where
  "bal m k cur = (case m k of None \<Rightarrow> 0 | Some w \<Rightarrow> gm_get 0 (w_Balances w) cur)"

lemma bal_upd [simp]:
  "bal (m(k \<mapsto> w)) k' cur = (if k' = k then gm_get 0 (w_Balances w) cur else bal m k' cur)"
  by (simp add: bal_def)

lemma economy_filter_nonneg: "0 \<le> c_Amount (economy_filter h hook c)"
  by (simp add: economy_filter_def Let_def)

lemma economy_filter_nil [simp]:
  "0 \<le> c_Amount c \<Longrightarrow> economy_filter None hook c = c"
  by (simp add: economy_filter_def)

text \<open>
  A component store of wallets: every balance of an accepted wallet is an \<open>int64\<close>, and the
  accepted wallets are closed under allocating the map and under writing an \<open>int64\<close>.
\<close>

locale wallet_store = component_store S abs inv okv
  for S :: "('s, Wallet) Store" and abs :: "'s \<Rightarrow> (int \<rightharpoonup> Wallet)"
    and inv :: "'s \<Rightarrow> bool" and okv :: "Wallet \<Rightarrow> bool" +
  assumes okv_zero: "okv zero_Wallet"
    and okv_in64: "okv w \<Longrightarrow> in64 (gm_get 0 (w_Balances w) cur)"
    and okv_alloc: "okv w \<Longrightarrow> okv (w\<lparr>w_Balances := gm_alloc (w_Balances w)\<rparr>)"
    and okv_balance: "okv w \<Longrightarrow> in64 x \<Longrightarrow> w_Balances w = Some f \<Longrightarrow>
                      okv (w\<lparr>w_Balances := Some (f(cur \<mapsto> x))\<rparr>)"
begin

lemma economy_Get_cases:
  assumes "inv s" "economy_Get S s k = (r, s')"
  shows "inv s'" "abs s' = abs s"
    "r = Inr w \<Longrightarrow> okv w"
    "r = Inr w \<Longrightarrow> gm_get 0 (w_Balances w) cur = bal (abs s) k cur"
proof -
  obtain g s1 where g: "st_Get S s k = (g, s1)" by fastforce
  then have r: "r = (case g of Inl e \<Rightarrow> Inl e | Inr v \<Rightarrow> Inr (case v of None \<Rightarrow> zero_Wallet | Some w \<Rightarrow> w))"
    and s1: "s' = s1"
    using assms(2) by (auto simp: economy_Get_def split: sum.splits)
  show "inv s'" "abs s' = abs s" using get_frame [OF assms(1) g] s1 by auto
  assume rw: "r = Inr w"
  with r obtain v where v: "g = Inr v" "w = (case v of None \<Rightarrow> zero_Wallet | Some w \<Rightarrow> w)"
    by (auto split: sum.splits)
  then have "v = abs s k" using get_ok [OF assms(1)] g by blast
  with v show "okv w" "gm_get 0 (w_Balances w) cur = bal (abs s) k cur"
    using okv_zero okv_abs [OF assms(1)]
    by (auto simp: bal_def zero_Wallet_def split: option.splits)
qed

text \<open>Writing a balance and storing the wallet, the tail both operations share.\<close>

lemma economy_put_cases:
  assumes "inv s" "okv w" "in64 x" "w_Balances w = Some f" "economy_put S s k w cur x = (r, s')"
  shows "inv s'" "r = Inl e \<Longrightarrow> abs s' = abs s"
    "r = Inr w' \<Longrightarrow> abs s' = (abs s)(k \<mapsto> w') \<and> w_Balances w' = Some (f(cur \<mapsto> x))"
proof -
  let ?w = "w\<lparr>w_Balances := Some (f(cur \<mapsto> x))\<rparr>"
  obtain g s1 where g: "st_Set S s k ?w = (g, s1)" by fastforce
  have ok: "okv ?w" using okv_balance [OF assms(2,3,4)] .
  have rs: "s' = s1" "r = (case g of Inl e \<Rightarrow> Inl e | Inr _ \<Rightarrow> Inr ?w)"
    using assms(4,5) g by (auto simp: economy_put_def Let_def split: sum.splits)
  show "inv s'" using set_ok [OF assms(1) ok] set_err [OF assms(1) ok] g rs by (cases g) auto
  show "r = Inl e \<Longrightarrow> abs s' = abs s" using set_err [OF assms(1) ok] g rs by (cases g) auto
  show "r = Inr w' \<Longrightarrow> abs s' = (abs s)(k \<mapsto> w') \<and> w_Balances w' = Some (f(cur \<mapsto> x))"
    using set_ok [OF assms(1) ok] g rs by (cases g) auto
qed

text \<open>The balances after a successful write of \<open>x\<close>.\<close>

lemma economy_put_bal:
  assumes "inv s" "okv w" "in64 x" "w_Balances w = Some f" "economy_put S s k w cur x = (r, s')"
    and bal: "\<And>c. gm_get 0 (Some f) c = bal (abs s) k c"
  shows "inv s' \<and> (r = Inl e \<longrightarrow> abs s' = abs s) \<and> (r = Inr w' \<longrightarrow> bal (abs s') k' cur' =
           (if k' = k \<and> cur' = cur then x else bal (abs s) k' cur'))"
  using economy_put_cases [OF assms(1-5)] by (auto simp: bal)

text \<open>
  Earn: the filtered amount is credited to the filtered currency of the entity named in the
  call and nothing else changes; on an error nothing changes at all.
\<close>

lemma Earn_cases:
  assumes inv: "inv s" and run: "economy_Earn S h s k cur amt = (r, s')"
    and c: "c = economy_filter h HookEarn \<lparr>c_EntityID = k, c_Currency = cur, c_Amount = amt\<rparr>"
  shows "inv s' \<and> (r = Inl e \<longrightarrow> abs s' = abs s) \<and> (r = Inr w \<longrightarrow> bal (abs s') k' cur' =
       (if k' = k \<and> cur' = c_Currency c \<and> 0 < c_Amount c
        then wrap64 (bal (abs s) k (c_Currency c) + c_Amount c) else bal (abs s) k' cur'))"
proof -
  obtain g s1 where g: "economy_Get S s k = (g, s1)" by fastforce
  note G = economy_Get_cases [OF inv g]
  show ?thesis
  proof (cases "\<exists>w0. g = Inr w0 \<and> 0 < c_Amount c")
    case False
    then have "s' = s1" using run g c
      by (cases g) (auto simp: economy_Earn_def Let_def)
    with False g G(1,2) show ?thesis using run c
      by (cases g) (auto simp: economy_Earn_def Let_def)
  next
    case True
    then obtain w0 where w0: "g = Inr w0" and pos: "0 < c_Amount c" by blast
    obtain f where f: "gm_alloc (w_Balances w0) = Some f" using gm_alloc_Some by metis
    have bf: "gm_get 0 (Some f) x = bal (abs s) k x" for x
      using G(4) [OF w0] f gm_get_alloc by metis
    let ?x = "wrap64 (bal (abs s) k (c_Currency c) + c_Amount c)"
    have "economy_put S s1 k (w0\<lparr>w_Balances := Some f\<rparr>) (c_Currency c) ?x = (r, s')"
      using run g w0 pos by (simp add: economy_Earn_def Let_def c [symmetric] f bf)
    from economy_put_bal [OF G(1) _ _ _ this, of f] okv_alloc [OF G(3) [OF w0]] f bf G(2) pos
    show ?thesis by simp
  qed
qed

text \<open>
  Spend: refused exactly when the balance is below the filtered amount, and then nothing changes;
  otherwise the amount is debited. It never panics on a nil map, since a positive balance means
  an allocated map, and a balance that was not negative stays so.
\<close>

lemma Spend_cases:
  assumes inv: "inv s" and run: "economy_Spend S h s k cur amt = (r, s')"
    and c: "c = economy_filter h HookSpend \<lparr>c_EntityID = k, c_Currency = cur, c_Amount = amt\<rparr>"
  shows "inv s' \<and> (r = Inl e \<longrightarrow> abs s' = abs s) \<and> (r = Inr w \<longrightarrow> bal (abs s') k' cur' =
       (if k' = k \<and> cur' = c_Currency c then bal (abs s) k (c_Currency c) - c_Amount c
        else bal (abs s) k' cur') \<and> (0 < c_Amount c \<longrightarrow> c_Amount c \<le> bal (abs s) k (c_Currency c)))"
proof -
  obtain g s1 where g: "economy_Get S s k = (g, s1)" by fastforce
  note G = economy_Get_cases [OF inv g]
  have nn: "0 \<le> c_Amount c" by (simp add: c economy_filter_nonneg)
  show ?thesis
  proof (cases "\<exists>w0. g = Inr w0 \<and> 0 < c_Amount c \<and> c_Amount c \<le> bal (abs s) k (c_Currency c)")
    case False
    then have "s' = s1" "(\<exists>e. r = Inl e) \<or> c_Amount c = 0" using run g G(4) nn
      by (cases g; auto simp: economy_Spend_def Let_def c [symmetric] split: if_splits)+
    with False g G(1,2) show ?thesis by auto
  next
    case True
    then obtain w0 where w0: "g = Inr w0" and pos: "0 < c_Amount c"
      and le: "c_Amount c \<le> bal (abs s) k (c_Currency c)" by blast
    from pos le G(4) [OF w0, of "c_Currency c"] obtain f where f: "w_Balances w0 = Some f"
      by (cases "w_Balances w0") auto
    have bf: "gm_get 0 (Some f) x = bal (abs s) k x" for x using G(4) [OF w0] f by metis
    let ?x = "bal (abs s) k (c_Currency c) - c_Amount c"
    have x: "in64 ?x" using okv_in64 [OF G(3) [OF w0], of "c_Currency c"] pos le
      by (simp add: f bf in64_def)
    have "economy_put S s1 k w0 (c_Currency c) ?x = (r, s')"
      using run g w0 pos le by (simp add: economy_Spend_def Let_def c [symmetric] f bf wrap64_id [OF x])
    from economy_put_bal [OF G(1) G(3) [OF w0] x f this] bf G(2) pos le show ?thesis by simp
  qed
qed

lemma Spend_total:
  assumes inv: "inv s" and run: "economy_Spend S h s k cur amt = (r, s')"
    and get: "economy_Get S s k = (Inr w0, s1)"
    and c: "c = economy_filter h HookSpend \<lparr>c_EntityID = k, c_Currency = cur, c_Amount = amt\<rparr>"
    and set: "\<And>w. \<exists>s2. st_Set S s1 k w = (Inr (), s2)"
  shows "r = Inl ErrInsufficient \<longleftrightarrow> bal (abs s) k (c_Currency c) < c_Amount c \<and> 0 < c_Amount c"
    and "r = Inl ErrInsufficient \<or> (\<exists>w. r = Inr w)"
proof -
  note G = economy_Get_cases [OF inv get]
  have b: "gm_get 0 (w_Balances w0) x = bal (abs s) k x" for x using G(4) by blast
  have put: "\<exists>w s2. economy_put S s1 k w0 (c_Currency c) x = (Inr w, s2)"
    if "0 < c_Amount c" "c_Amount c \<le> bal (abs s) k (c_Currency c)" for x
  proof -
    from that b [of "c_Currency c"] obtain f where f: "w_Balances w0 = Some f"
      by (cases "w_Balances w0") auto
    then show ?thesis using set [of "w0\<lparr>w_Balances := Some (f(c_Currency c \<mapsto> x))\<rparr>"]
      by (auto simp: economy_put_def Let_def)
  qed
  have "r = (if bal (abs s) k (c_Currency c) < c_Amount c \<and> 0 < c_Amount c then Inl ErrInsufficient else r)
      \<and> (\<not> (bal (abs s) k (c_Currency c) < c_Amount c \<and> 0 < c_Amount c) \<longrightarrow> (\<exists>w. r = Inr w))"
    using run get put [of "wrap64 (bal (abs s) k (c_Currency c) - c_Amount c)"]
    by (auto simp: economy_Spend_def Let_def c [symmetric] b split: if_splits)
  then show "r = Inl ErrInsufficient \<longleftrightarrow> bal (abs s) k (c_Currency c) < c_Amount c \<and> 0 < c_Amount c"
    "r = Inl ErrInsufficient \<or> (\<exists>w. r = Inr w)"
    by (auto split: if_splits)
qed

end

text \<open>What Go's type of a wallet guarantees, and the interpretation on the in-memory store.\<close>

definition wallet_ok :: "Wallet \<Rightarrow> bool" where
  "wallet_ok w \<longleftrightarrow> (\<forall>cur. in64 (gm_get 0 (w_Balances w) cur))"

interpretation mw: wallet_store "NewMemStore name" map_of "mem_inv wallet_ok" wallet_ok
  by unfold_locales (auto simp: wallet_ok_def zero_Wallet_def in64_def)

lemma mem_economy_Get: "\<exists>w. economy_Get (NewMemStore nm) s k = (Inr w, s)"
  by (simp add: economy_Get_def mem_defs)

lemma mem_Set_total: "\<exists>s2. st_Set (NewMemStore nm) s k w = (Inr (), s2)"
  by (simp add: mem_defs)

text \<open>
  C18: spending on the in-memory store, for every registry of hook filters. With \<open>c\<close> the change
  after the spend filters: the call is refused with \<open>ErrInsufficient\<close> exactly when the amount is
  positive and exceeds the balance, and then every balance is as before; otherwise it succeeds,
  exactly that amount leaves exactly that balance, no other balance of any entity changes, and no
  balance becomes negative by it.
\<close>

theorem economy_Spend_correct:
  assumes "mem_inv wallet_ok s"
    and "economy_Spend (NewMemStore nm) h s k cur amt = (r, s')"
    and "c = economy_filter h HookSpend \<lparr>c_EntityID = k, c_Currency = cur, c_Amount = amt\<rparr>"
  shows "(if 0 < c_Amount c \<and> bal (map_of s) k (c_Currency c) < c_Amount c
          then r = Inl ErrInsufficient \<and> map_of s' = map_of s
          else is_ok r \<and> (\<forall>k' cur'. bal (map_of s') k' cur' =
            (if k' = k \<and> cur' = c_Currency c then bal (map_of s) k cur' - c_Amount c
             else bal (map_of s) k' cur')))
       \<and> (\<forall>k' cur'. 0 \<le> bal (map_of s) k' cur' \<longrightarrow> 0 \<le> bal (map_of s') k' cur')
       \<and> mem_inv wallet_ok s'"
proof -
  obtain w0 where g: "economy_Get (NewMemStore nm) s k = (Inr w0, s)" using mem_economy_Get by metis
  have nn: "0 \<le> c_Amount c" by (simp add: assms(3) economy_filter_nonneg)
  note S = mw.Spend_cases [OF assms] mw.Spend_total [OF assms(1,2) g assms(3) mem_Set_total]
  have "if 0 < c_Amount c \<and> bal (map_of s) k (c_Currency c) < c_Amount c
        then r = Inl ErrInsufficient \<and> map_of s' = map_of s
        else is_ok r \<and> (\<forall>k' cur'. bal (map_of s') k' cur' =
            (if k' = k \<and> cur' = c_Currency c then bal (map_of s) k cur' - c_Amount c
             else bal (map_of s) k' cur'))"
    using S(1) S(2,3) by (cases r) (simp_all, auto)
  moreover from this nn have "\<forall>k' cur'. 0 \<le> bal (map_of s) k' cur' \<longrightarrow> 0 \<le> bal (map_of s') k' cur'"
    by (auto split: if_splits)
  moreover have "mem_inv wallet_ok s'" using S(1) by blast
  ultimately show ?thesis by blast
qed

theorem economy_Spend_correct_witness:
  "economy_Spend (NewMemStore ''wallet'') (None :: (Change filter_any, unit) Hooks option)
     [(1, \<lparr>w_Balances = Some [''gold'' \<mapsto> 100]\<rparr>)] 1 ''gold'' 150 = 
     (Inl ErrInsufficient, [(1, \<lparr>w_Balances = Some [''gold'' \<mapsto> 100]\<rparr>)]) \<and>
   bal (map_of (snd (economy_Spend (NewMemStore ''wallet'') (None :: (Change filter_any, unit) Hooks option)
     [(1, \<lparr>w_Balances = Some [''gold'' \<mapsto> 100]\<rparr>)] 1 ''gold'' 30))) 1 ''gold'' = 70"
proof -
  let ?s = "[(1::int, \<lparr>w_Balances = Some [''gold'' \<mapsto> (100::int)]\<rparr>)]"
  have inv: "mem_inv wallet_ok ?s"
    by (auto simp: mem_inv_def al_ok_def wallet_ok_def in64_def gm_get_def)
  have b: "bal (map_of ?s) 1 ''gold'' = 100" by (simp add: bal_def)
  obtain r s' where e: "economy_Spend (NewMemStore ''wallet'') (None :: (Change filter_any, unit) Hooks option)
     ?s 1 ''gold'' 30 = (r, s')" by fastforce
  from economy_Spend_correct [OF inv e refl] b
  have "bal (map_of s') 1 ''gold'' = 70" by simp
  then show ?thesis using e
    by (simp add: economy_Spend_def economy_Get_def mem_defs)
qed

text \<open>
  C19: earning on the in-memory store always succeeds; the filtered amount is added to the filtered
  currency of the entity with \<open>int64\<close> wrap-around, and no other balance changes. As long as the sum
  fits an \<open>int64\<close> the balance grows by exactly the amount.
\<close>

theorem economy_Earn_correct:
  assumes "mem_inv wallet_ok s"
    and "economy_Earn (NewMemStore nm) h s k cur amt = (r, s')"
    and "c = economy_filter h HookEarn \<lparr>c_EntityID = k, c_Currency = cur, c_Amount = amt\<rparr>"
  shows "is_ok r \<and> mem_inv wallet_ok s'
       \<and> (\<forall>k' cur'. bal (map_of s') k' cur' =
           (if k' = k \<and> cur' = c_Currency c then wrap64 (bal (map_of s) k cur' + c_Amount c)
            else bal (map_of s) k' cur'))
       \<and> (in64 (bal (map_of s) k (c_Currency c) + c_Amount c) \<longrightarrow>
          bal (map_of s') k (c_Currency c) = bal (map_of s) k (c_Currency c) + c_Amount c)"
proof -
  have nn: "0 \<le> c_Amount c" by (simp add: assms(3) economy_filter_nonneg)
  note E = mw.Earn_cases [OF assms]
  obtain w0 where g: "economy_Get (NewMemStore nm) s k = (Inr w0, s)" using mem_economy_Get by metis
  obtain f where "gm_alloc (w_Balances w0) = Some f" using gm_alloc_Some by metis
  then have ok: "is_ok r" using assms(2,3) g
    by (auto simp: economy_Earn_def economy_put_def Let_def mem_defs split: if_splits)
  then obtain w where r: "r = Inr w" by (rule is_okE)
  have "wrap64 (bal (map_of s) k x) = bal (map_of s) k x" for x
    using mw.economy_Get_cases(3,4) [OF assms(1) g refl] mw.okv_in64 wrap64_id by metis
  with E r nn have *: "bal (map_of s') k' cur' =
       (if k' = k \<and> cur' = c_Currency c then wrap64 (bal (map_of s) k cur' + c_Amount c)
        else bal (map_of s) k' cur')" for k' cur'
    by (cases "c_Amount c = 0") auto
  then show ?thesis using ok E r by (simp add: wrap64_id)
qed

theorem economy_Earn_correct_witness:
  "bal (map_of (snd (economy_Earn (NewMemStore ''wallet'') (None :: (Change filter_any, unit) Hooks option)
     [] 7 ''wood'' 25))) 7 ''wood'' = 25"
proof -
  obtain r s' where e: "economy_Earn (NewMemStore ''wallet'') (None :: (Change filter_any, unit) Hooks option)
     [] 7 ''wood'' 25 = (r, s')" by fastforce
  have "mem_inv wallet_ok []" by (simp add: mem_inv_def)
  from economy_Earn_correct [OF this e refl] show ?thesis
    by (simp add: e bal_def in64_def wrap64_def)
qed

end
