(* ===== verification/Inventory_Kit.thy ===== *)
theory Inventory_Kit
  imports Component_Store Hooks
begin

section \<open>Item stacks: gamekit/inventory\<close>

text \<open>
  \<open>inventory.Service\<close> over any component store. The loops over the stack list are the functions
  \<open>add_stack\<close>, \<open>count_stack\<close> and \<open>remove_stack\<close>; the handlers compose them with the store as the
  code does. The client lemmas live in the locale \<open>inventory_store\<close>, interpreted on the
  in-memory store and on the JSONB store with the component's own JSON codec.
\<close>

record Item =
  it_ItemID :: string
  it_Quantity :: int

record Inventory =
  inv_Items :: "Item list"

abbreviation HookAddItem :: string where "HookAddItem \<equiv> ''inventory.additem''"

definition zero_Inventory :: Inventory where
  "zero_Inventory = \<lparr>inv_Items = []\<rparr>"

definition inventory_Get :: "('s, Inventory) Store \<Rightarrow> 's \<Rightarrow> int \<Rightarrow> Inventory result \<times> 's" where
  "inventory_Get S s entityID = (case st_Get S s entityID of
     (Inl e, s') \<Rightarrow> (Inl e, s')
   | (Inr r, s') \<Rightarrow> (Inr (case r of None \<Rightarrow> zero_Inventory | Some v \<Rightarrow> v), s'))"

fun add_stack :: "Item list \<Rightarrow> Item \<Rightarrow> Item list" where
  "add_stack [] item = [item]"
| "add_stack (x # xs) item =
     (if it_ItemID x = it_ItemID item
      then x\<lparr>it_Quantity := wrap32 (it_Quantity x + it_Quantity item)\<rparr> # xs
      else x # add_stack xs item)"

fun count_stack :: "Item list \<Rightarrow> string \<Rightarrow> int" where
  "count_stack [] itemID = 0"
| "count_stack (x # xs) itemID = (if it_ItemID x = itemID then it_Quantity x else count_stack xs itemID)"

text \<open>\<open>None\<close> is the return of false without a write.\<close>

fun remove_stack :: "Item list \<Rightarrow> string \<Rightarrow> int \<Rightarrow> Item list option" where
  "remove_stack [] itemID qty = None"
| "remove_stack (x # xs) itemID qty =
     (if it_ItemID x = itemID
      then if it_Quantity x < qty then None
           else (let q = wrap32 (it_Quantity x - qty) in
                 if q = 0 then Some xs else Some (x\<lparr>it_Quantity := q\<rparr> # xs))
      else map_option (Cons x) (remove_stack xs itemID qty))"

definition inventory_AddItem ::
  "('s, Inventory) Store \<Rightarrow> (Item filter_any, 'a) Hooks option \<Rightarrow> 's \<Rightarrow> int \<Rightarrow> Item \<Rightarrow> unit result \<times> 's" where
  "inventory_AddItem S h s entityID item =
     (let item = ApplyFilters h HookAddItem item in
      if it_Quantity item \<le> 0 then (Inr (), s)
      else case inventory_Get S s entityID of
        (Inl e, s1) \<Rightarrow> (Inl e, s1)
      | (Inr v, s1) \<Rightarrow> st_Set S s1 entityID (v\<lparr>inv_Items := add_stack (inv_Items v) item\<rparr>))"

definition inventory_Count :: "('s, Inventory) Store \<Rightarrow> 's \<Rightarrow> int \<Rightarrow> string \<Rightarrow> int result \<times> 's" where
  "inventory_Count S s entityID itemID = (case inventory_Get S s entityID of
     (Inl e, s1) \<Rightarrow> (Inl e, s1)
   | (Inr v, s1) \<Rightarrow> (Inr (count_stack (inv_Items v) itemID), s1))"

definition inventory_RemoveItem ::
  "('s, Inventory) Store \<Rightarrow> 's \<Rightarrow> int \<Rightarrow> string \<Rightarrow> int \<Rightarrow> bool result \<times> 's" where
  "inventory_RemoveItem S s entityID itemID qty =
     (if qty \<le> 0 then (Inr True, s)
      else case inventory_Get S s entityID of
        (Inl e, s1) \<Rightarrow> (Inl e, s1)
      | (Inr v, s1) \<Rightarrow> (case remove_stack (inv_Items v) itemID qty of
           None \<Rightarrow> (Inr False, s1)
         | Some xs \<Rightarrow> (case st_Set S s1 entityID (v\<lparr>inv_Items := xs\<rparr>) of
              (Inl e, s2) \<Rightarrow> (Inl e, s2)
            | (Inr _, s2) \<Rightarrow> (Inr True, s2))))"

subsection \<open>The stack list\<close>

text \<open>Well-formed stacks: one stack per item, every quantity positive and an \<open>int32\<close>.\<close>

definition stacks_ok :: "Item list \<Rightarrow> bool" where
  "stacks_ok xs \<longleftrightarrow> distinct (map it_ItemID xs) \<and> list_all (\<lambda>x. 0 < it_Quantity x \<and> in32 (it_Quantity x)) xs"

lemma stacks_ok_Nil [simp]: "stacks_ok []"
  by (simp add: stacks_ok_def)

lemma stacks_ok_Cons [simp]:
  "stacks_ok (x # xs) \<longleftrightarrow> it_ItemID x \<notin> it_ItemID ` set xs \<and> 0 < it_Quantity x \<and> in32 (it_Quantity x) \<and> stacks_ok xs"
  by (auto simp: stacks_ok_def)

lemma count_stack_notin: "i \<notin> it_ItemID ` set xs \<Longrightarrow> count_stack xs i = 0"
  by (induction xs) auto

lemma count_stack_nonneg: "stacks_ok xs \<Longrightarrow> 0 \<le> count_stack xs i \<and> in32 (count_stack xs i)"
  by (induction xs) (auto simp: in32_def)

lemma count_stack_pos_iff: "stacks_ok xs \<Longrightarrow> 0 < count_stack xs i \<longleftrightarrow> i \<in> it_ItemID ` set xs"
  by (induction xs) auto

lemma count_add_stack:
  "in32 (it_Quantity item) \<Longrightarrow>
   count_stack (add_stack xs item) i =
     (if i = it_ItemID item then wrap32 (count_stack xs i + it_Quantity item) else count_stack xs i)"
  by (induction xs) (auto simp: wrap32_id)

lemma add_stack_ids: "it_ItemID ` set (add_stack xs item) = insert (it_ItemID item) (it_ItemID ` set xs)"
  by (induction xs) auto

lemma add_stack_ok:
  assumes "stacks_ok xs" "0 < it_Quantity item" "in32 (count_stack xs (it_ItemID item) + it_Quantity item)"
  shows "stacks_ok (add_stack xs item)"
  using assms
proof (induction xs)
  case (Cons x xs)
  then show ?case by (auto simp: wrap32_id add_stack_ids)
qed simp

lemma remove_stack_None:
  "stacks_ok xs \<Longrightarrow> 0 < qty \<Longrightarrow> remove_stack xs i qty = None \<longleftrightarrow> count_stack xs i < qty"
  by (induction xs) (auto simp: Let_def)

lemma in32_diff: "in32 q \<Longrightarrow> 0 < d \<Longrightarrow> d \<le> q \<Longrightarrow> wrap32 (q - d) = q - d"
  by (simp add: wrap32_id in32_def)

lemma remove_stack_Some:
  assumes "stacks_ok xs" "0 < qty" "remove_stack xs i qty = Some ys"
  shows "stacks_ok ys \<and> it_ItemID ` set ys \<subseteq> it_ItemID ` set xs \<and>
         count_stack ys j = count_stack xs j - (if j = i then qty else 0)"
  using assms
proof (induction xs arbitrary: ys)
  case (Cons x xs)
  show ?case
  proof (cases "it_ItemID x = i")
    case True
    with Cons.prems show ?thesis
      by (auto simp: Let_def in32_diff count_stack_notin in32_def split: if_splits)
  next
    case False
    with Cons.prems obtain zs where zs: "remove_stack xs i qty = Some zs" "ys = x # zs" by auto
    with Cons.IH [OF _ Cons.prems(2) zs(1)] Cons.prems False show ?thesis by auto
  qed
qed simp

text \<open>Adding a stack and removing it again gives back the counts.\<close>

lemma add_remove_stack:
  assumes "stacks_ok xs" "0 < q" "in32 (count_stack xs i + q)"
  shows "\<exists>ys. remove_stack (add_stack xs \<lparr>it_ItemID = i, it_Quantity = q\<rparr>) i q = Some ys \<and>
              (\<forall>j. count_stack ys j = count_stack xs j)"
proof -
  let ?a = "add_stack xs \<lparr>it_ItemID = i, it_Quantity = q\<rparr>"
  have q: "in32 q" using assms count_stack_nonneg [OF assms(1), of i] by (auto simp: in32_def)
  have ok: "stacks_ok ?a" using add_stack_ok [of xs "\<lparr>it_ItemID = i, it_Quantity = q\<rparr>"] assms by simp
  have c: "count_stack ?a j = count_stack xs j + (if j = i then q else 0)" for j
    using q assms(3) by (auto simp: count_add_stack wrap32_id)
  from remove_stack_None [OF ok assms(2), of i] c [of i] count_stack_nonneg [OF assms(1), of i]
  obtain ys where "remove_stack ?a i q = Some ys" by (cases "remove_stack ?a i q") auto
  with remove_stack_Some [OF ok assms(2) this] c show ?thesis by auto
qed

subsection \<open>The service over a store\<close>

text \<open>What Go's types guarantee of a stored inventory: every quantity is an \<open>int32\<close>.\<close>

definition inventory_typ :: "Inventory \<Rightarrow> bool" where
  "inventory_typ v \<longleftrightarrow> list_all (\<lambda>x. in32 (it_Quantity x)) (inv_Items v)"

definition items_of :: "(int \<rightharpoonup> Inventory) \<Rightarrow> int \<Rightarrow> Item list" where
  "items_of m k = (case m k of None \<Rightarrow> [] | Some v \<Rightarrow> inv_Items v)"

lemma items_of_upd [simp]: "items_of (m(k \<mapsto> v)) k' = (if k' = k then inv_Items v else items_of m k')"
  by (simp add: items_of_def)

lemma add_stack_typ:
  "list_all (\<lambda>x. in32 (it_Quantity x)) xs \<Longrightarrow> in32 (it_Quantity item) \<Longrightarrow>
   list_all (\<lambda>x. in32 (it_Quantity x)) (add_stack xs item)"
  by (induction xs) auto

lemma remove_stack_typ:
  "list_all (\<lambda>x. in32 (it_Quantity x)) xs \<Longrightarrow> remove_stack xs i q = Some ys \<Longrightarrow>
   list_all (\<lambda>x. in32 (it_Quantity x)) ys"
  by (induction xs arbitrary: ys) (auto simp: Let_def split: if_splits)

locale inventory_store = component_store S abs inv inventory_typ
  for S :: "('s, Inventory) Store" and abs :: "'s \<Rightarrow> (int \<rightharpoonup> Inventory)" and inv :: "'s \<Rightarrow> bool"
begin

lemma inventory_Get_cases:
  assumes "inv s" "inventory_Get S s k = (r, s')"
  shows "inv s'" "abs s' = abs s" "r = Inr v \<Longrightarrow> inventory_typ v \<and> inv_Items v = items_of (abs s) k"
proof -
  obtain g s1 where g: "st_Get S s k = (g, s1)" by fastforce
  then have s1: "s' = s1"
    and r: "r = (case g of Inl e \<Rightarrow> Inl e | Inr x \<Rightarrow> Inr (case x of None \<Rightarrow> zero_Inventory | Some v \<Rightarrow> v))"
    using assms(2) by (auto simp: inventory_Get_def split: sum.splits)
  show "inv s'" "abs s' = abs s" using get_frame [OF assms(1) g] s1 by auto
  assume rv: "r = Inr v"
  with r obtain x where x: "g = Inr x" "v = (case x of None \<Rightarrow> zero_Inventory | Some v \<Rightarrow> v)"
    by (auto split: sum.splits)
  then have "x = abs s k" using get_ok [OF assms(1)] g by blast
  with x show "inventory_typ v \<and> inv_Items v = items_of (abs s) k" using okv_abs [OF assms(1)]
    by (auto simp: items_of_def zero_Inventory_def inventory_typ_def split: option.splits)
qed

lemma set_items:
  assumes "inv s" "inventory_typ v" "st_Set S s k v = (r, s')"
  shows "inv s' \<and> (if is_ok r then items_of (abs s') = (items_of (abs s))(k := inv_Items v) else abs s' = abs s)"
  using set_ok [OF assms(1,2), of k _ s'] set_err [OF assms(1,2), of k _ s'] assms(3)
  by (cases r) (auto simp: items_of_def fun_eq_iff)

text \<open>The handlers refine the loops on the stack lists; an error changes nothing.\<close>

lemma AddItem_refines:
  assumes "inv s" "inventory_AddItem S h s k item = (r, s')"
    and "item' = ApplyFilters h HookAddItem item" "in32 (it_Quantity item')"
  shows "inv s' \<and> (if is_ok r \<and> 0 < it_Quantity item'
           then items_of (abs s') = (items_of (abs s))(k := add_stack (items_of (abs s) k) item')
           else items_of (abs s') = items_of (abs s))"
proof -
  obtain g s1 where g: "inventory_Get S s k = (g, s1)" by fastforce
  note G = inventory_Get_cases [OF assms(1) g]
  show ?thesis
  proof (cases "\<exists>v. g = Inr v \<and> 0 < it_Quantity item'")
    case False
    with assms g G(1,2) show ?thesis
      by (cases g) (auto simp: inventory_AddItem_def Let_def split: if_splits)
  next
    case True
    then obtain v where v: "g = Inr v" and pos: "0 < it_Quantity item'" by blast
    let ?v = "v\<lparr>inv_Items := add_stack (inv_Items v) item'\<rparr>"
    have ty: "inventory_typ ?v" using G(3) [OF v] assms(4) by (auto simp: inventory_typ_def intro: add_stack_typ)
    have "st_Set S s1 k ?v = (r, s')" using assms(2,3) g v pos by (simp add: inventory_AddItem_def Let_def)
    from set_items [OF G(1) ty this] show ?thesis using G(2) G(3) [OF v] pos by simp
  qed
qed

lemma RemoveItem_refines:
  assumes "inv s" "0 < qty" "inventory_RemoveItem S s k i qty = (r, s')"
  shows "inv s' \<and> (case remove_stack (items_of (abs s) k) i qty of
             None \<Rightarrow> r \<noteq> Inr True \<and> items_of (abs s') = items_of (abs s)
           | Some xs \<Rightarrow> r \<noteq> Inr False \<and>
               items_of (abs s') = (if r = Inr True then (items_of (abs s))(k := xs) else items_of (abs s)))"
proof -
  obtain g s1 where g: "inventory_Get S s k = (g, s1)" by fastforce
  note G = inventory_Get_cases [OF assms(1) g]
  show ?thesis
  proof (cases "\<exists>v xs. g = Inr v \<and> remove_stack (inv_Items v) i qty = Some xs")
    case False
    with assms(2,3) g G show ?thesis
      by (cases g) (auto simp: inventory_RemoveItem_def split: option.splits)
  next
    case True
    then obtain v xs where v: "g = Inr v" and xs: "remove_stack (inv_Items v) i qty = Some xs" by blast
    obtain u s2 where u: "st_Set S s1 k (v\<lparr>inv_Items := xs\<rparr>) = (u, s2)" by fastforce
    have "inventory_typ (v\<lparr>inv_Items := xs\<rparr>)"
      using G(3) [OF v] remove_stack_typ [OF _ xs] by (auto simp: inventory_typ_def)
    from set_items [OF G(1) this u] G(2) G(3) [OF v] assms(2,3) g v xs u show ?thesis
      by (cases u) (auto simp: inventory_RemoveItem_def)
  qed
qed

end

interpretation minv: inventory_store "NewMemStore name" map_of "mem_inv inventory_typ"
  by unfold_locales

subsection \<open>The component in JSON\<close>

text \<open>The struct tags of \<open>Item\<close> and \<open>Inventory\<close>; a nil slice and an empty one are both \<open>[]\<close>.\<close>

definition marshal_Item :: "Item \<Rightarrow> json" where
  "marshal_Item x = JObj [(''item_id'', JStr (it_ItemID x)), (''quantity'', JNum (of_int (it_Quantity x)))]"

definition unmarshal_Item :: "json \<Rightarrow> Item result" where
  "unmarshal_Item j = (case json_field ''item_id'' j of Inl e \<Rightarrow> Inl e | Inr ji \<Rightarrow>
     (case json_string ji of Inl e \<Rightarrow> Inl e | Inr i \<Rightarrow>
     (case json_field ''quantity'' j of Inl e \<Rightarrow> Inl e | Inr jq \<Rightarrow>
     (case json_int in32 jq of Inl e \<Rightarrow> Inl e | Inr q \<Rightarrow> Inr \<lparr>it_ItemID = i, it_Quantity = q\<rparr>))))"

definition marshal_Inventory :: "Inventory \<Rightarrow> json result" where
  "marshal_Inventory v = Inr (JObj [(''items'', JArr (map marshal_Item (inv_Items v)))])"

definition unmarshal_Inventory :: "json \<Rightarrow> Inventory result" where
  "unmarshal_Inventory j = (case json_field ''items'' j of Inl e \<Rightarrow> Inl e | Inr js \<Rightarrow>
     (case json_array unmarshal_Item js of Inl e \<Rightarrow> Inl e | Inr xs \<Rightarrow> Inr \<lparr>inv_Items = xs\<rparr>))"

lemma unmarshal_marshal_Item: "in32 (it_Quantity x) \<Longrightarrow> unmarshal_Item (marshal_Item x) = Inr x"
  by (simp add: unmarshal_Item_def marshal_Item_def json_field_def json_string_def)

interpretation jinv: json_codec marshal_Inventory unmarshal_Inventory inventory_typ
proof
  fix v j
  assume "inventory_typ v" "marshal_Inventory v = Inr j"
  then show "unmarshal_Inventory j = Inr v"
    using json_list_map [of "inv_Items v" unmarshal_Item marshal_Item]
    by (auto simp: marshal_Inventory_def unmarshal_Inventory_def json_field_def json_array_def
        inventory_typ_def list_all_iff unmarshal_marshal_Item)
qed

interpretation jis: inventory_store "NewJSONStore marshal_Inventory unmarshal_Inventory name"
    "json_abs unmarshal_Inventory" "json_inv unmarshal_Inventory inventory_typ"
  by unfold_locales

abbreviation jinvStore :: "string \<Rightarrow> (jsonTable, Inventory) Store" where
  "jinvStore name \<equiv> NewJSONStore marshal_Inventory unmarshal_Inventory name"

abbreviation jinvs :: "jsonTable \<Rightarrow> int \<Rightarrow> Item list" where
  "jinvs d \<equiv> items_of (json_abs unmarshal_Inventory d)"

text \<open>
  C20: removing a positive quantity on the JSONB store, whatever driver calls fail. From
  well-formed stacks: an error leaves every inventory unchanged; otherwise the answer is true
  exactly when the entity holds at least \<open>qty\<close>, and then exactly \<open>qty\<close> of that item left that
  entity, an emptied stack is gone and the stacks are still well-formed.
\<close>

theorem inventory_RemoveItem_correct:
  assumes "json_inv unmarshal_Inventory inventory_typ d" "stacks_ok (jinvs d k)" "0 < qty"
    and "inventory_RemoveItem (jinvStore nm) d k i qty = (r, d')"
  shows "json_inv unmarshal_Inventory inventory_typ d' \<and> stacks_ok (jinvs d' k) \<and>
    (case r of
       Inl e \<Rightarrow> jinvs d' = jinvs d
     | Inr b \<Rightarrow> b = (qty \<le> count_stack (jinvs d k) i) \<and>
         (\<forall>k' j. count_stack (jinvs d' k') j =
            count_stack (jinvs d k') j - (if b \<and> k' = k \<and> j = i then qty else 0)))"
proof (cases "remove_stack (jinvs d k) i qty")
  case None
  with jis.RemoveItem_refines [OF assms(1,3,4)] assms(2) remove_stack_None [OF assms(2,3), of i]
  show ?thesis by (cases r) auto
next
  case (Some xs)
  with jis.RemoveItem_refines [OF assms(1,3,4)] assms(2) remove_stack_None [OF assms(2,3), of i]
    remove_stack_Some [OF assms(2,3) Some]
  show ?thesis by (cases r) auto
qed

theorem inventory_RemoveItem_correct_witness:
  "fst (inventory_RemoveItem (jinvStore ''bag'')
     \<lparr>db_tables = [(4, JObj [(''items'', JArr [JObj [(''item_id'', JStr ''ore''), (''quantity'', JNum 3)]])])],
      db_faults = []\<rparr> 4 ''ore'' 2) = Inr True \<and>
   fst (inventory_RemoveItem (jinvStore ''bag'')
     \<lparr>db_tables = [(4, JObj [(''items'', JArr [JObj [(''item_id'', JStr ''ore''), (''quantity'', JNum 3)]])])],
      db_faults = [None, Some 5]\<rparr> 4 ''ore'' 2) = Inl (IOErr 5)"
proof -
  let ?t = "[(4::int, JObj [(''items'', JArr [JObj [(''item_id'', JStr ''ore''), (''quantity'', JNum 3)]])])]"
  let ?d = "\<lambda>fs. \<lparr>db_tables = ?t, db_faults = fs\<rparr> :: jsonTable"
  have n3: "json_int in32 (JNum 3) = Inr 3" using json_int_num [of in32 3] by (simp add: in32_def)
  have u: "unmarshal_Inventory (JObj [(''items'', JArr [JObj [(''item_id'', JStr ''ore''), (''quantity'', JNum 3)]])])
     = Inr \<lparr>inv_Items = [\<lparr>it_ItemID = ''ore'', it_Quantity = 3\<rparr>]\<rparr>"
    by (simp add: unmarshal_Inventory_def unmarshal_Item_def json_field_def json_array_def json_string_def n3)
  have inv: "json_inv unmarshal_Inventory inventory_typ (?d fs)" for fs
    by (simp add: json_inv_def al_ok_def u inventory_typ_def in32_def)
  have st: "jinvs (?d fs) 4 = [\<lparr>it_ItemID = ''ore'', it_Quantity = 3\<rparr>]" for fs
    by (simp add: items_of_def json_abs_def u)
  have ok: "stacks_ok (jinvs (?d fs) 4)" for fs unfolding st by (simp add: in32_def)
  obtain r d' where e: "inventory_RemoveItem (jinvStore ''bag'') (?d []) 4 ''ore'' 2 = (r, d')" by fastforce
  have "is_ok r" using e
    by (auto simp: inventory_RemoveItem_def inventory_Get_def NewJSONStore_def jsonStore_Get_def u
        jsonStore_Set_def marshal_Inventory_def db_stmt_def wrap32_def split: if_splits)
  then have "r = Inr True"
    using inventory_RemoveItem_correct [OF inv ok _ e] unfolding st by (cases r) (auto simp: is_ok_def)
  with e show ?thesis
    by (simp add: inventory_RemoveItem_def inventory_Get_def NewJSONStore_def jsonStore_Get_def u
        jsonStore_Set_def marshal_Inventory_def db_stmt_def db_call_def wrap32_def)
qed

text \<open>
  C21: adding an item on the JSONB store, whatever driver calls fail and whatever filters are
  registered. When the quantity after the filters is positive and the stack does not overflow an
  \<open>int32\<close>, a call that succeeds adds exactly that quantity to exactly that item of the entity and
  keeps the stacks well-formed; a call that fails, or one whose filtered quantity is not
  positive, changes nothing.
\<close>

theorem inventory_AddItem_correct:
  assumes "json_inv unmarshal_Inventory inventory_typ d" "stacks_ok (jinvs d k)"
    and "inventory_AddItem (jinvStore nm) h d k item = (r, d')"
    and "item' = ApplyFilters h HookAddItem item"
    and "in32 (it_Quantity item')" "in32 (count_stack (jinvs d k) (it_ItemID item') + it_Quantity item')"
  shows "json_inv unmarshal_Inventory inventory_typ d' \<and> stacks_ok (jinvs d' k) \<and>
    (\<forall>k' j. count_stack (jinvs d' k') j = count_stack (jinvs d k') j +
       (if is_ok r \<and> k' = k \<and> j = it_ItemID item' then max 0 (it_Quantity item') else 0))"
proof (cases "is_ok r \<and> 0 < it_Quantity item'")
  case True
  with jis.AddItem_refines [OF assms(1,3,4,5)] assms(6) add_stack_ok [OF assms(2)]
  show ?thesis by (simp add: count_add_stack [OF assms(5)] wrap32_id)
next
  case False
  with jis.AddItem_refines [OF assms(1,3,4,5)] assms(2)
  have "json_inv unmarshal_Inventory inventory_typ d'" "jinvs d' = jinvs d" by auto
  then show ?thesis using False assms(2) by auto
qed

theorem inventory_AddItem_correct_witness:
  "count_stack (jinvs (snd (inventory_AddItem (jinvStore ''bag'') (None :: (Item filter_any, unit) Hooks option)
     \<lparr>db_tables = [], db_faults = []\<rparr> 4 \<lparr>it_ItemID = ''ore'', it_Quantity = 2\<rparr>)) 4) ''ore'' = 2"
proof -
  let ?d = "\<lparr>db_tables = [], db_faults = []\<rparr> :: jsonTable"
  obtain r d' where e: "inventory_AddItem (jinvStore ''bag'') (None :: (Item filter_any, unit) Hooks option)
     ?d 4 \<lparr>it_ItemID = ''ore'', it_Quantity = 2\<rparr> = (r, d')" by fastforce
  have inv: "json_inv unmarshal_Inventory inventory_typ ?d" by (simp add: json_inv_def)
  have st: "jinvs ?d k = []" for k by (simp add: items_of_def json_abs_def)
  have "is_ok r" using e
    by (auto simp: inventory_AddItem_def inventory_Get_def NewJSONStore_def jsonStore_Get_def
        jsonStore_Set_def marshal_Inventory_def db_stmt_def)
  with inventory_AddItem_correct [OF inv _ e refl] show ?thesis
    by (simp add: st e in32_def)
qed

end
