(* ===== verification/Progression.thy ===== *)
theory Progression
  imports Component_Store Hooks Float64
begin

section \<open>Levels and experience: gamekit/progression\<close>

text \<open>
  The curve, the level-up loop and the service. \<open>math.Pow\<close> is the parameter \<open>pow\<close>: it is
  not correctly rounded in general, and nothing below depends on its values. The loop of
  \<open>Apply\<close> ends because a positive requirement is subtracted from an experience value that is
  at least as large.
\<close>

record Progression =
  p_Level :: int
  p_XP :: int

record Curve =
  cv_Base :: f64
  cv_Exp :: f64

record LevelUp =
  lu_EntityID :: int
  lu_NewLevel :: int

abbreviation HookXP :: string where "HookXP \<equiv> ''progression.xp''"
abbreviation HookLevelUp :: string where "HookLevelUp \<equiv> ''progression.levelup''"

type_synonym pow = "f64 \<Rightarrow> f64 \<Rightarrow> f64"

definition XPForLevel :: "pow \<Rightarrow> Curve \<Rightarrow> int \<Rightarrow> int" where
  "XPForLevel pow c level =
     (let level = (if level < 1 then 1 else level) in
      int64_of_f64 (fmul (cv_Base c) (pow (f64_of_int level) (cv_Exp c))))"

function apply_loop :: "(int \<Rightarrow> int) \<Rightarrow> int \<Rightarrow> int \<Rightarrow> int \<Rightarrow> int \<times> int \<times> int" where
  "apply_loop req newLevel newXP levelsGained =
     (if req newLevel > 0 \<and> newXP \<ge> req newLevel
      then apply_loop req (wrap32 (newLevel + 1)) (newXP - req newLevel) (wrap32 (levelsGained + 1))
      else (newLevel, newXP, levelsGained))"
  by pat_completeness auto
termination by (relation "measure (\<lambda>(req, l, x, g). nat x)") auto

declare apply_loop.simps [simp del]

definition Apply :: "pow \<Rightarrow> Curve \<Rightarrow> int \<Rightarrow> int \<Rightarrow> int \<Rightarrow> int \<times> int \<times> int" where
  "Apply pow c level xp gained =
     apply_loop (XPForLevel pow c) (if level < 1 then 1 else level) (wrap64 (xp + gained)) 0"

definition progression_Get :: "('s, Progression) Store \<Rightarrow> 's \<Rightarrow> int \<Rightarrow> Progression result \<times> 's" where
  "progression_Get S s entityID = (case st_Get S s entityID of
     (Inl e, s') \<Rightarrow> (Inl e, s')
   | (Inr r, s') \<Rightarrow> (Inr (case r of None \<Rightarrow> \<lparr>p_Level = 1, p_XP = 0\<rparr> | Some p \<Rightarrow> p), s'))"

text \<open>\<open>for i := int32(0); i < gained; i++\<close>: one action per level, its error ignored.\<close>

definition fire_levelups ::
  "('f, (LevelUp, 'w) action_any) Hooks option \<Rightarrow> int \<Rightarrow> int \<Rightarrow> int \<Rightarrow> 'w \<Rightarrow> 'w" where
  "fire_levelups h entityID level gained w =
     fold (\<lambda>i w. snd (DoAction h HookLevelUp \<lparr>lu_EntityID = entityID, lu_NewLevel = wrap32 (level + i + 1)\<rparr> w))
       [0..gained - 1] w"

definition progression_GrantXP ::
  "pow \<Rightarrow> ('s, Progression) Store \<Rightarrow> Curve \<Rightarrow> (int filter_any, (LevelUp, 'w) action_any) Hooks option \<Rightarrow>
   's \<Rightarrow> 'w \<Rightarrow> int \<Rightarrow> int \<Rightarrow> (Progression \<times> int) result \<times> 's \<times> 'w" where
  "progression_GrantXP pow S c h s w entityID amount =
     (let amount = ApplyFilters h HookXP amount in
      case progression_Get S s entityID of
        (Inl e, s1) \<Rightarrow> (Inl e, s1, w)
      | (Inr cur, s1) \<Rightarrow>
          (case Apply pow c (p_Level cur) (p_XP cur) amount of (level, xp, gained) \<Rightarrow>
           let nxt = \<lparr>p_Level = level, p_XP = xp\<rparr> in
           case st_Set S s1 entityID nxt of
             (Inl e, s2) \<Rightarrow> (Inl e, s2, w)
           | (Inr _, s2) \<Rightarrow> (Inr (nxt, gained), s2, fire_levelups h entityID (p_Level cur) gained w)))"

subsection \<open>The loop\<close>

lemma XPForLevel_in64: "in64 (XPForLevel pow c l)"
  by (simp add: XPForLevel_def Let_def int64_of_f64_in64)

text \<open>What the loop ends in: the requirement of the level reached is not met any more.\<close>

lemma apply_loop_end:
  "apply_loop req l x g = (l', x', g') \<Longrightarrow> req l' \<le> 0 \<or> x' < req l'"
proof (induction req l x g rule: apply_loop.induct)
  case (1 req l x g)
  then show ?case by (subst (asm) (2) apply_loop.simps) (auto split: if_splits)
qed

lemma apply_loop_xp:
  "apply_loop req l x g = (l', x', g') \<Longrightarrow> x' \<le> x \<and> (0 \<le> x \<longrightarrow> 0 \<le> x')"
proof (induction req l x g rule: apply_loop.induct)
  case (1 req l x g)
  then show ?case by (subst (asm) (2) apply_loop.simps) (fastforce split: if_splits)
qed

text \<open>No experience is lost or made, as long as the top level is not left: what the bar holds
  plus the requirements of the levels gained is what there was.\<close>

definition tops :: "(int \<Rightarrow> int) \<Rightarrow> int \<Rightarrow> bool" where
  "tops req x \<longleftrightarrow> req (2 ^ 31 - 1) \<le> 0 \<or> x < req (2 ^ 31 - 1)"

lemma tops_mono: "tops req x \<Longrightarrow> y \<le> x \<Longrightarrow> tops req y"
  by (auto simp: tops_def)

lemma apply_loop_step:
  "0 < req l \<Longrightarrow> req l \<le> x \<Longrightarrow>
   apply_loop req l x g = apply_loop req (wrap32 (l + 1)) (x - req l) (wrap32 (g + 1))"
  by (subst apply_loop.simps) simp

lemma apply_loop_stop: "req l \<le> 0 \<or> x < req l \<Longrightarrow> apply_loop req l x g = (l, x, g)"
  by (subst apply_loop.simps) auto

lemma upto_Cons: "(i::int) < j \<Longrightarrow> [i..j - 1] = i # [i + 1..j - 1]"
  by (simp add: upto_rec1)

lemma tops_next:
  assumes "tops req x" "0 < req l" "req l \<le> x" "1 \<le> l" "l < 2 ^ 31"
  shows "l + 1 < 2 ^ 31" "wrap32 (l + 1) = l + 1"
proof -
  have "l \<noteq> 2 ^ 31 - 1" using assms by (auto simp: tops_def)
  then show "l + 1 < 2 ^ 31" using assms(5) by simp
  with assms(4) show "wrap32 (l + 1) = l + 1" by (simp add: wrap32_id in32_def)
qed

lemma apply_loop_conserves:
  assumes "apply_loop req l x g = (l', x', g')" "tops req x" "1 \<le> l" "l < 2 ^ 31" "0 \<le> g" "g < l"
  shows "l \<le> l' \<and> l' < 2 ^ 31 \<and> g' - g = l' - l \<and> x = x' + sum_list (map req [l..l' - 1]) \<and>
         (\<forall>j \<in> {l..<l'}. 0 < req j)"
  using assms
proof (induction req l x g rule: apply_loop.induct)
  case (1 req l x g)
  show ?case
  proof (cases "0 < req l \<and> req l \<le> x")
    case False
    with "1.prems"(1) have "l' = l \<and> x' = x \<and> g' = g" by (auto simp: apply_loop_stop)
    with "1.prems" show ?thesis by simp
  next
    case True
    note n = tops_next [OF "1.prems"(2) conjunct1 [OF True] conjunct2 [OF True] "1.prems"(3,4)]
    have g1: "wrap32 (g + 1) = g + 1" using "1.prems" by (simp add: wrap32_id in32_def)
    have run: "apply_loop req (l + 1) (x - req l) (g + 1) = (l', x', g')"
      using "1.prems"(1) True n g1 by (simp add: apply_loop_step)
    have *: "l + 1 \<le> l' \<and> l' < 2 ^ 31 \<and> g' - (g + 1) = l' - (l + 1) \<and>
        x - req l = x' + sum_list (map req [l + 1..l' - 1]) \<and> (\<forall>j \<in> {l + 1..<l'}. 0 < req j)"
      using "1.IH" True n g1 run tops_mono [OF "1.prems"(2), of "x - req l"] "1.prems" by simp
    then have "[l..l' - 1] = l # [l + 1..l' - 1]" by (simp add: upto_Cons)
    moreover have "{l..<l'} = insert l {l + 1..<l'}" using * by auto
    ultimately show ?thesis using * True by simp
  qed
qed

lemma apply_loop_more:
  "apply_loop req l x g = (l1, x1, g1) \<Longrightarrow> 0 \<le> b \<Longrightarrow> apply_loop req l (x + b) g = apply_loop req l1 (x1 + b) g1"
proof (induction req l x g rule: apply_loop.induct)
  case (1 req l x g)
  show ?case
  proof (cases "0 < req l \<and> req l \<le> x")
    case True
    with "1.prems" have "apply_loop req l (x + b) g =
        apply_loop req (wrap32 (l + 1)) ((x - req l) + b) (wrap32 (g + 1))"
      by (simp add: apply_loop_step algebra_simps)
    with "1.IH" True "1.prems" show ?thesis by (simp add: apply_loop_step)
  next
    case False
    with "1.prems"(1) show ?thesis by (auto simp: apply_loop_stop)
  qed
qed

lemma Apply_conserves:
  assumes "Apply pow c level xp gained = (l', x', g')" "in32 level" "in64 (xp + gained)"
    and "tops (XPForLevel pow c) (xp + gained)"
  shows "max 1 level \<le> l' \<and> in32 l' \<and> g' = l' - max 1 level \<and>
         xp + gained = x' + sum_list (map (XPForLevel pow c) [max 1 level..l' - 1]) \<and>
         (XPForLevel pow c l' \<le> 0 \<or> x' < XPForLevel pow c l') \<and> (0 \<le> xp + gained \<longrightarrow> 0 \<le> x')"
proof -
  have m: "(if level < 1 then 1 else level) = max 1 level" by auto
  have run: "apply_loop (XPForLevel pow c) (max 1 level) (xp + gained) 0 = (l', x', g')"
    using assms(1,3) by (simp add: Apply_def m wrap64_id)
  have "1 \<le> max 1 level" "max 1 level < 2 ^ 31" using assms(2) by (auto simp: in32_def)
  with apply_loop_conserves [OF run assms(4)] apply_loop_end [OF run] apply_loop_xp [OF run] assms(3)
  show ?thesis by (auto simp: in32_def)
qed

text \<open>The counter has no influence on the level and the bar.\<close>

lemma apply_loop_same:
  "apply_loop req l x g = (la, xa, ga) \<Longrightarrow> apply_loop req l x g' = (lb, xb, gb) \<Longrightarrow> la = lb \<and> xa = xb"
proof (induction req l x g arbitrary: g' rule: apply_loop.induct)
  case (1 req l x g)
  then show ?case by (cases "0 < req l \<and> req l \<le> x") (auto simp: apply_loop_step apply_loop_stop)
qed

text \<open>
  C22: the level-up rule loses no experience. Unless the experience reaches past the top level
  (the requirement at the largest \<open>int32\<close> level), \<open>Apply\<close> returns a level not below the one it was
  given (levels below 1 count as 1), the number of levels gained is the difference, the bar plus
  the requirements of exactly the levels gained is the experience put in, and the bar does not
  meet the next requirement.
\<close>

theorem progression_Apply_correct:
  assumes "in32 level" "in64 (xp + gained)" "0 \<le> xp + gained" "tops (XPForLevel pow c) (xp + gained)"
  shows "case Apply pow c level xp gained of (l', x', g') \<Rightarrow>
     max 1 level \<le> l' \<and> in32 l' \<and> g' = l' - max 1 level \<and>
     xp + gained = x' + sum_list (map (XPForLevel pow c) [max 1 level..l' - 1]) \<and>
     0 \<le> x' \<and> (XPForLevel pow c l' \<le> 0 \<or> x' < XPForLevel pow c l')"
  using Apply_conserves [OF _ assms(1,2,4)] assms(3) by (auto split: prod.splits)

text \<open>A linear curve, 100 experience per level, with the exponent 1.\<close>

definition pow_id :: pow where
  "pow_id x y = x"

abbreviation curve100 :: Curve where "curve100 \<equiv> \<lparr>cv_Base = Fin 100, cv_Exp = Fin 1\<rparr>"

lemma XPForLevel_curve100: "1 \<le> l \<Longrightarrow> l < 2 ^ 31 \<Longrightarrow> XPForLevel pow_id curve100 l = 100 * l"
  using f64_of_int_exact [of l] rnd_of_int [of "100 * l"] int64_of_f64_of_int [of "100 * l"]
  by (simp add: XPForLevel_def pow_id_def f64_of_int_def)

theorem progression_Apply_correct_witness:
  "Apply pow_id curve100 1 0 350 = (3, 50, 2) \<and>
   0 + 350 = 50 + sum_list (map (XPForLevel pow_id curve100) [1..2])"
proof -
  have t: "tops (XPForLevel pow_id curve100) (0 + 350)" by (simp add: tops_def XPForLevel_curve100)
  have "Apply pow_id curve100 1 0 350 = (3, 50, 2)"
    by (simp add: Apply_def wrap64_def wrap32_def apply_loop_step apply_loop_stop XPForLevel_curve100)
  with progression_Apply_correct [of 1 0 350 pow_id curve100, OF _ _ _ t] show ?thesis
    by (simp add: in32_def in64_def)
qed

text \<open>
  C23: granting experience in two portions is the same as granting it at once: same level, same
  bar, and the levels gained add up.
\<close>

theorem progression_Apply_split:
  assumes "in32 level" "0 \<le> xp" "0 \<le> a" "0 \<le> b" "in64 (xp + a + b)" "tops (XPForLevel pow c) (xp + a + b)"
    and "Apply pow c level xp a = (l1, x1, g1)"
  shows "Apply pow c level xp (a + b) =
     (case Apply pow c l1 x1 b of (l2, x2, g2) \<Rightarrow> (l2, x2, g1 + g2))"
proof -
  let ?r = "XPForLevel pow c" and ?l = "max 1 level"
  have m: "(if level < 1 then 1 else level) = ?l" by auto
  have in64s: "in64 (xp + a)" using assms by (simp add: in64_def)
  have t1: "tops ?r (xp + a)" by (rule tops_mono [OF assms(6)]) (use assms in simp)
  note A = Apply_conserves [OF assms(7,1) in64s t1]
  have x1: "0 \<le> x1" "x1 \<le> xp + a"
    using A assms(2,3) apply_loop_xp [of ?r ?l "xp + a" 0] assms(7) in64s by (auto simp: Apply_def m wrap64_id)
  have l1: "1 \<le> l1" "(if l1 < 1 then 1 else l1) = l1" "l1 < 2 ^ 31" using A by (auto simp: in32_def)
  have i: "in64 (x1 + b)" using x1 assms by (simp add: in64_def)
  obtain l2 x2 g2 where B: "apply_loop ?r l1 (x1 + b) 0 = (l2, x2, g2)" by (metis prod_cases3)
  obtain l3 x3 g3 where D: "apply_loop ?r l1 (x1 + b) g1 = (l3, x3, g3)" by (metis prod_cases3)
  have run1: "apply_loop ?r ?l (xp + a) 0 = (l1, x1, g1)" using assms(7) in64s by (simp add: Apply_def m wrap64_id)
  have t2: "tops ?r (x1 + b)" by (rule tops_mono [OF assms(6)]) (use x1 in simp)
  have g1: "0 \<le> g1" "g1 < l1" using A by auto
  have "g2 = l2 - l1" "g3 - g1 = l3 - l1"
    using apply_loop_conserves [OF B t2 l1(1,3)] apply_loop_conserves [OF D t2 l1(1,3) g1] l1 by auto
  with apply_loop_same [OF B D] have "apply_loop ?r l1 (x1 + b) g1 = (l2, x2, g1 + g2)" using D by simp
  then have "Apply pow c level xp (a + b) = (l2, x2, g1 + g2)"
    using apply_loop_more [OF run1 assms(4)] assms(5) by (simp add: Apply_def m wrap64_id add.assoc)
  moreover have "Apply pow c l1 x1 b = (l2, x2, g2)" using B i l1 by (simp add: Apply_def wrap64_id)
  ultimately show ?thesis by simp
qed

theorem progression_Apply_split_witness:
  "Apply pow_id curve100 1 0 (120 + 230) =
     (case Apply pow_id curve100 2 20 230 of (l2, x2, g2) \<Rightarrow> (l2, x2, 1 + g2))"
proof -
  have t: "tops (XPForLevel pow_id curve100) (0 + 120 + 230)" by (simp add: tops_def XPForLevel_curve100)
  have "Apply pow_id curve100 1 0 120 = (2, 20, 1)"
    by (simp add: Apply_def wrap64_def wrap32_def apply_loop_step apply_loop_stop XPForLevel_curve100)
  from progression_Apply_split [OF _ _ _ _ _ t this] show ?thesis by (simp add: in32_def in64_def)
qed

subsection \<open>The service\<close>

definition progression_typ :: "Progression \<Rightarrow> bool" where
  "progression_typ p \<longleftrightarrow> in32 (p_Level p) \<and> in64 (p_XP p)"

definition prog_of :: "(int \<rightharpoonup> Progression) \<Rightarrow> int \<Rightarrow> Progression" where
  "prog_of m k = (case m k of None \<Rightarrow> \<lparr>p_Level = 1, p_XP = 0\<rparr> | Some p \<Rightarrow> p)"

lemma apply_loop_typ:
  "apply_loop req l x g = (l', x', g') \<Longrightarrow> in32 l \<Longrightarrow> in64 x \<Longrightarrow> in32 l' \<and> in64 x'"
proof (induction req l x g rule: apply_loop.induct)
  case (1 req l x g)
  show ?case
  proof (cases "0 < req l \<and> req l \<le> x")
    case True
    with "1.prems" have "in64 (x - req l)" by (auto simp: in64_def)
    with True "1.IH" "1.prems" show ?thesis by (simp add: apply_loop_step)
  next
    case False
    with "1.prems" show ?thesis by (auto simp: apply_loop_stop)
  qed
qed

lemma Apply_typ: "Apply pow c l x a = (l', x', g') \<Longrightarrow> in32 l \<Longrightarrow> progression_typ \<lparr>p_Level = l', p_XP = x'\<rparr>"
  using apply_loop_typ [of "XPForLevel pow c" "if l < 1 then 1 else l" "wrap64 (x + a)" 0 l' x' g']
  by (auto simp: Apply_def progression_typ_def in32_def split: if_splits)

locale progression_store = component_store S abs inv progression_typ
  for S :: "('s, Progression) Store" and abs :: "'s \<Rightarrow> (int \<rightharpoonup> Progression)" and inv :: "'s \<Rightarrow> bool"
begin

lemma progression_Get_cases:
  assumes "inv s" "progression_Get S s k = (r, s')"
  shows "inv s'" "abs s' = abs s" "r = Inr p \<Longrightarrow> p = prog_of (abs s) k \<and> progression_typ p"
proof -
  obtain g s1 where g: "st_Get S s k = (g, s1)" by fastforce
  show "inv s'" "abs s' = abs s" using get_frame [OF assms(1) g] assms(2) g
    by (cases g; auto simp: progression_Get_def)+
  show "r = Inr p \<Longrightarrow> p = prog_of (abs s) k \<and> progression_typ p"
    using get_ok [OF assms(1)] okv_abs [OF assms(1), of k] assms(2) g
    by (cases g) (auto simp: progression_Get_def prog_of_def progression_typ_def in32_def in64_def split: option.splits)
qed

lemma GrantXP_cases:
  assumes inv: "inv s" and run: "progression_GrantXP pow S c h s w k amt = (r, s', w')"
  shows "inv s' \<and> (case r of
      Inl e \<Rightarrow> abs s' = abs s \<and> w' = w
    | Inr (p', g') \<Rightarrow> (let cur = prog_of (abs s) k in
        Apply pow c (p_Level cur) (p_XP cur) (ApplyFilters h HookXP amt) = (p_Level p', p_XP p', g') \<and>
        abs s' = (abs s)(k \<mapsto> p') \<and> w' = fire_levelups h k (p_Level cur) g' w))"
proof -
  obtain g s1 where g: "progression_Get S s k = (g, s1)" by fastforce
  note G = progression_Get_cases [OF inv g]
  show ?thesis
  proof (cases g)
    case (Inl e)
    with run g G(1,2) show ?thesis by (auto simp: progression_GrantXP_def)
  next
    case (Inr cur)
    obtain l x a where A: "Apply pow c (p_Level cur) (p_XP cur) (ApplyFilters h HookXP amt) = (l, x, a)"
      by (metis prod_cases3)
    let ?p = "\<lparr>p_Level = l, p_XP = x\<rparr>"
    have ok: "progression_typ ?p" using Apply_typ [OF A] G(3) [OF Inr] by (auto simp: progression_typ_def)
    obtain u s2 where u: "st_Set S s1 k ?p = (u, s2)" by fastforce
    from set_ok [OF G(1) ok] set_err [OF G(1) ok] u run g Inr A G(2) G(3) [OF Inr]
    show ?thesis by (cases u) (auto simp: progression_GrantXP_def)
  qed
qed

end

interpretation mprog: progression_store "NewMemStore name" map_of "mem_inv progression_typ"
  by unfold_locales

definition marshal_Progression :: "Progression \<Rightarrow> json result" where
  "marshal_Progression p = Inr (JObj [(''level'', JNum (of_int (p_Level p))), (''xp'', JNum (of_int (p_XP p)))])"

definition unmarshal_Progression :: "json \<Rightarrow> Progression result" where
  "unmarshal_Progression j = (case json_field ''level'' j of Inl e \<Rightarrow> Inl e | Inr jl \<Rightarrow>
     (case json_int in32 jl of Inl e \<Rightarrow> Inl e | Inr l \<Rightarrow>
     (case json_field ''xp'' j of Inl e \<Rightarrow> Inl e | Inr jx \<Rightarrow>
     (case json_int in64 jx of Inl e \<Rightarrow> Inl e | Inr x \<Rightarrow> Inr \<lparr>p_Level = l, p_XP = x\<rparr>))))"

interpretation jprog: json_codec marshal_Progression unmarshal_Progression progression_typ
  by unfold_locales
    (auto simp: marshal_Progression_def unmarshal_Progression_def json_field_def progression_typ_def)

interpretation jps: progression_store "NewJSONStore marshal_Progression unmarshal_Progression name"
    "json_abs unmarshal_Progression" "json_inv unmarshal_Progression progression_typ"
  by unfold_locales

lemma fold_map_upto:
  "0 \<le> n \<Longrightarrow> fold (\<lambda>i. f (l + i + 1)) [0..n - 1] w = fold f [l + 1..l + n] w" for l n :: int
proof -
  assume "0 \<le> n"
  then have "[l + 1..l + n] = map (\<lambda>i. l + i + 1) [0..n - 1]"
  proof (induction n rule: int_ge_induct)
    case (step n)
    have "[l + 1..l + (n + 1)] = [l + 1..l + n] @ [l + n + 1]"
      using step.hyps upto_rec2 [of "l + 1" "l + n + 1"] by (simp add: algebra_simps)
    moreover have "[0..n] = [0..n - 1] @ [n]" using step.hyps upto_rec2 [of 0 n] by simp
    ultimately show ?case using step.IH by simp
  qed simp
  then show ?thesis by (simp add: fold_map comp_def)
qed

lemma fire_levelups_upto:
  assumes "in32 l" "in32 (l + n)" "0 \<le> n"
  shows "fire_levelups h k l n w =
    fold (\<lambda>lv w. snd (DoAction h HookLevelUp \<lparr>lu_EntityID = k, lu_NewLevel = lv\<rparr> w)) [l + 1..l + n] w"
proof -
  have "fire_levelups h k l n w =
    fold (\<lambda>i w. snd (DoAction h HookLevelUp \<lparr>lu_EntityID = k, lu_NewLevel = l + i + 1\<rparr> w)) [0..n - 1] w"
    unfolding fire_levelups_def
    by (rule fold_cong) (use assms in \<open>auto simp: wrap32_id in32_def fun_eq_iff\<close>)
  then show ?thesis
    using fold_map_upto [OF assms(3), of "\<lambda>lv w. snd (DoAction h HookLevelUp \<lparr>lu_EntityID = k, lu_NewLevel = lv\<rparr> w)" l w]
    by simp
qed

text \<open>
  C24: granting experience through the service on the JSONB store, whatever driver calls fail. For
  an entity stored at level 1 or above: an error changes neither the component nor anything the
  level-up actions own; otherwise the component holds exactly what \<open>Apply\<close> computes from the
  filtered amount, and the level-up actions have been fired once for each level from the one
  after the old level to the new one, in ascending order.
\<close>

theorem progression_GrantXP_correct:
  assumes "json_inv unmarshal_Progression progression_typ d"
    and "cur = prog_of (json_abs unmarshal_Progression d) k" "1 \<le> p_Level cur"
    and "a = ApplyFilters h HookXP amt" "in64 (p_XP cur + a)" "tops (XPForLevel pow c) (p_XP cur + a)"
    and "progression_GrantXP pow (NewJSONStore marshal_Progression unmarshal_Progression nm) c h d w k amt = (r, d', w')"
  shows "json_inv unmarshal_Progression progression_typ d' \<and> (case r of
      Inl e \<Rightarrow> json_abs unmarshal_Progression d' = json_abs unmarshal_Progression d \<and> w' = w
    | Inr (p', g') \<Rightarrow>
        Apply pow c (p_Level cur) (p_XP cur) a = (p_Level p', p_XP p', g') \<and>
        json_abs unmarshal_Progression d' = (json_abs unmarshal_Progression d)(k \<mapsto> p') \<and>
        w' = fold (\<lambda>l w. snd (DoAction h HookLevelUp \<lparr>lu_EntityID = k, lu_NewLevel = l\<rparr> w))
               [p_Level cur + 1..p_Level p'] w)"
proof (cases r)
  case (Inl e)
  with jps.GrantXP_cases [OF assms(1,7)] show ?thesis by simp
next
  case (Inr q)
  obtain p' g' where q: "q = (p', g')" by fastforce
  note G = jps.GrantXP_cases [OF assms(1,7)]
  have A: "Apply pow c (p_Level cur) (p_XP cur) a = (p_Level p', p_XP p', g')"
    using G Inr q assms(2,4) by (simp add: Let_def)
  have i: "in32 (p_Level cur)"
    using jprog.js.okv_abs [OF assms(1), of k] assms(2,3)
    by (auto simp: prog_of_def progression_typ_def in32_def split: option.splits)
  from Apply_conserves [OF A i assms(5,6)] assms(3)
  have "g' = p_Level p' - p_Level cur" "in32 (p_Level p')" "0 \<le> g'" by auto
  with fire_levelups_upto [of "p_Level cur" g' h k w] i G Inr q assms(2,4) show ?thesis
    by (simp add: Let_def)
qed

theorem progression_GrantXP_correct_witness:
  "\<exists>d'. progression_GrantXP pow_id (NewJSONStore marshal_Progression unmarshal_Progression ''prog'') curve100
     (Some (hooks_New\<lparr>h_actions := (\<lambda>_. [\<lparr>e_priority = 0, e_seq = 1,
        e_fn = ActionFn (\<lambda>u w. (Returned None, w @ [lu_NewLevel u]))\<rparr>])\<rparr>))
     \<lparr>db_tables = [], db_faults = []\<rparr> [] 9 350 = (Inr (\<lparr>p_Level = 3, p_XP = 50\<rparr>, 2), d', [2, 3])"
proof -
  let ?h = "Some (hooks_New\<lparr>h_actions := (\<lambda>_. [\<lparr>e_priority = 0, e_seq = 1,
        e_fn = ActionFn (\<lambda>u w. (Returned None, w @ [lu_NewLevel u]))\<rparr>])\<rparr>)
      :: (int filter_any, (LevelUp, int list) action_any) Hooks option"
  let ?d = "\<lparr>db_tables = [], db_faults = []\<rparr> :: jsonTable"
  let ?S = "NewJSONStore marshal_Progression unmarshal_Progression ''prog''"
  have cur: "prog_of (json_abs unmarshal_Progression ?d) 9 = \<lparr>p_Level = 1, p_XP = 0\<rparr>"
    by (simp add: prog_of_def json_abs_def)
  have inv: "json_inv unmarshal_Progression progression_typ ?d" by (simp add: json_inv_def)
  have t: "tops (XPForLevel pow_id curve100) 350" by (simp add: tops_def XPForLevel_curve100)
  have a: "ApplyFilters ?h HookXP 350 = 350" by (simp add: ApplyFilters_def hooks_New_def)
  have A: "Apply pow_id curve100 1 0 350 = (3, 50, 2)"
    by (simp add: Apply_def wrap64_def wrap32_def apply_loop_step apply_loop_stop XPForLevel_curve100)
  obtain r d' w' where e: "progression_GrantXP pow_id ?S curve100 ?h ?d [] 9 350 = (r, d', w')"
    by (metis prod_cases3)
  have "is_ok r" using e
    by (auto simp: progression_GrantXP_def progression_Get_def NewJSONStore_def jsonStore_Get_def a A
        jsonStore_Set_def marshal_Progression_def db_stmt_def)
  then obtain p' g' where r: "r = Inr (p', g')" by (metis is_okE old.prod.exhaust)
  have "fold (\<lambda>l w. snd (DoAction ?h HookLevelUp \<lparr>lu_EntityID = 9, lu_NewLevel = l\<rparr> w)) [2..3] [] = [2, 3]"
    by (simp add: DoAction_def doOne_def upto_rec1)
  with progression_GrantXP_correct [OF inv refl _ refl _ _ e] r show ?thesis
    by (cases p') (simp add: cur a A t e in64_def)
qed

end
