(* ===== verification/Quest_Kit.thy ===== *)
theory Quest_Kit
  imports Prelude
begin

section \<open>Objectives: gamekit/quest\<close>

text \<open>
  \<open>Advance\<close>, the pure transition a progress event applies to a quest. The second half proves
  the invariant a quest keeps from its start to its completion when events are applied one
  after another.
\<close>

record Step =
  qs_Type :: string
  qs_Target :: string
  qs_Count :: int

record Advanced =
  adv_progress :: "int list"
  adv_step :: int
  adv_stepCompleted :: bool
  adv_questCompleted :: bool
  adv_matched :: bool

definition quest_Advance ::
  "Step list \<Rightarrow> int \<Rightarrow> int list \<Rightarrow> string \<Rightarrow> string \<Rightarrow> int \<Rightarrow> Advanced" where
  "quest_Advance steps currentStep progress actionType target amount =
     (let unchanged = \<lparr>adv_progress = progress, adv_step = currentStep, adv_stepCompleted = False,
                       adv_questCompleted = False, adv_matched = False\<rparr> in
      if currentStep < 0 \<or> currentStep \<ge> int (length steps) \<or> currentStep \<ge> int (length progress)
      then unchanged
      else let i = nat currentStep; step = steps ! i in
        if qs_Type step \<noteq> actionType \<or> qs_Target step \<noteq> target then unchanged
        else if progress ! i \<ge> qs_Count step then unchanged
        else let next = wrap32 (progress ! i + amount);
                 next = (if next > qs_Count step then qs_Count step else next);
                 out = progress[i := next];
                 done = (next \<ge> qs_Count step);
                 isLast = (currentStep = int (length steps) - 1);
                 nextStep = (if done \<and> \<not> isLast then wrap32 (currentStep + 1) else currentStep)
             in \<lparr>adv_progress = out, adv_step = nextStep, adv_stepCompleted = done,
                 adv_questCompleted = (done \<and> isLast), adv_matched = True\<rparr>)"

text \<open>A progress event, and the quest's position after it.\<close>

record QEvent =
  ev_type :: string
  ev_target :: string
  ev_amount :: int

definition adv :: "Step list \<Rightarrow> int \<times> int list \<Rightarrow> QEvent \<Rightarrow> Advanced" where
  "adv steps q ev = quest_Advance steps (fst q) (snd q) (ev_type ev) (ev_target ev) (ev_amount ev)"

text \<open>
  The invariant: the steps before the current one are exactly complete, the ones after it
  untouched, and the current one not past its count.
\<close>

definition quest_inv :: "Step list \<Rightarrow> int \<times> int list \<Rightarrow> bool" where
  "quest_inv steps q \<longleftrightarrow> length (snd q) = length steps \<and> 0 \<le> fst q \<and> fst q < int (length steps) \<and>
     (\<forall>i < nat (fst q). snd q ! i = qs_Count (steps ! i)) \<and>
     0 \<le> snd q ! nat (fst q) \<and> snd q ! nat (fst q) \<le> qs_Count (steps ! nat (fst q)) \<and>
     (\<forall>i < length steps. nat (fst q) < i \<longrightarrow> snd q ! i = 0)"

definition steps_ok :: "Step list \<Rightarrow> bool" where
  "steps_ok steps \<longleftrightarrow> steps \<noteq> [] \<and> list_all (\<lambda>s. 0 < qs_Count s \<and> in32 (qs_Count s)) steps \<and>
     int (length steps) < 2 ^ 31"

lemma steps_ok_nth: "steps_ok steps \<Longrightarrow> i < length steps \<Longrightarrow> 0 < qs_Count (steps ! i) \<and> in32 (qs_Count (steps ! i))"
  by (auto simp: steps_ok_def list_all_length)

lemma quest_inv_start: "steps_ok steps \<Longrightarrow> quest_inv steps (0, replicate (length steps) 0)"
  using steps_ok_nth [of steps 0] by (auto simp: quest_inv_def steps_ok_def)

definition event_applies :: "Step list \<Rightarrow> int \<times> int list \<Rightarrow> QEvent \<Rightarrow> bool" where
  "event_applies steps q ev \<longleftrightarrow>
     qs_Type (steps ! nat (fst q)) = ev_type ev \<and> qs_Target (steps ! nat (fst q)) = ev_target ev \<and>
     snd q ! nat (fst q) < qs_Count (steps ! nat (fst q))"

lemma adv_unmatched:
  "quest_inv steps q \<Longrightarrow> \<not> event_applies steps q ev \<Longrightarrow>
   adv steps q ev = \<lparr>adv_progress = snd q, adv_step = fst q, adv_stepCompleted = False,
                     adv_questCompleted = False, adv_matched = False\<rparr>"
  by (auto simp: adv_def quest_Advance_def quest_inv_def event_applies_def Let_def)

lemma adv_matched:
  assumes "quest_inv steps q" "event_applies steps q ev"
    and "i = nat (fst q)" "n = min (qs_Count (steps ! i)) (snd q ! i + ev_amount ev)"
    and "in32 (snd q ! i + ev_amount ev)" "int (length steps) < 2 ^ 31"
  shows "adv steps q ev = \<lparr>adv_progress = (snd q)[i := n],
     adv_step = (if n = qs_Count (steps ! i) \<and> i \<noteq> length steps - 1 then fst q + 1 else fst q),
     adv_stepCompleted = (n = qs_Count (steps ! i)),
     adv_questCompleted = (n = qs_Count (steps ! i) \<and> i = length steps - 1), adv_matched = True\<rparr>"
proof -
  have last: "(fst q = int (length steps) - 1) = (i = length steps - 1)"
    using assms(1,3) by (auto simp: quest_inv_def)
  have w: "wrap32 (fst q + 1) = fst q + 1" using assms(1,6) by (auto simp: quest_inv_def wrap32_id in32_def)
  have n: "(if wrap32 (snd q ! i + ev_amount ev) > qs_Count (steps ! i) then qs_Count (steps ! i)
            else wrap32 (snd q ! i + ev_amount ev)) = n"
    using assms(4,5) by (auto simp: wrap32_id)
  have le: "(n \<ge> qs_Count (steps ! i)) = (n = qs_Count (steps ! i))" using assms(4) by auto
  have g: "\<not> (fst q < 0 \<or> fst q \<ge> int (length steps) \<or> fst q \<ge> int (length (snd q)))"
    using assms(1) by (auto simp: quest_inv_def)
  show ?thesis
    unfolding adv_def quest_Advance_def
    using assms(2) g unfolding event_applies_def assms(3) [symmetric] Let_def
    by (simp only: if_False if_True de_Morgan_disj not_le n le last w simp_thms) auto
qed

lemma quest_inv_advance:
  assumes "quest_inv steps q" "i = nat (fst q)" "0 \<le> n" "n \<le> qs_Count (steps ! i)"
  shows "quest_inv steps (fst q, (snd q)[i := n])"
    and "n = qs_Count (steps ! i) \<Longrightarrow> i \<noteq> length steps - 1 \<Longrightarrow> steps_ok steps \<Longrightarrow>
         quest_inv steps (fst q + 1, (snd q)[i := n])"
proof -
  show "quest_inv steps (fst q, (snd q)[i := n])"
    using assms by (auto simp: quest_inv_def nth_list_update)
  assume n: "n = qs_Count (steps ! i)" and l: "i \<noteq> length steps - 1" and ok: "steps_ok steps"
  have i: "i < length steps" "nat (fst q + 1) = Suc i" using assms(1,2) by (auto simp: quest_inv_def)
  then have "Suc i < length steps" using l by linarith
  with steps_ok_nth [OF ok, of "Suc i"] show "quest_inv steps (fst q + 1, (snd q)[i := n])"
    using assms(1,2) n i by (auto simp: quest_inv_def nth_list_update less_Suc_eq)
qed

lemma quest_complete_iff:
  assumes "quest_inv steps q" "steps_ok steps" "i = nat (fst q)"
  shows "(n = qs_Count (steps ! i) \<and> i = length steps - 1) \<longleftrightarrow>
         (\<forall>j < length steps. (snd q)[i := n] ! j = qs_Count (steps ! j))" (is "?L \<longleftrightarrow> ?R")
proof
  assume ?L
  then show ?R using assms by (auto simp: quest_inv_def nth_list_update)
next
  assume R: ?R
  have i: "i < length steps" "length (snd q) = length steps" using assms(1,3) by (auto simp: quest_inv_def)
  then have n: "n = qs_Count (steps ! i)" using R by auto
  have "i = length steps - 1"
  proof (rule ccontr)
    assume "i \<noteq> length steps - 1"
    then have lt: "i < length steps - 1" "length steps - 1 < length steps" using i by auto
    then have "snd q ! (length steps - 1) = 0" using assms(1,3) by (auto simp: quest_inv_def)
    moreover have "snd q ! (length steps - 1) = qs_Count (steps ! (length steps - 1))"
      using R lt by (auto simp: nth_list_update)
    ultimately show False using steps_ok_nth [OF assms(2), of "length steps - 1"] lt by auto
  qed
  with n show ?L by simp
qed

text \<open>The invariant is kept, and with it every counter stays within its type.\<close>

lemma quest_inv_adv:
  assumes "steps_ok steps" "quest_inv steps q" "0 \<le> ev_amount ev" "in32 (snd q ! nat (fst q) + ev_amount ev)"
  shows "quest_inv steps (adv_step (adv steps q ev), adv_progress (adv steps q ev))"
proof (cases "event_applies steps q ev")
  case False
  with adv_unmatched [OF assms(2)] assms(2) show ?thesis by simp
next
  case True
  let ?i = "nat (fst q)"
  let ?n = "min (qs_Count (steps ! ?i)) (snd q ! ?i + ev_amount ev)"
  have n: "0 \<le> ?n" "?n \<le> qs_Count (steps ! ?i)" using assms(2,3) by (auto simp: quest_inv_def)
  have "int (length steps) < 2 ^ 31" using assms(1) by (simp add: steps_ok_def)
  note m = adv_matched [OF assms(2) True refl refl assms(4) this]
  show ?thesis using quest_inv_advance [OF assms(2) refl n] assms(1) by (auto simp: m)
qed

lemma quest_inv_in32:
  assumes "steps_ok steps" "quest_inv steps q"
  shows "list_all in32 (snd q)"
  unfolding list_all_length
proof (intro allI impI)
  fix j
  assume "j < length (snd q)"
  then have j: "j < length steps" using assms(2) by (simp add: quest_inv_def)
  have c: "0 < qs_Count (steps ! j)" "in32 (qs_Count (steps ! j))" using steps_ok_nth [OF assms(1) j] by auto
  have i: "nat (fst q) < length steps" using assms(2) by (auto simp: quest_inv_def)
  have ci: "in32 (qs_Count (steps ! nat (fst q)))" using steps_ok_nth [OF assms(1) i] by auto
  consider "j < nat (fst q)" | "j = nat (fst q)" | "nat (fst q) < j" by linarith
  then show "in32 (snd q ! j)"
    using assms(2) c ci j by cases (auto simp: quest_inv_def in32_def)
qed



end
