(* ===== verification/Vitals.thy ===== *)
theory Vitals
  imports Float64
begin

section \<open>Health and mana pools: gamekit/vitals and backend/platform/session\<close>

text \<open>
  Every method of \<open>vitals.Registry\<close> runs under its mutex from the first to the last line, so
  concurrent callers are an interleaving of whole operations: a list of \<open>VOp\<close>. The session
  registry of the backend is an adapter over the same operations.
\<close>

record Pool =
  pl_EntityID :: int
  pl_CurrentHP :: f64
  pl_MaxHP :: f64
  pl_CurrentMP :: f64
  pl_MaxMP :: f64
  pl_Dead :: bool

type_synonym Vitals = "int \<rightharpoonup> Pool"

definition vitals_NewRegistry :: Vitals where
  "vitals_NewRegistry = Map.empty"

definition vitals_Start :: "Vitals \<Rightarrow> int \<Rightarrow> f64 \<Rightarrow> f64 \<Rightarrow> Pool \<times> Vitals" where
  "vitals_Start r entityID maxHP maxMP =
     (let p = \<lparr>pl_EntityID = entityID, pl_CurrentHP = maxHP, pl_MaxHP = maxHP,
               pl_CurrentMP = maxMP, pl_MaxMP = maxMP, pl_Dead = False\<rparr>
      in (p, r(entityID \<mapsto> p)))"

definition vitals_Get :: "Vitals \<Rightarrow> int \<Rightarrow> Pool option" where
  "vitals_Get r entityID = r entityID"

definition vitals_End :: "Vitals \<Rightarrow> int \<Rightarrow> Vitals" where
  "vitals_End r entityID = r(entityID := None)"

definition DeductAndReserveKill :: "Vitals \<Rightarrow> int \<Rightarrow> f64 \<Rightarrow> (f64 \<times> bool \<times> bool) \<times> Vitals" where
  "DeductAndReserveKill r entityID amount = (case r entityID of
     None \<Rightarrow> ((Fin 0, False, False), r)
   | Some p \<Rightarrow>
       if pl_Dead p then ((Fin 0, True, False), r)
       else let hp = fsub (pl_CurrentHP p) amount in
         if fle hp (Fin 0)
         then ((Fin 0, True, True), r(entityID \<mapsto> p\<lparr>pl_CurrentHP := Fin 0, pl_Dead := True\<rparr>))
         else ((hp, False, False), r(entityID \<mapsto> p\<lparr>pl_CurrentHP := hp\<rparr>)))"

definition vitals_DeductHP :: "Vitals \<Rightarrow> int \<Rightarrow> f64 \<Rightarrow> (f64 \<times> bool) \<times> Vitals" where
  "vitals_DeductHP r entityID amount = (case r entityID of
     None \<Rightarrow> ((Fin 0, False), r)
   | Some p \<Rightarrow>
       if pl_Dead p then ((Fin 0, True), r)
       else let hp = fsub (pl_CurrentHP p) amount in
         if fle hp (Fin 0)
         then ((Fin 0, True), r(entityID \<mapsto> p\<lparr>pl_CurrentHP := Fin 0, pl_Dead := True\<rparr>))
         else ((hp, False), r(entityID \<mapsto> p\<lparr>pl_CurrentHP := hp\<rparr>)))"

definition vitals_Heal :: "Vitals \<Rightarrow> int \<Rightarrow> f64 \<Rightarrow> (f64 \<times> bool) \<times> Vitals" where
  "vitals_Heal r entityID amount = (case r entityID of
     None \<Rightarrow> ((Fin 0, False), r)
   | Some p \<Rightarrow>
       if pl_Dead p then ((Fin 0, False), r)
       else let hp = fadd (pl_CurrentHP p) amount;
                hp = (if flt (pl_MaxHP p) hp then pl_MaxHP p else hp)
            in ((hp, True), r(entityID \<mapsto> p\<lparr>pl_CurrentHP := hp\<rparr>)))"

definition vitals_SpendMP :: "Vitals \<Rightarrow> int \<Rightarrow> f64 \<Rightarrow> bool \<times> Vitals" where
  "vitals_SpendMP r entityID amount = (case r entityID of
     None \<Rightarrow> (False, r)
   | Some p \<Rightarrow> if flt (pl_CurrentMP p) amount then (False, r)
               else (True, r(entityID \<mapsto> p\<lparr>pl_CurrentMP := fsub (pl_CurrentMP p) amount\<rparr>)))"

definition vitals_Revive :: "Vitals \<Rightarrow> int \<Rightarrow> bool \<times> Vitals" where
  "vitals_Revive r entityID = (case r entityID of
     None \<Rightarrow> (False, r)
   | Some p \<Rightarrow> (True, r(entityID \<mapsto> p\<lparr>pl_CurrentHP := pl_MaxHP p, pl_Dead := False\<rparr>)))"

subsection \<open>Interleavings\<close>

datatype VOp =
    VStart int f64 f64
  | VEnd int
  | VAttack int f64
  | VDeduct int f64
  | VHeal int f64
  | VSpend int f64
  | VRevive int

text \<open>The state after an operation.\<close>

fun vitals_step :: "VOp \<Rightarrow> Vitals \<Rightarrow> Vitals" where
  "vitals_step (VStart k hp mp) r = snd (vitals_Start r k hp mp)"
| "vitals_step (VEnd k) r = vitals_End r k"
| "vitals_step (VAttack k a) r = snd (DeductAndReserveKill r k a)"
| "vitals_step (VDeduct k a) r = snd (vitals_DeductHP r k a)"
| "vitals_step (VHeal k a) r = snd (vitals_Heal r k a)"
| "vitals_step (VSpend k a) r = snd (vitals_SpendMP r k a)"
| "vitals_step (VRevive k) r = snd (vitals_Revive r k)"

text \<open>The number of calls in an interleaving that were told they landed the kill on \<open>k\<close>.\<close>

fun kill_credit :: "int \<Rightarrow> VOp \<Rightarrow> Vitals \<Rightarrow> bool" where
  "kill_credit k (VAttack j a) r = (j = k \<and> snd (snd (fst (DeductAndReserveKill r j a))))"
| "kill_credit k _ r = False"

fun kills :: "int \<Rightarrow> VOp list \<Rightarrow> Vitals \<Rightarrow> nat" where
  "kills k [] r = 0"
| "kills k (op # ops) r = (if kill_credit k op r then 1 else 0) + kills k ops (vitals_step op r)"

fun brings_to_life :: "int \<Rightarrow> VOp \<Rightarrow> bool" where
  "brings_to_life k (VStart j _ _) = (j = k)"
| "brings_to_life k (VRevive j) = (j = k)"
| "brings_to_life k _ = False"

definition alive :: "Vitals \<Rightarrow> int \<Rightarrow> bool" where
  "alive r k \<longleftrightarrow> (case r k of None \<Rightarrow> False | Some p \<Rightarrow> \<not> pl_Dead p)"

lemmas vitals_defs = vitals_Start_def vitals_End_def DeductAndReserveKill_def vitals_DeductHP_def
  vitals_Heal_def vitals_SpendMP_def vitals_Revive_def

lemma alive_step: "alive (vitals_step op r) k \<Longrightarrow> alive r k \<or> brings_to_life k op"
  by (cases op) (auto simp: vitals_defs alive_def Let_def split: option.splits if_splits)

lemma kill_credit_alive:
  "kill_credit k op r \<Longrightarrow> alive r k \<and> \<not> alive (vitals_step op r) k \<and> \<not> brings_to_life k op"
  by (cases op) (auto simp: vitals_defs alive_def Let_def split: option.splits if_splits)

lemma kills_bound:
  "kills k ops r \<le> (if alive r k then 1 else 0) + length (filter (brings_to_life k) ops)"
proof (induction ops arbitrary: r)
  case (Cons op ops)
  show ?case using Cons.IH [of "vitals_step op r"] alive_step [of op r k] kill_credit_alive [of k op r]
    by (auto split: if_splits)
qed simp

lemma attack_alive:
  "alive r k \<Longrightarrow> alive (vitals_step (VAttack j a) r) k \<longleftrightarrow> \<not> kill_credit k (VAttack j a) r"
  by (auto simp: vitals_defs alive_def Let_def split: option.splits if_splits)

lemma kills_attacks:
  assumes "alive r k" "ops = map (\<lambda>(j, a). VAttack j a) hits"
  shows "kills k ops r = (if alive (fold vitals_step ops r) k then 0 else 1)"
  using assms
proof (induction hits arbitrary: ops r)
  case (Cons h hits)
  obtain j a where h: "h = (j, a)" by fastforce
  let ?ops = "map (\<lambda>(j, a). VAttack j a) hits" and ?r = "vitals_step (VAttack j a) r"
  have dead: "\<not> alive (fold vitals_step (map (\<lambda>(j, a). VAttack j a) hs) s) k" if "\<not> alive s k" for hs s
    using that
  proof (induction hs arbitrary: s)
    case (Cons g hs)
    then show ?case using alive_step [of "VAttack (fst g) (snd g)" s k] by (cases g) auto
  qed simp
  show ?case
  proof (cases "alive ?r k")
    case True
    with Cons.IH [OF True refl] Cons.prems attack_alive [of r k j a] h show ?thesis by simp
  next
    case False
    have "length (filter (brings_to_life k) ?ops) = 0" by (auto simp: filter_empty_conv)
    with kills_bound [of k ?ops ?r] False have "kills k ?ops ?r = 0" by simp
    with False Cons.prems attack_alive [of r k j a] h dead [OF False, of hits] show ?thesis by simp
  qed
qed simp

text \<open>
  C3: kill credit is handed out at most once per life. In every interleaving of registry calls,
  whatever the amounts (NaN and infinities included), the number of callers told that they
  landed the kill on an entity is at most the number of times it was started or revived, plus one
  if it was alive before; and when the calls are all attacks on a registry where the entity is
  alive, exactly one caller is credited if it ends up dead and none otherwise.
\<close>

theorem vitals_one_kill_per_life:
  "kills k ops r \<le> (if alive r k then 1 else 0) + length (filter (brings_to_life k) ops) \<and>
   (alive r k \<and> (\<exists>hits. ops = map (\<lambda>(j, a). VAttack j a) hits) \<longrightarrow>
      kills k ops r = (if alive (fold vitals_step ops r) k then 0 else 1))"
  using kills_bound kills_attacks by blast

theorem vitals_one_kill_per_life_witness:
  "kills 5 [VAttack 5 (Fin 60), VAttack 5 (Fin 60), VAttack 5 (Fin 60)]
     (vitals_step (VStart 5 (Fin 100) (Fin 0)) vitals_NewRegistry) = 1"
proof -
  let ?r = "vitals_step (VStart 5 (Fin 100) (Fin 0)) vitals_NewRegistry"
  let ?ops = "[VAttack 5 (Fin 60), VAttack 5 (Fin 60), VAttack 5 (Fin 60)]"
  have a: "alive ?r 5" by (simp add: vitals_Start_def alive_def Let_def)
  have m: "\<exists>hits. ?ops = map (\<lambda>(j, a). VAttack j a) hits"
    by (rule exI [of _ "[(5, Fin 60), (5, Fin 60), (5, Fin 60)]"]) simp
  have "\<not> alive (fold vitals_step ?ops ?r) 5" by (simp add: vitals_defs alive_def fsub_def Let_def)
  with vitals_one_kill_per_life [of 5 ?ops ?r] a m show ?thesis by simp
qed

subsection \<open>The pool invariant\<close>

text \<open>
  A pool is sound when its maxima and current values are finite, non-negative and representable,
  no current value exceeds its maximum, and the dead have no health.
\<close>

definition gauge_ok :: "f64 \<Rightarrow> f64 \<Rightarrow> bool" where
  "gauge_ok cur mx \<longleftrightarrow> (case (cur, mx) of
     (Fin c, Fin m) \<Rightarrow> 0 \<le> c \<and> c \<le> m \<and> f64_ok (Fin c) \<and> f64_ok (Fin m) | _ \<Rightarrow> False)"

definition pool_ok :: "Pool \<Rightarrow> bool" where
  "pool_ok p \<longleftrightarrow> gauge_ok (pl_CurrentHP p) (pl_MaxHP p) \<and> gauge_ok (pl_CurrentMP p) (pl_MaxMP p) \<and>
     (pl_Dead p \<longrightarrow> pl_CurrentHP p = Fin 0)"

definition vitals_ok :: "Vitals \<Rightarrow> bool" where
  "vitals_ok r \<longleftrightarrow> (\<forall>k p. r k = Some p \<longrightarrow> pool_ok p)"

definition amount_ok :: "f64 \<Rightarrow> bool" where
  "amount_ok a \<longleftrightarrow> (case a of Fin x \<Rightarrow> 0 \<le> x \<and> f64_ok (Fin x) | _ \<Rightarrow> False)"

fun op_ok :: "VOp \<Rightarrow> bool" where
  "op_ok (VStart _ hp mp) = (amount_ok hp \<and> amount_ok mp)"
| "op_ok (VAttack _ a) = amount_ok a"
| "op_ok (VDeduct _ a) = amount_ok a"
| "op_ok (VHeal _ a) = amount_ok a"
| "op_ok (VSpend _ a) = amount_ok a"
| "op_ok _ = True"

lemma gauge_okE:
  assumes "gauge_ok cur mx"
  obtains c m where "cur = Fin c" "mx = Fin m" "0 \<le> c" "c \<le> m" "f64_ok (Fin c)" "f64_ok (Fin m)"
  using assms by (auto simp: gauge_ok_def split: f64.splits)

lemma gauge_full: "amount_ok m \<Longrightarrow> gauge_ok m m"
  by (auto simp: amount_ok_def gauge_ok_def split: f64.splits)

lemma gauge_refill: "gauge_ok c m \<Longrightarrow> gauge_ok m m"
  by (auto simp: gauge_ok_def split: f64.splits)

lemma gauge_zero: "gauge_ok c m \<Longrightarrow> gauge_ok (Fin 0) m"
  by (auto simp: gauge_ok_def f64_ok_def split: f64.splits)

lemma gauge_sub:
  assumes "gauge_ok c m" "amount_ok a" "fle (Fin 0) (fsub c a)"
  shows "gauge_ok (fsub c a) m"
proof -
  from assms(1) obtain x y where xy: "c = Fin x" "m = Fin y" "0 \<le> x" "x \<le> y" "f64_ok (Fin x)" "f64_ok (Fin y)"
    by (rule gauge_okE)
  from assms(2) obtain b where b: "a = Fin b" "0 \<le> b" "f64_ok (Fin b)"
    by (auto simp: amount_ok_def split: f64.splits)
  obtain r where r: "fsub (Fin x) (Fin b) = Fin r" "r \<le> x" "f64_ok (Fin r)"
    using fsub_Fin_finite [OF xy(5,3) b(3,2)] by blast
  with assms(3) xy b show ?thesis by (simp add: gauge_ok_def)
qed

lemma gauge_sub_pos:
  "gauge_ok c m \<Longrightarrow> amount_ok a \<Longrightarrow> \<not> fle (fsub c a) (Fin 0) \<Longrightarrow> gauge_ok (fsub c a) m"
proof (rule gauge_sub)
  assume c: "gauge_ok c m" and a: "amount_ok a" and n: "\<not> fle (fsub c a) (Fin 0)"
  from c obtain x where x: "c = Fin x" "0 \<le> x" "f64_ok (Fin x)" by (rule gauge_okE)
  from a obtain b where b: "a = Fin b" "0 \<le> b" "f64_ok (Fin b)"
    by (auto simp: amount_ok_def split: f64.splits)
  obtain r where "fsub (Fin x) (Fin b) = Fin r" using fsub_Fin_finite [OF x(3,2) b(3,2)] by blast
  with n x b show "fle (Fin 0) (fsub c a)" by simp
qed

lemma gauge_spend:
  "gauge_ok c m \<Longrightarrow> amount_ok a \<Longrightarrow> \<not> flt c a \<Longrightarrow> gauge_ok (fsub c a) m"
proof (rule gauge_sub)
  assume c: "gauge_ok c m" and a: "amount_ok a" and n: "\<not> flt c a"
  from c obtain x where x: "c = Fin x" by (rule gauge_okE)
  from a obtain b where b: "a = Fin b" by (auto simp: amount_ok_def split: f64.splits)
  have "fle (rnd 0) (rnd (x - b))" using n x b by (intro rnd_mono) simp
  then show "fle (Fin 0) (fsub c a)" using x b by (simp add: fsub_def)
qed

lemma gauge_heal:
  assumes "gauge_ok c m" "amount_ok a" "\<not> flt m (fadd c a)"
  shows "gauge_ok (fadd c a) m"
proof -
  define hp where "hp = fadd c a"
  from assms(1) obtain x y where xy: "c = Fin x" "m = Fin y" "0 \<le> x" "x \<le> y" "f64_ok (Fin x)" "f64_ok (Fin y)"
    by (rule gauge_okE)
  from assms(2) obtain b where b: "a = Fin b" "0 \<le> b" by (auto simp: amount_ok_def split: f64.splits)
  have le: "fle (Fin x) hp" using fadd_Fin_ge [OF xy(5) b(2)] xy b by (simp add: hp_def)
  have ok: "f64_ok hp" by (simp add: hp_def)
  have "gauge_ok hp m" using le ok xy assms(3) [folded hp_def] by (cases hp) (auto simp: gauge_ok_def)
  then show ?thesis by (simp add: hp_def)
qed

text \<open>
  C4: with finite non-negative amounts, every operation of the registry keeps every pool sound:
  health and mana stay between zero and their maximum whatever rounding does, and the dead have
  no health; hence so does every interleaving of operations, from the empty registry on.
\<close>

theorem vitals_invariant:
  "list_all op_ok ops \<Longrightarrow> vitals_ok r \<Longrightarrow> vitals_ok (fold vitals_step ops r)"
proof (induction ops arbitrary: r)
  case (Cons op ops)
  have "vitals_ok (vitals_step op r)"
  proof (cases op)
    case (VStart k hp mp)
    with Cons.prems show ?thesis by (auto simp: vitals_ok_def vitals_Start_def pool_ok_def gauge_full Let_def split: if_splits)
  next
    case (VEnd k)
    with Cons.prems show ?thesis by (auto simp: vitals_ok_def vitals_End_def)
  next
    case (VAttack k a)
    with Cons.prems show ?thesis
      by (auto simp: vitals_ok_def DeductAndReserveKill_def pool_ok_def Let_def
          intro: gauge_zero gauge_sub_pos split: option.splits if_splits)
  next
    case (VDeduct k a)
    with Cons.prems show ?thesis
      by (auto simp: vitals_ok_def vitals_DeductHP_def pool_ok_def Let_def
          intro: gauge_zero gauge_sub_pos split: option.splits if_splits)
  next
    case (VHeal k a)
    with Cons.prems show ?thesis
      by (auto simp: vitals_ok_def vitals_Heal_def pool_ok_def Let_def
          intro: gauge_heal gauge_refill split: option.splits if_splits)
  next
    case (VSpend k a)
    with Cons.prems show ?thesis
      by (auto simp: vitals_ok_def vitals_SpendMP_def pool_ok_def intro: gauge_spend split: option.splits if_splits)
  next
    case (VRevive k)
    with Cons.prems show ?thesis
      by (auto simp: vitals_ok_def vitals_Revive_def pool_ok_def intro: gauge_refill split: option.splits if_splits)
  qed
  with Cons show ?case by simp
qed simp

theorem vitals_invariant_witness:
  "vitals_ok (fold vitals_step [VStart 5 (Fin 100) (Fin 20), VAttack 5 (Fin 30), VHeal 5 (Fin 50), VSpend 5 (Fin 7)]
     vitals_NewRegistry)"
  by (rule vitals_invariant) (simp_all add: amount_ok_def f64_ok_def vitals_ok_def vitals_NewRegistry_def)

subsection \<open>The session registry\<close>

text \<open>\<open>session.Registry\<close> renames the pool's fields and delegates every method.\<close>

record CharacterSession =
  cs_CharacterID :: int
  cs_CurrentHP :: f64
  cs_MaxHP :: f64
  cs_CurrentMP :: f64
  cs_MaxMP :: f64
  cs_IsDead :: bool

definition toSession :: "Pool \<Rightarrow> CharacterSession" where
  "toSession p = \<lparr>cs_CharacterID = pl_EntityID p, cs_CurrentHP = pl_CurrentHP p, cs_MaxHP = pl_MaxHP p,
     cs_CurrentMP = pl_CurrentMP p, cs_MaxMP = pl_MaxMP p, cs_IsDead = pl_Dead p\<rparr>"

definition StartSession :: "Vitals \<Rightarrow> int \<Rightarrow> f64 \<Rightarrow> f64 \<Rightarrow> CharacterSession \<times> Vitals" where
  "StartSession r charID maxHP maxMP = (case vitals_Start r charID maxHP maxMP of (p, r') \<Rightarrow> (toSession p, r'))"

definition GetSession :: "Vitals \<Rightarrow> int \<Rightarrow> CharacterSession option" where
  "GetSession r charID = map_option toSession (vitals_Get r charID)"

definition DeductHPAndReserveKill :: "Vitals \<Rightarrow> int \<Rightarrow> f64 \<Rightarrow> (f64 \<times> bool \<times> bool) \<times> Vitals" where
  "DeductHPAndReserveKill r charID amount = DeductAndReserveKill r charID amount"

definition session_SpendMP :: "Vitals \<Rightarrow> int \<Rightarrow> f64 \<Rightarrow> bool \<times> Vitals" where
  "session_SpendMP r charID amount = vitals_SpendMP r charID amount"

definition session_Revive :: "Vitals \<Rightarrow> int \<Rightarrow> bool \<times> Vitals" where
  "session_Revive r charID = vitals_Revive r charID"

definition EndSession :: "Vitals \<Rightarrow> int \<Rightarrow> Vitals" where
  "EndSession r charID = vitals_End r charID"

definition session_DeductHP :: "Vitals \<Rightarrow> int \<Rightarrow> f64 \<Rightarrow> (f64 \<times> bool) \<times> Vitals" where
  "session_DeductHP r charID amount = vitals_DeductHP r charID amount"

definition session_Heal :: "Vitals \<Rightarrow> int \<Rightarrow> f64 \<Rightarrow> (f64 \<times> bool) \<times> Vitals" where
  "session_Heal r charID amount = vitals_Heal r charID amount"

end
