(* ===== verification/Combat.thy ===== *)
theory Combat
  imports Vitals Hooks
begin

section \<open>Combat: backend/game/creature, backend/game/skills, backend/game/combat\<close>

text \<open>
  The whole of \<open>ExecuteAttack\<close> and its four phases over the session registry. The stat engine
  (a foreign library) is the argument \<open>calc\<close>; the creature resolver, the skill resolver and the
  kill rewarder are interfaces of the package and arguments too. \<open>'w\<close> is the state the hooks and
  the rewarder own; what is published on the bus is a trace.
\<close>

subsection \<open>Creatures and their resolvers\<close>

datatype Kind = KindCharacter | KindMob | KindPet

record Creature =
  cr_ID :: int
  cr_Kind :: Kind
  cr_Class :: string
  cr_Level :: int
  cr_Attack :: f64
  cr_Defense :: f64
  cr_Dex :: f64
  cr_CritRate :: f64
  cr_CritDmg :: f64
  cr_MaxHP :: f64
  cr_MaxMP :: f64
  cr_LootTableID :: string
  cr_QuestTag :: string

type_synonym Resolver = "int \<Rightarrow> Creature option result"

record MobDef =
  md_Level :: int
  md_Defense :: f64
  md_Dex :: f64
  md_MaxHP :: f64
  md_MaxMP :: f64
  md_LootTableID :: string
  md_QuestTag :: string

text \<open>The mob pack is keyed by the decimal form of the id, which determines the id.\<close>

definition mob_Resolve :: "(int \<rightharpoonup> MobDef) \<Rightarrow> Resolver" where
  "mob_Resolve mobs i = Inr (case mobs i of
     None \<Rightarrow> None
   | Some d \<Rightarrow> Some \<lparr>cr_ID = i, cr_Kind = KindMob, cr_Class = [], cr_Level = md_Level d, cr_Attack = Fin 0,
       cr_Defense = md_Defense d, cr_Dex = md_Dex d, cr_CritRate = Fin 0, cr_CritDmg = Fin 0,
       cr_MaxHP = md_MaxHP d, cr_MaxMP = md_MaxMP d, cr_LootTableID = md_LootTableID d,
       cr_QuestTag = md_QuestTag d\<rparr>)"

fun composite_Resolve :: "Resolver list \<Rightarrow> Resolver" where
  "composite_Resolve [] i = Inr None"
| "composite_Resolve (r # rs) i = (case r i of
     Inl e \<Rightarrow> Inl e
   | Inr (Some c) \<Rightarrow> Inr (Some c)
   | Inr None \<Rightarrow> composite_Resolve rs i)"

subsection \<open>Requests, results and events\<close>

record SkillEffect =
  se_Multiplier :: f64
  se_FlatDamage :: f64
  se_ManaCost :: f64
  se_ClassReq :: string

record AttackRequest =
  aq_AttackerID :: int
  aq_DefenderID :: int
  aq_SkillID :: string

record PreAttack =
  pa_AttackerID :: int
  pa_DefenderID :: int
  pa_SkillID :: string

record DamageFilter =
  df_AttackerID :: int
  df_DefenderID :: int
  df_IsCrit :: bool
  df_Damage :: int

record CombatStats =
  ct_Level :: int
  ct_Attack :: f64
  ct_Defense :: f64
  ct_Dex :: f64
  ct_CritRate :: f64
  ct_CritDamageBonus :: f64

record CalculateDamageReq =
  cq_Attacker :: CombatStats
  cq_Defender :: CombatStats
  cq_SkillMultiplier :: f64
  cq_SkillFlatDamage :: f64

record DamageResult =
  dr_IsHit :: bool
  dr_Damage :: int
  dr_IsCrit :: bool

record DroppedItem =
  di_ItemDefinitionID :: string
  di_Quantity :: int

record AttackResult =
  ar_AttackerID :: int
  ar_DefenderID :: int
  ar_IsHit :: bool
  ar_Damage :: int
  ar_IsCrit :: bool
  ar_DefenderHP :: f64
  ar_DefenderMaxHP :: f64
  ar_DefenderIsDead :: bool
  ar_Loot :: "DroppedItem list"

datatype CombatEvent =
    CharacterDamaged int int f64 bool
  | CombatAttackResolved AttackResult
  | MobKilled int int string
  | PlayerKilled int int

abbreviation "ErrAttackerNotFound \<equiv> Sentinel ''combat.ErrAttackerNotFound''"
abbreviation "ErrDefenderNotFound \<equiv> Sentinel ''combat.ErrDefenderNotFound''"
abbreviation "ErrAttackerDead \<equiv> Sentinel ''combat.ErrAttackerDead''"
abbreviation "ErrDefenderDead \<equiv> Sentinel ''combat.ErrDefenderDead''"
abbreviation "ErrUnknownSkill \<equiv> Sentinel ''combat.ErrUnknownSkill''"
abbreviation "ErrSkillClassMismatch \<equiv> Sentinel ''combat.ErrSkillClassMismatch''"
abbreviation "ErrNotEnoughMana \<equiv> Sentinel ''combat.ErrNotEnoughMana''"
abbreviation "HookPreAttack \<equiv> ''combat.pre_attack''"
abbreviation "HookDamage \<equiv> ''combat.damage''"

text \<open>The service's collaborators; \<open>None\<close> for a nil one.\<close>

record 'w CombatSvc =
  cm_creatures :: Resolver
  cm_statClient :: "CalculateDamageReq \<Rightarrow> DamageResult result"
  cm_rewarder :: "(int \<Rightarrow> int \<Rightarrow> 'w \<Rightarrow> DroppedItem list \<times> 'w) option"
  cm_eventBus :: bool
  cm_hooks :: "(DamageFilter filter_any, (PreAttack, 'w) action_any) Hooks option"
  cm_skills :: "(string \<Rightarrow> SkillEffect option) option"

record 'w CombatState =
  cb_registry :: Vitals
  cb_events :: "CombatEvent list"
  cb_world :: 'w

definition combat_publish :: "'w CombatSvc \<Rightarrow> CombatEvent \<Rightarrow> 'w CombatState \<Rightarrow> 'w CombatState" where
  "combat_publish svc ev s = (if cm_eventBus svc then s\<lparr>cb_events := cb_events s @ [ev]\<rparr> else s)"

subsection \<open>The phases\<close>

definition resolveAttackerAndSkill ::
  "'w CombatSvc \<Rightarrow> AttackRequest \<Rightarrow> 'w CombatState \<Rightarrow> (Creature \<times> f64 \<times> f64) result \<times> 'w CombatState" where
  "resolveAttackerAndSkill svc req s = (case cm_creatures svc (aq_AttackerID req) of
     Inl _ \<Rightarrow> (Inl ErrAttackerNotFound, s)
   | Inr None \<Rightarrow> (Inl ErrAttackerNotFound, s)
   | Inr (Some attacker) \<Rightarrow>
      if (case GetSession (cb_registry s) (aq_AttackerID req) of None \<Rightarrow> False | Some x \<Rightarrow> cs_IsDead x)
      then (Inl ErrAttackerDead, s)
      else if aq_SkillID req = [] then (Inr (attacker, Fin 0, Fin 0), s)
      else (case cm_skills svc of
         None \<Rightarrow> (Inl ErrUnknownSkill, s)
       | Some skills \<Rightarrow> (case skills (aq_SkillID req) of
           None \<Rightarrow> (Inl ErrUnknownSkill, s)
         | Some eff \<Rightarrow>
             if se_ClassReq eff \<noteq> [] \<and> cr_Class attacker \<noteq> se_ClassReq eff then (Inl ErrSkillClassMismatch, s)
             else if flt (Fin 0) (se_ManaCost eff)
             then (case session_SpendMP (cb_registry s) (aq_AttackerID req) (se_ManaCost eff) of
                 (False, _) \<Rightarrow> (Inl ErrNotEnoughMana, s)
               | (True, reg) \<Rightarrow> (Inr (attacker, se_Multiplier eff, se_FlatDamage eff), s\<lparr>cb_registry := reg\<rparr>))
             else (Inr (attacker, se_Multiplier eff, se_FlatDamage eff), s))))"

definition resolveDefender ::
  "'w CombatSvc \<Rightarrow> int \<Rightarrow> 'w CombatState \<Rightarrow> (Creature \<times> f64 \<times> f64 \<times> bool) result \<times> 'w CombatState" where
  "resolveDefender svc defenderID s = (case cm_creatures svc defenderID of
     Inl _ \<Rightarrow> (Inl ErrDefenderNotFound, s)
   | Inr None \<Rightarrow> (Inl ErrDefenderNotFound, s)
   | Inr (Some defender) \<Rightarrow>
      if cr_Kind defender = KindMob
      then (case GetSession (cb_registry s) defenderID of
          None \<Rightarrow> (case StartSession (cb_registry s) defenderID (cr_MaxHP defender) (cr_MaxMP defender) of
             (x, reg) \<Rightarrow> (Inr (defender, cs_CurrentHP x, cs_MaxHP x, cs_IsDead x), s\<lparr>cb_registry := reg\<rparr>))
        | Some x \<Rightarrow>
            if cs_IsDead x
            then (let reg = snd (session_Revive (cb_registry s) defenderID) in
                  case GetSession reg defenderID of
                    None \<Rightarrow> (Inr (defender, Fin 0, Fin 0, False), s\<lparr>cb_registry := reg\<rparr>)
                  | Some x \<Rightarrow> (Inr (defender, cs_CurrentHP x, cs_MaxHP x, cs_IsDead x), s\<lparr>cb_registry := reg\<rparr>))
            else (Inr (defender, cs_CurrentHP x, cs_MaxHP x, cs_IsDead x), s))
      else (case GetSession (cb_registry s) defenderID of
          None \<Rightarrow> (Inl ErrDefenderNotFound, s)
        | Some x \<Rightarrow> if cs_IsDead x then (Inl ErrDefenderDead, s)
                    else (Inr (defender, cs_CurrentHP x, cs_MaxHP x, cs_IsDead x), s)))"

definition computeDamage ::
  "'w CombatSvc \<Rightarrow> AttackRequest \<Rightarrow> Creature \<Rightarrow> Creature \<Rightarrow> f64 \<Rightarrow> f64 \<Rightarrow> DamageResult result" where
  "computeDamage svc req attacker defender skillMult skillFlat =
     (let calcReq = \<lparr>cq_Attacker = \<lparr>ct_Level = cr_Level attacker, ct_Attack = cr_Attack attacker,
            ct_Defense = Fin 0, ct_Dex = cr_Dex attacker, ct_CritRate = cr_CritRate attacker,
            ct_CritDamageBonus = cr_CritDmg attacker\<rparr>,
          cq_Defender = \<lparr>ct_Level = cr_Level defender, ct_Attack = Fin 0, ct_Defense = cr_Defense defender,
            ct_Dex = cr_Dex defender, ct_CritRate = Fin 0, ct_CritDamageBonus = Fin 0\<rparr>,
          cq_SkillMultiplier = skillMult, cq_SkillFlatDamage = skillFlat\<rparr> in
      case cm_statClient svc calcReq of
        Inl e \<Rightarrow> Inl e
      | Inr res \<Rightarrow>
          let filtered = ApplyFilters (cm_hooks svc) HookDamage
                \<lparr>df_AttackerID = aq_AttackerID req, df_DefenderID = aq_DefenderID req,
                 df_IsCrit = dr_IsCrit res, df_Damage = dr_Damage res\<rparr>;
              dmg = (if df_Damage filtered < 0 then 0 else df_Damage filtered)
          in Inr (res\<lparr>dr_Damage := dmg\<rparr>))"

definition applyDamageAndEvents ::
  "'w CombatSvc \<Rightarrow> AttackRequest \<Rightarrow> Creature \<Rightarrow> DamageResult \<Rightarrow> f64 \<Rightarrow> f64 \<Rightarrow> bool \<Rightarrow>
   'w CombatState \<Rightarrow> AttackResult result \<times> 'w CombatState" where
  "applyDamageAndEvents svc req defender res defenderHP defenderMaxHP defenderIsDead s0 =
     (let (defenderHP, defenderIsDead, killedNow, s1) =
        (if dr_IsHit res
         then (case DeductHPAndReserveKill (cb_registry s0) (aq_DefenderID req) (f64_of_int (dr_Damage res)) of
            ((hp, dead, killed), reg) \<Rightarrow>
              (hp, dead, killed, combat_publish svc
                 (CharacterDamaged (aq_DefenderID req) (dr_Damage res) hp dead) (s0\<lparr>cb_registry := reg\<rparr>)))
         else (defenderHP, defenderIsDead, False, s0));
      (loot, s2) =
        (if killedNow then (case cm_rewarder svc of
            None \<Rightarrow> ([], s1)
          | Some reward \<Rightarrow> (case reward (aq_AttackerID req) (aq_DefenderID req) (cb_world s1) of
               (drops, w) \<Rightarrow> (drops, s1\<lparr>cb_world := w\<rparr>)))
         else ([], s1));
      result = \<lparr>ar_AttackerID = aq_AttackerID req, ar_DefenderID = aq_DefenderID req, ar_IsHit = dr_IsHit res,
         ar_Damage = dr_Damage res, ar_IsCrit = dr_IsCrit res, ar_DefenderHP = defenderHP,
         ar_DefenderMaxHP = defenderMaxHP, ar_DefenderIsDead = defenderIsDead, ar_Loot = loot\<rparr>;
      s3 = combat_publish svc (CombatAttackResolved (result\<lparr>ar_Loot := []\<rparr>)) s2;
      s4 = (if killedNow
            then combat_publish svc (if cr_Kind defender = KindMob
                   then MobKilled (aq_AttackerID req) (aq_DefenderID req) (cr_LootTableID defender)
                   else PlayerKilled (aq_AttackerID req) (aq_DefenderID req)) s3
            else s3)
      in (Inr result, s4))"

definition ExecuteAttack ::
  "'w CombatSvc \<Rightarrow> AttackRequest \<Rightarrow> 'w CombatState \<Rightarrow> AttackResult result \<times> 'w CombatState" where
  "ExecuteAttack svc req s =
     (case DoAction (cm_hooks svc) HookPreAttack \<lparr>pa_AttackerID = aq_AttackerID req,
             pa_DefenderID = aq_DefenderID req, pa_SkillID = aq_SkillID req\<rparr> (cb_world s) of
        (Some e, w) \<Rightarrow> (Inl e, s\<lparr>cb_world := w\<rparr>)
      | (None, w) \<Rightarrow> (case resolveAttackerAndSkill svc req (s\<lparr>cb_world := w\<rparr>) of
          (Inl e, s1) \<Rightarrow> (Inl e, s1)
        | (Inr (attacker, skillMult, skillFlat), s1) \<Rightarrow> (case resolveDefender svc (aq_DefenderID req) s1 of
            (Inl e, s2) \<Rightarrow> (Inl e, s2)
          | (Inr (defender, hp, maxHP, dead), s2) \<Rightarrow>
              (case computeDamage svc req attacker defender skillMult skillFlat of
                 Inl e \<Rightarrow> (Inl e, s2)
               | Inr res \<Rightarrow> applyDamageAndEvents svc req defender res hp maxHP dead s2))))"

subsection \<open>What an attack does\<close>

lemma combat_publish_simps [simp]:
  "cb_registry (combat_publish svc ev s) = cb_registry s"
  "cb_world (combat_publish svc ev s) = cb_world s"
  "cb_events (combat_publish svc ev s) = (if cm_eventBus svc then cb_events s @ [ev] else cb_events s)"
  by (simp_all add: combat_publish_def)

definition health :: "Vitals \<Rightarrow> int \<Rightarrow> (f64 \<times> bool) option" where
  "health r k = map_option (\<lambda>p. (pl_CurrentHP p, pl_Dead p)) (r k)"

lemma alive_health: "alive r k \<longleftrightarrow> (\<exists>hp. health r k = Some (hp, False))"
  by (auto simp: alive_def health_def split: option.splits)

lemmas session_defs = GetSession_def StartSession_def session_Revive_def session_SpendMP_def
  DeductHPAndReserveKill_def vitals_Get_def toSession_def

text \<open>The health the blow is struck at: a mob without a session starts one, a dead one is revived.\<close>

definition struck_hp :: "Vitals \<Rightarrow> Creature \<Rightarrow> int \<Rightarrow> f64" where
  "struck_hp r c d = (case r d of None \<Rightarrow> cr_MaxHP c
     | Some p \<Rightarrow> if pl_Dead p then pl_MaxHP p else pl_CurrentHP p)"

lemma resolveAttacker_frame:
  assumes "resolveAttackerAndSkill svc req s = (r, s')"
  shows "cb_events s' = cb_events s \<and> cb_world s' = cb_world s \<and>
         health (cb_registry s') = health (cb_registry s) \<and>
         struck_hp (cb_registry s') = struck_hp (cb_registry s) \<and> (\<forall>e. r = Inl e \<longrightarrow> s' = s)"
  using assms
  by (auto simp: struck_hp_def resolveAttackerAndSkill_def session_defs vitals_SpendMP_def health_def fun_eq_iff
      split: sum.splits option.splits if_splits)

text \<open>Who may attack: a creature that is not dead, with a skill it knows, may use and can pay.\<close>

definition may_attack :: "'w CombatSvc \<Rightarrow> AttackRequest \<Rightarrow> Vitals \<Rightarrow> bool" where
  "may_attack svc req reg \<longleftrightarrow> (\<exists>a. cm_creatures svc (aq_AttackerID req) = Inr (Some a)
     \<and> (\<forall>hp. health reg (aq_AttackerID req) \<noteq> Some (hp, True))
     \<and> (aq_SkillID req \<noteq> [] \<longrightarrow> (\<exists>skills eff. cm_skills svc = Some skills \<and> skills (aq_SkillID req) = Some eff
          \<and> (se_ClassReq eff = [] \<or> cr_Class a = se_ClassReq eff)
          \<and> (flt (Fin 0) (se_ManaCost eff) \<longrightarrow> fst (session_SpendMP reg (aq_AttackerID req) (se_ManaCost eff))))))"

lemma resolveAttacker_may:
  assumes "resolveAttackerAndSkill svc req s = (Inr x, s')"
  shows "may_attack svc req (cb_registry s)"
proof -
  obtain a where a: "cm_creatures svc (aq_AttackerID req) = Inr (Some a)"
    using assms by (auto simp: resolveAttackerAndSkill_def split: sum.splits option.splits)
  have "\<forall>hp. health (cb_registry s) (aq_AttackerID req) \<noteq> Some (hp, True)"
    using assms a by (auto simp: resolveAttackerAndSkill_def health_def GetSession_def vitals_Get_def toSession_def
        split: option.splits if_splits)
  then show ?thesis using assms a unfolding may_attack_def
    by (auto simp: resolveAttackerAndSkill_def split: option.splits if_splits prod.splits bool.splits)
qed

text \<open>A resolved defender is alive, and only a defender that was not alive has been touched.\<close>

lemma resolveDefender_frame:
  assumes "resolveDefender svc d s = (r, s')"
  shows "cb_events s' = cb_events s \<and> cb_world s' = cb_world s \<and>
         (\<forall>k. k \<noteq> d \<or> alive (cb_registry s) d \<longrightarrow> health (cb_registry s') k = health (cb_registry s) k) \<and>
         (\<forall>e. r = Inl e \<longrightarrow> s' = s)"
  using assms
  by (auto simp: resolveDefender_def session_defs vitals_Start_def vitals_Revive_def health_def alive_def Let_def
      split: sum.splits option.splits if_splits)

lemma resolveDefender_alive:
  assumes "resolveDefender svc d s = (Inr (c, hp, mx, dead), s')"
  shows "cm_creatures svc d = Inr (Some c) \<and> \<not> dead \<and> hp = struck_hp (cb_registry s) c d \<and>
         health (cb_registry s') d = Some (hp, False)"
  using assms
  by (auto simp: struck_hp_def resolveDefender_def session_defs vitals_Start_def vitals_Revive_def health_def Let_def
      split: sum.splits option.splits if_splits)

lemma computeDamage_nonneg: "computeDamage svc req a d m f = Inr res \<Longrightarrow> 0 \<le> dr_Damage res"
  by (auto simp: computeDamage_def Let_def split: sum.splits if_splits)

lemma DeductHP_health:
  assumes "DeductHPAndReserveKill r d a = ((hp, dead, killed), r')" "health r d = Some (h, False)"
  shows "health r' d = Some (hp, dead) \<and> killed = dead \<and> (\<forall>k. k \<noteq> d \<longrightarrow> health r' k = health r k) \<and>
         hp = (if fle (fsub h a) (Fin 0) then Fin 0 else fsub h a) \<and> dead = fle (fsub h a) (Fin 0)"
  using assms
  by (auto simp: DeductHPAndReserveKill_def DeductAndReserveKill_def health_def Let_def
      split: option.splits if_splits)

definition kill_event :: "AttackRequest \<Rightarrow> Creature \<Rightarrow> CombatEvent" where
  "kill_event req c = (if cr_Kind c = KindMob
     then MobKilled (aq_AttackerID req) (aq_DefenderID req) (cr_LootTableID c)
     else PlayerKilled (aq_AttackerID req) (aq_DefenderID req))"

definition reward :: "'w CombatSvc \<Rightarrow> AttackRequest \<Rightarrow> 'w \<Rightarrow> 'w" where
  "reward svc req w = (case cm_rewarder svc of None \<Rightarrow> w
     | Some f \<Rightarrow> snd (f (aq_AttackerID req) (aq_DefenderID req) w))"

lemma applyDamage_ok: "applyDamageAndEvents svc req c res hp mx dead s \<noteq> (Inl e, s')"
  by (auto simp: applyDamageAndEvents_def Let_def split: prod.splits)

lemma applyDamage_spec:
  assumes "applyDamageAndEvents svc req c res hp mx False s = (Inr out, s')"
    and "health (cb_registry s) (aq_DefenderID req) = Some (hp, False)"
  shows "ar_Damage out = dr_Damage res \<and> ar_IsHit out = dr_IsHit res \<and>
     health (cb_registry s') (aq_DefenderID req) = Some (ar_DefenderHP out, ar_DefenderIsDead out) \<and>
     ar_DefenderHP out = (if ar_DefenderIsDead out then Fin 0
        else if ar_IsHit out then fsub hp (f64_of_int (ar_Damage out)) else hp) \<and>
     ar_DefenderIsDead out = (ar_IsHit out \<and> fle (fsub hp (f64_of_int (ar_Damage out))) (Fin 0)) \<and>
     (\<forall>k. k \<noteq> aq_DefenderID req \<longrightarrow> health (cb_registry s') k = health (cb_registry s) k) \<and>
     cb_world s' = (if ar_DefenderIsDead out then reward svc req (cb_world s) else cb_world s) \<and>
     (cm_eventBus svc \<longrightarrow> cb_events s' = cb_events s @
        (if ar_IsHit out then [CharacterDamaged (aq_DefenderID req) (ar_Damage out) (ar_DefenderHP out)
                                 (ar_DefenderIsDead out)] else []) @
        [CombatAttackResolved (out\<lparr>ar_Loot := []\<rparr>)] @ (if ar_DefenderIsDead out then [kill_event req c] else []))"
proof (cases "dr_IsHit res")
  case False
  with assms show ?thesis by (auto simp: applyDamageAndEvents_def Let_def)
next
  case True
  obtain hp' dead killed reg where D:
    "DeductHPAndReserveKill (cb_registry s) (aq_DefenderID req) (f64_of_int (dr_Damage res)) = ((hp', dead, killed), reg)"
    by (metis prod_cases4 prod.exhaust)
  note H = DeductHP_health [OF D assms(2)]
  show ?thesis
  proof (cases "dead \<and> cm_rewarder svc \<noteq> None")
    case False
    with H assms(1) \<open>dr_IsHit res\<close> D show ?thesis
      by (auto simp: applyDamageAndEvents_def Let_def kill_event_def reward_def)
  next
    case True
    then obtain f where f: "cm_rewarder svc = Some f" by auto
    obtain drops w where dw: "f (aq_AttackerID req) (aq_DefenderID req) (cb_world s) = (drops, w)" by fastforce
    from True H assms(1) \<open>dr_IsHit res\<close> D f dw show ?thesis
      by (auto simp: applyDamageAndEvents_def Let_def kill_event_def reward_def)
  qed
qed


text \<open>A fight for the witness: a mob with 50 health and a rewarder that counts its calls.\<close>

definition demo_mobs :: "int \<rightharpoonup> MobDef" where
  "demo_mobs = [1 \<mapsto> \<lparr>md_Level = 1, md_Defense = Fin 0, md_Dex = Fin 0, md_MaxHP = Fin 50, md_MaxMP = Fin 0,
     md_LootTableID = ''wolf'', md_QuestTag = ''wolf''\<rparr>]"

definition demo_svc :: "nat CombatSvc" where
  "demo_svc = \<lparr>cm_creatures = composite_Resolve [mob_Resolve demo_mobs],
     cm_statClient = (\<lambda>_. Inr \<lparr>dr_IsHit = True, dr_Damage = 60, dr_IsCrit = False\<rparr>),
     cm_rewarder = Some (\<lambda>_ _ n. ([], n + 1)), cm_eventBus = True, cm_hooks = None, cm_skills = None\<rparr>"


end
