(* ===== verification/Event_Bus.thy ===== *)
theory Event_Bus
  imports Prelude
begin

section \<open>Events: sdk/engine/bus and sdk/engine/eventstream\<close>

text \<open>
  The in-process bus, its fan-out decorator, and the Redis stream that connects nodes. Delivery
  is a goroutine per handler, so a \<open>Publish\<close> yields the handlers to run, each once, in no
  particular order; a list stands for them and the statements speak of multisets. The Redis
  stream is a list of messages that every node's own consumer group reads from front to back.
\<close>

subsection \<open>The in-process bus\<close>

record 'h bus_entry =
  be_id :: int
  be_fn :: 'h

record 'h inProc =
  ip_handlers :: "string \<Rightarrow> 'h bus_entry list"
  ip_nextID :: int

definition NewInProc :: "'h inProc" where
  "NewInProc = \<lparr>ip_handlers = (\<lambda>_. []), ip_nextID = 0\<rparr>"

text \<open>The handlers a \<open>Publish\<close> of an event named \<open>name\<close> starts.\<close>

definition inProc_Publish :: "'h inProc \<Rightarrow> string \<Rightarrow> 'h list" where
  "inProc_Publish b name = map be_fn (ip_handlers b name)"

text \<open>\<open>Subscribe\<close> returns the id the subscription remembers.\<close>

definition inProc_Subscribe :: "'h inProc \<Rightarrow> string \<Rightarrow> 'h \<Rightarrow> int \<times> 'h inProc" where
  "inProc_Subscribe b name h =
     (let i = ip_nextID b in
      (i, b\<lparr>ip_nextID := i + 1,
            ip_handlers := (ip_handlers b)(name := ip_handlers b name @ [\<lparr>be_id = i, be_fn = h\<rparr>])\<rparr>))"

text \<open>The removal loop: the entry found is overwritten by the last one and the slice shortened.\<close>

definition swap_remove :: "'a list \<Rightarrow> nat \<Rightarrow> 'a list" where
  "swap_remove xs i = butlast (xs[i := last xs])"

fun find_index :: "('a \<Rightarrow> bool) \<Rightarrow> 'a list \<Rightarrow> nat option" where
  "find_index P [] = None"
| "find_index P (x # xs) = (if P x then Some 0 else map_option Suc (find_index P xs))"

definition inProc_unsubscribe :: "'h inProc \<Rightarrow> string \<Rightarrow> int \<Rightarrow> 'h inProc" where
  "inProc_unsubscribe b name i =
     (let entries = ip_handlers b name in
      case find_index (\<lambda>e. be_id e = i) entries of
        None \<Rightarrow> b
      | Some k \<Rightarrow> b\<lparr>ip_handlers := (ip_handlers b)(name := swap_remove entries k)\<rparr>)"

lemma find_index_Some: "find_index P xs = Some k \<Longrightarrow> k < length xs \<and> P (xs ! k)"
  by (induction xs arbitrary: k) (auto split: if_splits)

lemma find_index_None: "find_index P xs = None \<longleftrightarrow> (\<forall>x \<in> set xs. \<not> P x)"
  by (induction xs) auto

lemma mset_swap_remove:
  assumes "i < length xs"
  shows "mset (swap_remove xs i) = mset xs - {#xs ! i#}"
proof -
  have ne: "xs \<noteq> []" using assms by auto
  have l: "last (xs[i := last xs]) = last xs"
    using ne by (simp add: last_list_update)
  have "mset (xs[i := last xs]) = add_mset (last xs) (mset (butlast (xs[i := last xs])))"
    using ne l by (metis append_butlast_last_id list_update_nonempty mset.simps mset_append add_mset_add_single)
  moreover have "mset (xs[i := last xs]) = add_mset (last xs) (mset xs - {#xs ! i#})"
    using assms by (simp add: mset_update)
  ultimately show ?thesis by (simp add: swap_remove_def)
qed

subsection \<open>A session on the bus\<close>

datatype 'h bus_op = BSub string 'h | BUnsub string int

fun bus_step :: "'h bus_op \<Rightarrow> 'h inProc \<Rightarrow> 'h inProc" where
  "bus_step (BSub name h) b = snd (inProc_Subscribe b name h)"
| "bus_step (BUnsub name i) b = inProc_unsubscribe b name i"

text \<open>The specification: the subscriptions made so far and not yet cancelled.\<close>

fun spec_step :: "'h bus_op \<Rightarrow> (string \<times> int \<times> 'h) list \<times> int \<Rightarrow> (string \<times> int \<times> 'h) list \<times> int" where
  "spec_step (BSub name h) (subs, n) = (subs @ [(name, n, h)], n + 1)"
| "spec_step (BUnsub name i) (subs, n) = (filter (\<lambda>(m, j, _). m = name \<longrightarrow> j \<noteq> i) subs, n)"

definition bus_rel :: "'h inProc \<Rightarrow> (string \<times> int \<times> 'h) list \<times> int \<Rightarrow> bool" where
  "bus_rel b s \<longleftrightarrow> ip_nextID b = snd s \<and>
     (\<forall>name. distinct (map be_id (ip_handlers b name)) \<and> (\<forall>e \<in> set (ip_handlers b name). be_id e < snd s) \<and>
       mset (map (\<lambda>e. (be_id e, be_fn e)) (ip_handlers b name)) =
       mset (map snd (filter (\<lambda>x. fst x = name) (fst s))))"

lemma mset_filter_one:
  "distinct (map fst xs) \<Longrightarrow> (i, h) \<in> set xs \<Longrightarrow> mset (filter (\<lambda>x. fst x \<noteq> i) xs) = mset xs - {#(i, h)#}"
proof (induction xs)
  case (Cons y ys)
  show ?case
  proof (cases "fst y = i")
    case True
    with Cons.prems have "y = (i, h)" by (metis distinct.simps(2) image_eqI list.set_map list.simps(9) prod.collapse set_ConsD fst_conv)
    moreover have "\<forall>x \<in> set ys. fst x \<noteq> i" using Cons.prems(1) True by (auto simp: image_iff)
    then have "filter (\<lambda>x. fst x \<noteq> i) ys = ys" by simp
    ultimately show ?thesis by simp
  next
    case False
    then have "y \<noteq> (i, h)" "y \<notin># {#(i, h)#}" by auto
    with Cons False show ?thesis by (simp add: diff_add_mset_swap)
  qed
qed simp

lemma bus_rel_step:
  assumes "bus_rel b s"
  shows "bus_rel (bus_step op b) (spec_step op s)"
proof (cases op)
  case (BSub name h)
  with assms show ?thesis
    by (cases s) (fastforce simp: bus_rel_def inProc_Subscribe_def Let_def)
next
  case (BUnsub name i)
  obtain subs n where s: "s = (subs, n)" by fastforce
  let ?es = "ip_handlers b name" and ?g = "\<lambda>e. (be_id e, be_fn e)"
  let ?P = "\<lambda>(m, j, _). m = name \<longrightarrow> j \<noteq> i"
  have fsplit: "filter (\<lambda>x. fst x = m) (filter ?P subs) =
      (if m = name then filter (\<lambda>x. fst (snd x) \<noteq> i) (filter (\<lambda>x. fst x = m) subs) else filter (\<lambda>x. fst x = m) subs)" for m
    by (auto simp: filter_filter intro!: filter_cong split: prod.splits)
  have ms: "mset (map ?g ?es) = mset (map snd (filter (\<lambda>x. fst x = name) subs))"
    and dist: "distinct (map be_id ?es)" using assms s by (auto simp: bus_rel_def)
  have snds: "map snd (filter (\<lambda>x. fst (snd x) \<noteq> i) xs) = filter (\<lambda>x. fst x \<noteq> i) (map snd xs)" for xs :: "(string \<times> int \<times> 'a) list"
    by (induction xs) auto
  have dist2: "distinct (map fst (map snd (filter (\<lambda>x. fst x = name) subs)))"
    using dist ms by (metis (no_types, lifting) fst_conv map_eq_conv map_map mset_eq_imp_distinct_iff mset_map comp_apply)
  show ?thesis
  proof (cases "find_index (\<lambda>e. be_id e = i) ?es")
    case None
    then have "\<forall>x \<in> set (map ?g ?es). fst x \<noteq> i" by (simp add: find_index_None)
    then have "\<forall>x \<in> set (map snd (filter (\<lambda>x. fst x = name) subs)). fst x \<noteq> i" using ms mset_eq_setD by blast
    then have "filter (\<lambda>x. fst (snd x) \<noteq> i) (filter (\<lambda>x. fst x = name) subs) = filter (\<lambda>x. fst x = name) subs"
      by (intro filter_True) simp
    with assms None BUnsub s show ?thesis
      by (simp add: bus_rel_def inProc_unsubscribe_def fsplit del: mset_filter mset_map filter_filter)
  next
    case (Some k)
    note k = find_index_Some [OF Some]
    have e: "(i, be_fn (?es ! k)) \<in> set (map snd (filter (\<lambda>x. fst x = name) subs))"
      using k ms mset_eq_setD by (metis (no_types, lifting) length_map nth_map nth_mem)
    have "mset (map ?g (swap_remove ?es k)) = mset (map ?g ?es) - {#(i, be_fn (?es ! k))#}"
      using k by (simp add: mset_swap_remove image_mset_Diff)
    also have "\<dots> = mset (map snd (filter (\<lambda>x. fst (snd x) \<noteq> i) (filter (\<lambda>x. fst x = name) subs)))"
      unfolding snds mset_filter_one [OF dist2 e] ms ..
    finally have new: "mset (map ?g (swap_remove ?es k)) =
        mset (map snd (filter (\<lambda>x. fst (snd x) \<noteq> i) (filter (\<lambda>x. fst x = name) subs)))" .
    have sub: "mset (swap_remove ?es k) \<subseteq># mset ?es" using k by (simp add: mset_swap_remove)
    then have set: "set (swap_remove ?es k) \<subseteq> set ?es" by (metis set_mset_mono set_mset_mset)
    have "mset (?es ! k # swap_remove ?es k) = mset ?es" using k by (simp add: mset_swap_remove)
    then have "mset (map be_id (?es ! k # swap_remove ?es k)) = mset (map be_id ?es)" by (metis mset_map)
    then have d: "distinct (map be_id (swap_remove ?es k))"
      using dist by (metis distinct.simps(2) list.simps(9) mset_eq_imp_distinct_iff)
    show ?thesis using assms Some BUnsub s new set d
      by (auto simp: bus_rel_def inProc_unsubscribe_def fsplit simp del: mset_filter mset_map filter_filter)
  qed
qed

lemma bus_rel_run: "bus_rel b s \<Longrightarrow> bus_rel (fold bus_step ops b) (fold spec_step ops s)"
  by (induction ops arbitrary: b s) (simp_all add: bus_rel_step del: split_paired_All)

text \<open>
  C31: a published event reaches exactly the subscribers that are on. After any sequence of
  subscriptions and cancellations (in any order, repeated cancellations and cancellations of
  unknown ids included), \<open>Publish\<close> starts the handler of every subscription to the event's name
  that was not cancelled, once each, and no other handler.
\<close>

theorem inProc_delivery:
  "mset (inProc_Publish (fold bus_step ops NewInProc) name) =
   mset (map (\<lambda>x. snd (snd x)) (filter (\<lambda>x. fst x = name) (fst (fold spec_step ops ([], 0)))))"
proof -
  let ?b = "fold bus_step ops NewInProc" and ?s = "fold spec_step ops ([], 0)"
  have "bus_rel NewInProc ([], 0)" by (simp add: bus_rel_def NewInProc_def)
  then have "bus_rel ?b ?s" by (rule bus_rel_run)
  then have m: "mset (map (\<lambda>e. (be_id e, be_fn e)) (ip_handlers ?b name)) =
      mset (map snd (filter (\<lambda>x. fst x = name) (fst ?s)))" by (simp add: bus_rel_def)
  have "mset (map be_fn (ip_handlers ?b name)) = image_mset snd (mset (map (\<lambda>e. (be_id e, be_fn e)) (ip_handlers ?b name)))"
    by (simp add: multiset.map_comp comp_def)
  also have "\<dots> = mset (map (\<lambda>x. snd (snd x)) (filter (\<lambda>x. fst x = name) (fst ?s)))"
    unfolding m by (simp add: multiset.map_comp comp_def case_prod_beta)
  finally show ?thesis by (simp add: inProc_Publish_def)
qed

subsection \<open>Fan-out over nodes\<close>

text \<open>
  \<open>Fanout\<close> and the stream. \<open>enc\<close> is \<open>json.Marshal\<close> of the event (it may fail), \<open>dec\<close> the
  decoder registry. A node delivers locally what it publishes and appends it to the stream with
  its origin; its consumer re-injects messages of other origins with \<open>PublishLocal\<close>, which
  does not forward.
\<close>

record 'p XMessage =
  xm_origin :: string
  xm_type :: string
  xm_payload :: 'p

text \<open>\<open>Registry.Decode\<close> of the outbox package, used by the relay and by the consumer.\<close>

definition outbox_Decode :: "(string \<rightharpoonup> ('p \<Rightarrow> 'e result)) \<Rightarrow> string \<Rightarrow> 'p \<Rightarrow> 'e option result" where
  "outbox_Decode decoders name payload = (case decoders name of
     None \<Rightarrow> Inr None
   | Some d \<Rightarrow> (case d payload of Inl e \<Rightarrow> Inl e | Inr ev \<Rightarrow> Inr (Some ev)))"

definition outbox_Register :: "(string \<rightharpoonup> ('p \<Rightarrow> 'e result)) \<Rightarrow> string \<Rightarrow> ('p \<Rightarrow> 'e result) \<Rightarrow>
    (string \<rightharpoonup> ('p \<Rightarrow> 'e result))" where
  "outbox_Register decoders name d = decoders(name \<mapsto> d)"

definition Publisher_Publish :: "('e \<Rightarrow> string) \<Rightarrow> ('e \<Rightarrow> 'p result) \<Rightarrow> string \<Rightarrow> 'e \<Rightarrow>
    'p XMessage list \<Rightarrow> error option \<times> 'p XMessage list" where
  "Publisher_Publish name enc origin ev stream = (case enc ev of
     Inl e \<Rightarrow> (Some e, stream)
   | Inr payload \<Rightarrow> (None, stream @ [\<lparr>xm_origin = origin, xm_type = name ev, xm_payload = payload\<rparr>]))"

text \<open>\<open>handle\<close>: what the consumer of node \<open>origin\<close> publishes locally for a message.\<close>

definition Consumer_handle :: "(string \<rightharpoonup> ('p \<Rightarrow> 'e result)) \<Rightarrow> string \<Rightarrow> 'p XMessage \<Rightarrow> 'e list" where
  "Consumer_handle decoders origin msg =
     (if xm_origin msg = origin then []
      else (case outbox_Decode decoders (xm_type msg) (xm_payload msg) of
          Inl _ \<Rightarrow> []
        | Inr None \<Rightarrow> []
        | Inr (Some ev) \<Rightarrow> [ev]))"

record ('e, 'p) cluster =
  cl_stream :: "'p XMessage list"
  cl_read :: "string \<Rightarrow> nat"
  cl_delivered :: "string \<Rightarrow> 'e list"

datatype 'e cluster_op = CPublish string 'e | CConsume string

text \<open>
  \<open>Fanout.Publish\<close> on a node (local delivery, then the forwarder), and one message handled by a
  node's consumer.
\<close>

fun cluster_step :: "('e \<Rightarrow> string) \<Rightarrow> ('e \<Rightarrow> 'p result) \<Rightarrow> (string \<rightharpoonup> ('p \<Rightarrow> 'e result)) \<Rightarrow>
    'e cluster_op \<Rightarrow> ('e, 'p) cluster \<Rightarrow> ('e, 'p) cluster" where
  "cluster_step name enc decoders (CPublish node ev) c =
     c\<lparr>cl_delivered := (cl_delivered c)(node := cl_delivered c node @ [ev]),
       cl_stream := snd (Publisher_Publish name enc node ev (cl_stream c))\<rparr>"
| "cluster_step name enc decoders (CConsume node) c =
     (if cl_read c node < length (cl_stream c)
      then c\<lparr>cl_delivered := (cl_delivered c)(node := cl_delivered c node @
               Consumer_handle decoders node (cl_stream c ! cl_read c node)),
             cl_read := (cl_read c)(node := cl_read c node + 1)\<rparr>
      else c)"

text \<open>The events published in a run, each with its node.\<close>

fun published :: "'e cluster_op list \<Rightarrow> (string \<times> 'e) list" where
  "published [] = []"
| "published (CPublish node ev # ops) = (node, ev) # published ops"
| "published (CConsume node # ops) = published ops"

lemma published_append: "published (xs @ ys) = published xs @ published ys"
  by (induction xs rule: published.induct) auto

text \<open>A registry that decodes what producers encode.\<close>

locale event_codec =
  fixes name :: "'e \<Rightarrow> string" and enc :: "'e \<Rightarrow> 'p result" and decoders :: "string \<rightharpoonup> ('p \<Rightarrow> 'e result)"
    and sendable :: "'e \<Rightarrow> bool"
  assumes enc_ok: "sendable ev \<Longrightarrow> \<exists>p. enc ev = Inr p"
    and dec_enc: "sendable ev \<Longrightarrow> enc ev = Inr p \<Longrightarrow> outbox_Decode decoders (name ev) p = Inr (Some ev)"
begin

definition msg_of :: "string \<times> 'e \<Rightarrow> 'p XMessage \<Rightarrow> bool" where
  "msg_of x m \<longleftrightarrow> xm_origin m = fst x \<and> xm_type m = name (snd x) \<and> enc (snd x) = Inr (xm_payload m)"

definition cluster_inv :: "(string \<times> 'e) list \<Rightarrow> ('e, 'p) cluster \<Rightarrow> bool" where
  "cluster_inv pubs c \<longleftrightarrow> list_all2 msg_of pubs (cl_stream c) \<and> (\<forall>node. cl_read c node \<le> length pubs \<and>
     mset (cl_delivered c node) = mset (map snd (filter (\<lambda>x. fst x = node) pubs)) +
       mset (map snd (filter (\<lambda>x. fst x \<noteq> node) (take (cl_read c node) pubs))))"

lemma handle_msg:
  assumes "msg_of x m" "sendable (snd x)"
  shows "Consumer_handle decoders node m = (if fst x = node then [] else [snd x])"
  using dec_enc [OF assms(2)] assms(1) by (auto simp: msg_of_def Consumer_handle_def)

lemma cluster_inv_publish:
  assumes "cluster_inv pubs c" "sendable ev"
  shows "cluster_inv (pubs @ [(n, ev)]) (cluster_step name enc decoders (CPublish n ev) c)"
proof -
  from enc_ok [OF assms(2)] obtain p where "enc ev = Inr p" by blast
  with assms(1) show ?thesis
    by (auto simp: cluster_inv_def Publisher_Publish_def msg_of_def list_all2_appendI le_SucI)
qed

lemma cluster_inv_consume:
  assumes "cluster_inv pubs c" "\<forall>x \<in> set pubs. sendable (snd x)"
  shows "cluster_inv pubs (cluster_step name enc decoders (CConsume n) c)"
proof (cases "cl_read c n < length (cl_stream c)")
  case True
  let ?i = "cl_read c n"
  have l: "length (cl_stream c) = length pubs" "?i < length pubs"
    using assms(1) True by (auto simp: cluster_inv_def dest: list_all2_lengthD)
  have "msg_of (pubs ! ?i) (cl_stream c ! ?i)" using assms(1) l by (simp add: cluster_inv_def list_all2_nthD)
  from handle_msg [OF this] assms(2) l
  have h: "Consumer_handle decoders n (cl_stream c ! ?i) = (if fst (pubs ! ?i) = n then [] else [snd (pubs ! ?i)])"
    by simp
  show ?thesis using assms(1) True l h
    by (auto simp: cluster_inv_def take_Suc_conv_app_nth)
qed (use assms in simp)

lemma cluster_inv_run:
  assumes "cluster_inv pubs c" "\<forall>x \<in> set (pubs @ published ops). sendable (snd x)"
  shows "cluster_inv (pubs @ published ops) (fold (cluster_step name enc decoders) ops c)"
  using assms
proof (induction ops arbitrary: pubs c)
  case (Cons op ops)
  show ?case
  proof (cases op)
    case (CPublish n ev)
    have "cluster_inv (pubs @ [(n, ev)]) (cluster_step name enc decoders op c)"
      unfolding CPublish using Cons.prems CPublish by (intro cluster_inv_publish) auto
    from Cons.IH [OF this] Cons.prems(2) CPublish show ?thesis by simp
  next
    case (CConsume n)
    have "cluster_inv pubs (cluster_step name enc decoders op c)"
      unfolding CConsume using Cons.prems by (intro cluster_inv_consume) auto
    from Cons.IH [OF this] Cons.prems(2) CConsume show ?thesis by simp
  qed
qed simp

text \<open>Once a node has read the whole stream it has seen every event of the cluster exactly once.\<close>

lemma cluster_exactly_once:
  assumes "c = fold (cluster_step name enc decoders) ops \<lparr>cl_stream = [], cl_read = (\<lambda>_. 0), cl_delivered = (\<lambda>_. [])\<rparr>"
    and "\<forall>x \<in> set (published ops). sendable (snd x)" "cl_read c node = length (cl_stream c)"
  shows "mset (cl_delivered c node) = mset (map snd (published ops))"
proof -
  have "cluster_inv [] \<lparr>cl_stream = [], cl_read = (\<lambda>_. 0), cl_delivered = (\<lambda>_. [])\<rparr>"
    by (simp add: cluster_inv_def)
  from cluster_inv_run [OF this, of ops] assms(1,2) have I: "cluster_inv (published ops) c" by simp
  then have l: "cl_read c node = length (published ops)"
    using assms(3) by (auto simp: cluster_inv_def dest: list_all2_lengthD)
  let ?M = "mset (published ops)"
  have "mset (cl_delivered c node) = image_mset snd {#x \<in># ?M. fst x = node#} +
      image_mset snd {#x \<in># ?M. fst x \<noteq> node#}"
    using I l by (simp add: cluster_inv_def)
  also have "\<dots> = image_mset snd ?M"
    using multiset_partition [of ?M "\<lambda>x. fst x = node"] by (metis image_mset_union)
  finally show ?thesis by simp
qed

end

end
