(* ===== verification/Combat_Events.thy ===== *)
theory Combat_Events
  imports Combat Event_Bus Json
begin

section \<open>Combat events on the wire: backend/game/combat/events.go\<close>

text \<open>
  The JSON form of the combat events (the structs have no tags, so the field names are the Go
  names) and the decoders \<open>RegisterEventDecoders\<close> registers. They meet the contract
  \<open>event_codec\<close>, so the cross-node delivery theorem holds for them.
\<close>

definition json_bool :: "json \<Rightarrow> bool result" where
  "json_bool j = (case j of JNull \<Rightarrow> Inr False | JBool b \<Rightarrow> Inr b | _ \<Rightarrow> Inl json_err)"

text \<open>\<open>json.Marshal\<close> refuses NaN and infinities; decoding rounds and refuses an overflow.\<close>

definition json_f64 :: "json \<Rightarrow> f64 result" where
  "json_f64 j = (case j of
     JNull \<Rightarrow> Inr (Fin 0)
   | JNum r \<Rightarrow> (case rnd r of Fin x \<Rightarrow> Inr (Fin x) | _ \<Rightarrow> Inl json_err)
   | _ \<Rightarrow> Inl json_err)"

definition marshal_f64 :: "f64 \<Rightarrow> json result" where
  "marshal_f64 x = (case x of Fin r \<Rightarrow> Inr (JNum r) | _ \<Rightarrow> Inl (Formatted [''json: unsupported value'']))"

text \<open>A field of a struct: look it up and decode it.\<close>

definition json_get :: "string \<Rightarrow> (json \<Rightarrow> 'a result) \<Rightarrow> json \<Rightarrow> 'a result" where
  "json_get k dec j = (case json_field k j of Inl e \<Rightarrow> Inl e | Inr v \<Rightarrow> dec v)"

definition res_bind :: "'a result \<Rightarrow> ('a \<Rightarrow> 'b result) \<Rightarrow> 'b result" where
  "res_bind r f = (case r of Inl e \<Rightarrow> Inl e | Inr v \<Rightarrow> f v)"

lemma res_bind_simps [simp]: "res_bind (Inr v) f = f v" "res_bind (Inl e) f = Inl e"
  by (simp_all add: res_bind_def)

definition event_name :: "CombatEvent \<Rightarrow> string" where
  "event_name ev = (case ev of
     CharacterDamaged _ _ _ _ \<Rightarrow> ''character_damaged''
   | CombatAttackResolved _ \<Rightarrow> ''combat_attack_resolved''
   | MobKilled _ _ _ \<Rightarrow> ''mob_killed''
   | PlayerKilled _ _ \<Rightarrow> ''player_killed'')"

definition marshal_CombatEvent :: "CombatEvent \<Rightarrow> json result" where
  "marshal_CombatEvent ev = (case ev of
     CharacterDamaged c amount hp dead \<Rightarrow> res_bind (marshal_f64 hp) (\<lambda>jhp.
       Inr (JObj [(''CharacterID'', JNum (of_int c)), (''Amount'', JNum (of_int amount)),
                  (''NewHP'', jhp), (''IsDead'', JBool dead)]))
   | CombatAttackResolved r \<Rightarrow> res_bind (marshal_f64 (ar_DefenderHP r)) (\<lambda>jhp.
       res_bind (marshal_f64 (ar_DefenderMaxHP r)) (\<lambda>jmx.
       Inr (JObj [(''AttackerID'', JNum (of_int (ar_AttackerID r))), (''DefenderID'', JNum (of_int (ar_DefenderID r))),
                  (''IsHit'', JBool (ar_IsHit r)), (''Damage'', JNum (of_int (ar_Damage r))),
                  (''IsCrit'', JBool (ar_IsCrit r)), (''DefenderHP'', jhp), (''DefenderMaxHP'', jmx),
                  (''DefenderIsDead'', JBool (ar_DefenderIsDead r))])))
   | MobKilled k v t \<Rightarrow>
       Inr (JObj [(''KillerID'', JNum (of_int k)), (''VictimID'', JNum (of_int v)), (''LootTableID'', JStr t)])
   | PlayerKilled k v \<Rightarrow> Inr (JObj [(''KillerID'', JNum (of_int k)), (''VictimID'', JNum (of_int v))]))"

definition decode_CharacterDamaged :: "json \<Rightarrow> CombatEvent result" where
  "decode_CharacterDamaged j =
     res_bind (json_get ''CharacterID'' (json_int in64) j) (\<lambda>c.
     res_bind (json_get ''Amount'' (json_int in32) j) (\<lambda>amount.
     res_bind (json_get ''NewHP'' json_f64 j) (\<lambda>hp.
     res_bind (json_get ''IsDead'' json_bool j) (\<lambda>dead. Inr (CharacterDamaged c amount hp dead)))))"

definition decode_AttackResolved :: "json \<Rightarrow> CombatEvent result" where
  "decode_AttackResolved j =
     res_bind (json_get ''AttackerID'' (json_int in64) j) (\<lambda>a.
     res_bind (json_get ''DefenderID'' (json_int in64) j) (\<lambda>d.
     res_bind (json_get ''IsHit'' json_bool j) (\<lambda>hit.
     res_bind (json_get ''Damage'' (json_int in32) j) (\<lambda>dmg.
     res_bind (json_get ''IsCrit'' json_bool j) (\<lambda>crit.
     res_bind (json_get ''DefenderHP'' json_f64 j) (\<lambda>hp.
     res_bind (json_get ''DefenderMaxHP'' json_f64 j) (\<lambda>mx.
     res_bind (json_get ''DefenderIsDead'' json_bool j) (\<lambda>dead.
       Inr (CombatAttackResolved \<lparr>ar_AttackerID = a, ar_DefenderID = d, ar_IsHit = hit, ar_Damage = dmg,
         ar_IsCrit = crit, ar_DefenderHP = hp, ar_DefenderMaxHP = mx, ar_DefenderIsDead = dead, ar_Loot = []\<rparr>)))))))))"

definition decode_MobKilled :: "json \<Rightarrow> CombatEvent result" where
  "decode_MobKilled j =
     res_bind (json_get ''KillerID'' (json_int in64) j) (\<lambda>k.
     res_bind (json_get ''VictimID'' (json_int in64) j) (\<lambda>v.
     res_bind (json_get ''LootTableID'' json_string j) (\<lambda>t. Inr (MobKilled k v t))))"

definition decode_PlayerKilled :: "json \<Rightarrow> CombatEvent result" where
  "decode_PlayerKilled j =
     res_bind (json_get ''KillerID'' (json_int in64) j) (\<lambda>k.
     res_bind (json_get ''VictimID'' (json_int in64) j) (\<lambda>v. Inr (PlayerKilled k v)))"

definition RegisterEventDecoders ::
  "(string \<rightharpoonup> (json \<Rightarrow> CombatEvent result)) \<Rightarrow> (string \<rightharpoonup> (json \<Rightarrow> CombatEvent result))" where
  "RegisterEventDecoders r =
     outbox_Register (outbox_Register (outbox_Register (outbox_Register r
       ''combat_attack_resolved'' decode_AttackResolved)
       ''mob_killed'' decode_MobKilled)
       ''player_killed'' decode_PlayerKilled)
       ''character_damaged'' decode_CharacterDamaged"

text \<open>Events whose fields are values of their Go types and whose floats are finite.\<close>

definition finite_f64 :: "f64 \<Rightarrow> bool" where
  "finite_f64 x \<longleftrightarrow> f64_ok x \<and> (case x of Fin _ \<Rightarrow> True | _ \<Rightarrow> False)"

definition sendable_event :: "CombatEvent \<Rightarrow> bool" where
  "sendable_event ev \<longleftrightarrow> (case ev of
     CharacterDamaged c amount hp _ \<Rightarrow> in64 c \<and> in32 amount \<and> finite_f64 hp
   | CombatAttackResolved r \<Rightarrow> in64 (ar_AttackerID r) \<and> in64 (ar_DefenderID r) \<and> in32 (ar_Damage r) \<and>
       finite_f64 (ar_DefenderHP r) \<and> finite_f64 (ar_DefenderMaxHP r) \<and> ar_Loot r = []
   | MobKilled k v _ \<Rightarrow> in64 k \<and> in64 v
   | PlayerKilled k v \<Rightarrow> in64 k \<and> in64 v)"

lemma json_get_obj [simp]:
  "json_get k dec (JObj fs) = (case map_of fs k of None \<Rightarrow> dec JNull | Some v \<Rightarrow> dec v)"
  by (simp add: json_get_def json_field_def split: option.splits)

lemma finite_f64E:
  assumes "finite_f64 x"
  obtains r where "x = Fin r" "rnd r = Fin r"
  using assms by (auto simp: finite_f64_def f64_ok_def split: f64.splits)

lemma json_f64_fin: "rnd r = Fin r \<Longrightarrow> json_f64 (JNum r) = Inr (Fin r)"
  by (simp add: json_f64_def)

lemmas combat_codec_defs = marshal_CombatEvent_def event_name_def RegisterEventDecoders_def outbox_Register_def
  outbox_Decode_def marshal_f64_def json_bool_def json_string_def decode_CharacterDamaged_def
  decode_AttackResolved_def decode_MobKilled_def decode_PlayerKilled_def

lemma combat_event_roundtrip:
  assumes "sendable_event ev"
  shows "\<exists>p. marshal_CombatEvent ev = Inr p \<and>
     outbox_Decode (RegisterEventDecoders m) (event_name ev) p = Inr (Some ev)"
proof (cases ev)
  case (CharacterDamaged c amount hp dead)
  with assms obtain r where "hp = Fin r" "rnd r = Fin r" by (auto simp: sendable_event_def elim: finite_f64E)
  with assms CharacterDamaged show ?thesis
    by (simp add: sendable_event_def combat_codec_defs json_f64_fin)
next
  case (CombatAttackResolved r)
  with assms obtain x y where "ar_DefenderHP r = Fin x" "rnd x = Fin x" "ar_DefenderMaxHP r = Fin y" "rnd y = Fin y"
    by (auto simp: sendable_event_def elim!: finite_f64E)
  with assms CombatAttackResolved show ?thesis
    by (cases r) (simp add: sendable_event_def combat_codec_defs json_f64_fin)
qed (use assms in \<open>simp_all add: sendable_event_def combat_codec_defs\<close>)

interpretation combat_wire: event_codec event_name marshal_CombatEvent "RegisterEventDecoders m" sendable_event
proof
  fix ev p
  assume s: "sendable_event ev"
  from combat_event_roundtrip [OF s] show "\<exists>p. marshal_CombatEvent ev = Inr p" by blast
  assume "marshal_CombatEvent ev = Inr p"
  with combat_event_roundtrip [OF s, of m]
  show "outbox_Decode (RegisterEventDecoders m) (event_name ev) p = Inr (Some ev)" by auto
qed



end
