(* ===== verification/Registry.thy ===== *)
theory Registry
  imports Prelude "HOL-Library.List_Lexorder" "HOL-Library.Char_ord"
begin

section \<open>Services and content: sdk/engine/registry\<close>

text \<open>
  \<open>'v\<close> is Go's \<open>any\<close>; a type assertion \<open>x.(T)\<close> is a partial function from it. A content type's
  \<open>Register\<close> is the one \<open>DefineContent\<close> builds: decode, then store. Raw content is an
  uninterpreted byte string.
\<close>

type_synonym ('v, 'r) ContentType = "'r \<Rightarrow> 'v result"

record ('v, 'r) Registry =
  rg_services :: "(string \<times> 'v) list"
  rg_contentTypes :: "string \<rightharpoonup> ('v, 'r) ContentType"
  rg_contentValues :: "string \<rightharpoonup> (string \<rightharpoonup> 'v)"

definition registry_New :: "('v, 'r) Registry" where
  "registry_New = \<lparr>rg_services = [], rg_contentTypes = Map.empty, rg_contentValues = Map.empty\<rparr>"

definition Provide :: "('v, 'r) Registry \<Rightarrow> string \<Rightarrow> 'v \<Rightarrow> error option \<times> ('v, 'r) Registry" where
  "Provide r name svc = (case map_of (rg_services r) name of
     Some _ \<Rightarrow> (Some (Formatted [''registry: service is already registered'', name]), r)
   | None \<Rightarrow> (None, r\<lparr>rg_services := AList.update name svc (rg_services r)\<rparr>))"

definition Resolve :: "('v \<Rightarrow> 't option) \<Rightarrow> ('v, 'r) Registry \<Rightarrow> string \<Rightarrow> 't result" where
  "Resolve as_T r name = (case map_of (rg_services r) name of
     None \<Rightarrow> Inl (Formatted [''registry: no service registered'', name])
   | Some svc \<Rightarrow> (case as_T svc of
        None \<Rightarrow> Inl (Formatted [''registry: service is not assignable to requested type'', name])
      | Some typed \<Rightarrow> Inr typed))"

definition MustResolve :: "('v \<Rightarrow> 't option) \<Rightarrow> ('v, 'r) Registry \<Rightarrow> string \<Rightarrow> 't result" where
  "MustResolve as_T r name = (case Resolve as_T r name of
     Inl _ \<Rightarrow> Inl (Panic ''registry.MustResolve'') | Inr svc \<Rightarrow> Inr svc)"

definition registry_Names :: "('v, 'r) Registry \<Rightarrow> string list" where
  "registry_Names r = sort (keys (rg_services r))"

subsection \<open>Content\<close>

definition StoreContent :: "('v, 'r) Registry \<Rightarrow> string \<Rightarrow> string \<Rightarrow> 'v \<Rightarrow> error option \<times> ('v, 'r) Registry" where
  "StoreContent r kind i v =
     (let byID = (case rg_contentValues r kind of None \<Rightarrow> Map.empty | Some m \<Rightarrow> m)
      in (None, r\<lparr>rg_contentValues := (rg_contentValues r)(kind \<mapsto> byID(i \<mapsto> v))\<rparr>))"

definition content_Lookup :: "('v, 'r) Registry \<Rightarrow> string \<Rightarrow> string \<Rightarrow> 'v option" where
  "content_Lookup r kind i = (case rg_contentValues r kind of None \<Rightarrow> None | Some byID \<Rightarrow> byID i)"

definition DefineContentType ::
  "('v, 'r) Registry \<Rightarrow> string \<Rightarrow> ('v, 'r) ContentType \<Rightarrow> error option \<times> ('v, 'r) Registry" where
  "DefineContentType r kind ct = (case rg_contentTypes r kind of
     Some _ \<Rightarrow> (Some (Formatted [''registry: content type is already defined'', kind]), r)
   | None \<Rightarrow> (None, r\<lparr>rg_contentTypes := (rg_contentTypes r)(kind \<mapsto> ct)\<rparr>))"

definition DefineContent ::
  "('r \<Rightarrow> 't result) \<Rightarrow> ('t \<Rightarrow> 'v) \<Rightarrow> ('v, 'r) Registry \<Rightarrow> string \<Rightarrow> error option \<times> ('v, 'r) Registry" where
  "DefineContent unmarshal to_any r kind =
     DefineContentType r kind (\<lambda>raw. case unmarshal raw of Inl e \<Rightarrow> Inl e | Inr v \<Rightarrow> Inr (to_any v))"

definition LoadContent :: "('v, 'r) Registry \<Rightarrow> string \<Rightarrow> string \<Rightarrow> 'r \<Rightarrow> error option \<times> ('v, 'r) Registry" where
  "LoadContent r kind i raw = (case rg_contentTypes r kind of
     None \<Rightarrow> (Some (Formatted [''registry: content type is not defined'', kind]), r)
   | Some parse \<Rightarrow> (case parse raw of
        Inl _ \<Rightarrow> (Some (Formatted [''registry: parse'', kind, i]), r)
      | Inr v \<Rightarrow> StoreContent r kind i v))"

definition Content :: "('v \<Rightarrow> 't option) \<Rightarrow> ('v, 'r) Registry \<Rightarrow> string \<Rightarrow> string \<Rightarrow> 't option" where
  "Content as_T r kind i = (case content_Lookup r kind i of None \<Rightarrow> None | Some v \<Rightarrow> as_T v)"

subsection \<open>Properties\<close>

definition registry_ok :: "('v, 'r) Registry \<Rightarrow> bool" where
  "registry_ok r \<longleftrightarrow> al_ok (rg_services r)"

lemma registry_ok_New [simp]: "registry_ok registry_New"
  by (simp add: registry_ok_def registry_New_def)

lemma Provide_cases:
  "Provide r name svc = (if name \<in> set (keys (rg_services r))
     then (Some (Formatted [''registry: service is already registered'', name]), r)
     else (None, r\<lparr>rg_services := AList.update name svc (rg_services r)\<rparr>))"
  using set_keys_iff [of name "rg_services r"] by (simp add: Provide_def split: option.splits)

text \<open>
  The service registry never loses or overwrites a service. A name can be provided exactly
  once; a second \<open>Provide\<close> reports the conflict and changes nothing; after a successful one,
  resolving the name at the service's type gives that service, at another type an error, and
  every other name resolves as before; \<open>Names\<close> is the sorted list of names provided.
\<close>

theorem registry_Provide_Resolve:
  assumes "registry_ok r" "Provide r name svc = (err, r')"
  shows "registry_ok r' \<and>
    (err = None \<longleftrightarrow> name \<notin> set (registry_Names r)) \<and> (err \<noteq> None \<longrightarrow> r' = r) \<and>
    (err = None \<longrightarrow>
       (\<forall>t. as_T svc = Some t \<longrightarrow> Resolve as_T r' name = Inr t) \<and>
       (as_T svc = None \<longrightarrow> \<not> is_ok (Resolve as_T r' name)) \<and>
       (\<forall>n. n \<noteq> name \<longrightarrow> Resolve as_T r' n = Resolve as_T r n) \<and>
       sorted (registry_Names r') \<and> distinct (registry_Names r') \<and>
       set (registry_Names r') = insert name (set (registry_Names r)))"
proof (cases "name \<in> set (keys (rg_services r))")
  case True
  then show ?thesis using assms by (auto simp: Provide_cases registry_Names_def)
next
  case False
  then have r': "err = None" "r' = r\<lparr>rg_services := AList.update name svc (rg_services r)\<rparr>"
    using assms(2) by (auto simp: Provide_cases)
  have "set (keys (AList.update name svc (rg_services r))) = insert name (set (keys (rg_services r)))"
    by (simp only: set_keys_dom map_of_update dom_fun_upd) simp
  with False r' assms(1) show ?thesis
    by (auto simp: registry_ok_def registry_Names_def Resolve_def al_ok_def AList.distinct_update)
qed

theorem registry_Provide_Resolve_witness:
  "\<exists>r'. Provide (registry_New :: (int, unit) Registry) ''clock'' 5 = (None, r') \<and>
     Resolve Some r' ''clock'' = Inr 5 \<and> fst (Provide r' ''clock'' 6) \<noteq> None"
proof -
  obtain e r' where e: "Provide (registry_New :: (int, unit) Registry) ''clock'' 5 = (e, r')" by fastforce
  note P = registry_Provide_Resolve [OF registry_ok_New e, of Some]
  then have "e = None" by (auto simp: registry_Names_def registry_New_def)
  obtain e2 r2 where e2: "Provide r' ''clock'' 6 = (e2, r2)" by fastforce
  have "registry_ok r'" using P by simp
  from registry_Provide_Resolve [OF this e2, of Some] P \<open>e = None\<close> e e2 show ?thesis by auto
qed

text \<open>Content loaded under a kind is what the typed lookup returns.\<close>

lemma LoadContent_Content:
  assumes "DefineContent unmarshal to_any r kind = (None, r1)" "unmarshal raw = Inr v"
    and "LoadContent r1 kind i raw = (err, r2)" "\<And>t. as_T (to_any t) = Some t"
  shows "err = None" "Content as_T r2 kind i = Some v"
    "(kind', i') \<noteq> (kind, i) \<Longrightarrow> Content as_T r2 kind' i' = Content as_T r kind' i'"
  using assms
  by (auto simp: DefineContent_def DefineContentType_def LoadContent_def StoreContent_def Content_def
      content_Lookup_def Let_def split: option.splits if_splits)

end
