(* ===== verification/Topo_Sort.thy ===== *)
theory Topo_Sort
  imports Prelude
begin

section \<open>Plugin order: topoSort of sdk/engine/kernel\<close>

text \<open>
  The recursive closure \<open>visit\<close> with its colouring of the names. The recursion is bounded by
  fuel, one unit per nested call; the names being visited are distinct plugin names, so the
  number of plugins plus one is enough, and \<open>topoSort_iff\<close> shows that the fuel never runs out.
  A plugin here is its \<open>Meta\<close>; the lifecycle in \<open>Kernel\<close> carries the callbacks.
\<close>

record Meta =
  mt_Name :: string
  mt_Requires :: "string list"

datatype color = Unvisited | Visiting | Done

record 'p topo =
  tp_state :: "string \<Rightarrow> color"
  tp_ordered :: "'p list"

text \<open>\<open>byName\<close>, with the error on a duplicate.\<close>

fun index_plugins :: "('p \<Rightarrow> Meta) \<Rightarrow> (string \<rightharpoonup> 'p) \<Rightarrow> 'p list \<Rightarrow> (string \<rightharpoonup> 'p) result" where
  "index_plugins meta byName [] = Inr byName"
| "index_plugins meta byName (p # ps) = (case byName (mt_Name (meta p)) of
     Some _ \<Rightarrow> Inl (Formatted [''duplicate plugin name'', mt_Name (meta p)])
   | None \<Rightarrow> index_plugins meta (byName(mt_Name (meta p) \<mapsto> p)) ps)"

abbreviation out_of_fuel :: error where "out_of_fuel \<equiv> Panic ''out of fuel''"

function visit :: "nat \<Rightarrow> ('p \<Rightarrow> Meta) \<Rightarrow> (string \<rightharpoonup> 'p) \<Rightarrow> string \<Rightarrow> string list \<Rightarrow> 'p topo \<Rightarrow> error option \<times> 'p topo"
  and visit_deps :: "nat \<Rightarrow> ('p \<Rightarrow> Meta) \<Rightarrow> (string \<rightharpoonup> 'p) \<Rightarrow> string \<Rightarrow> string list \<Rightarrow> string list \<Rightarrow> 'p topo \<Rightarrow> error option \<times> 'p topo"
where
  "visit 0 meta byName name path st = (Some out_of_fuel, st)"
| "visit (Suc n) meta byName name path st = (case tp_state st name of
     Done \<Rightarrow> (None, st)
   | Visiting \<Rightarrow> (Some (Formatted ([''plugin dependency cycle''] @ path @ [name])), st)
   | Unvisited \<Rightarrow> (case byName name of
        None \<Rightarrow> (Some (Panic ''nil plugin''), st)
      | Some p \<Rightarrow>
          (case visit_deps n meta byName name path (mt_Requires (meta p))
                  (st\<lparr>tp_state := (tp_state st)(name := Visiting)\<rparr>) of
             (Some e, st') \<Rightarrow> (Some e, st')
           | (None, st') \<Rightarrow> (None, st'\<lparr>tp_state := (tp_state st')(name := Done),
                                      tp_ordered := tp_ordered st' @ [p]\<rparr>))))"
| "visit_deps n meta byName name path [] st = (None, st)"
| "visit_deps n meta byName name path (dep # deps) st = (case byName dep of
     None \<Rightarrow> (Some (Formatted [''plugin requires unknown plugin'', name, dep]), st)
   | Some _ \<Rightarrow> (case visit n meta byName dep (path @ [name]) st of
        (Some e, st') \<Rightarrow> (Some e, st')
      | (None, st') \<Rightarrow> visit_deps n meta byName name path deps st'))"
  by pat_completeness auto
termination
  by (relation "measures [\<lambda>x. case x of Inl (n, _) \<Rightarrow> n | Inr (n, _) \<Rightarrow> n,
                          \<lambda>x. case x of Inl _ \<Rightarrow> 0 | Inr (_, _, _, _, _, ds, _) \<Rightarrow> Suc (length ds)]") auto

fun visit_all :: "nat \<Rightarrow> ('p \<Rightarrow> Meta) \<Rightarrow> (string \<rightharpoonup> 'p) \<Rightarrow> 'p list \<Rightarrow> 'p topo \<Rightarrow> error option \<times> 'p topo" where
  "visit_all n meta byName [] st = (None, st)"
| "visit_all n meta byName (p # ps) st = (case visit n meta byName (mt_Name (meta p)) [] st of
     (Some e, st') \<Rightarrow> (Some e, st')
   | (None, st') \<Rightarrow> visit_all n meta byName ps st')"

definition topoSort :: "('p \<Rightarrow> Meta) \<Rightarrow> 'p list \<Rightarrow> 'p list result" where
  "topoSort meta plugins = (case index_plugins meta Map.empty plugins of
     Inl e \<Rightarrow> Inl e
   | Inr byName \<Rightarrow> (case visit_all (Suc (length plugins)) meta byName plugins
                        \<lparr>tp_state = (\<lambda>_. Unvisited), tp_ordered = []\<rparr> of
        (Some e, _) \<Rightarrow> Inl e
      | (None, st) \<Rightarrow> Inr (tp_ordered st)))"

subsection \<open>The index\<close>

abbreviation pname :: "('p \<Rightarrow> Meta) \<Rightarrow> 'p \<Rightarrow> string" where "pname meta p \<equiv> mt_Name (meta p)"

lemma index_plugins_ok:
  "(\<exists>m. index_plugins meta byName ps = Inr m) \<longleftrightarrow>
     distinct (map (pname meta) ps) \<and> (\<forall>p \<in> set ps. byName (pname meta p) = None)"
proof (induction ps arbitrary: byName)
  case (Cons a ps)
  show ?case
  proof (cases "byName (pname meta a)")
    case None
    have run: "index_plugins meta byName (a # ps) = index_plugins meta (byName(pname meta a \<mapsto> a)) ps"
      using None by simp
    have all: "(\<forall>p \<in> set ps. (byName(pname meta a \<mapsto> a)) (pname meta p) = None) \<longleftrightarrow>
          pname meta a \<notin> pname meta ` set ps \<and> (\<forall>p \<in> set ps. byName (pname meta p) = None)"
      by (auto simp: image_iff)
    show ?thesis unfolding run Cons.IH all using None by auto
  qed simp
qed simp

lemma index_plugins_Inr:
  "index_plugins meta byName ps = Inr m \<Longrightarrow>
   m n = (case find (\<lambda>p. pname meta p = n) ps of None \<Rightarrow> byName n | Some p \<Rightarrow> Some p)"
proof (induction ps arbitrary: byName)
  case (Cons q ps)
  then have n: "byName (pname meta q) = None"
    and run: "index_plugins meta (byName(pname meta q \<mapsto> q)) ps = Inr m"
    by (auto split: option.splits)
  have "find (\<lambda>p. pname meta p = pname meta q) ps = None"
    using iffD1 [OF index_plugins_ok, OF exI, OF run] by (auto simp: find_None_iff)
  with Cons.IH [OF run] show ?case by (auto split: option.splits)
qed simp

text \<open>The index of distinct plugins.\<close>

definition indexed :: "('p \<Rightarrow> Meta) \<Rightarrow> 'p list \<Rightarrow> (string \<rightharpoonup> 'p) \<Rightarrow> bool" where
  "indexed meta ps m \<longleftrightarrow> distinct (map (pname meta) ps) \<and> (\<forall>n p. m n = Some p \<longleftrightarrow> p \<in> set ps \<and> pname meta p = n)"

lemma index_plugins_indexed:
  assumes "index_plugins meta Map.empty ps = Inr m"
  shows "indexed meta ps m"
proof -
  have d: "distinct (map (pname meta) ps)" using index_plugins_ok [of meta Map.empty ps] assms by auto
  have "m n = Some p \<longleftrightarrow> p \<in> set ps \<and> pname meta p = n" for n p
  proof -
    have "find (\<lambda>q. pname meta q = n) ps = Some p \<longleftrightarrow> p \<in> set ps \<and> pname meta p = n"
      using d by (induction ps) auto
    then show ?thesis using index_plugins_Inr [OF assms, of n] by (auto split: option.splits)
  qed
  with d show ?thesis by (simp add: indexed_def)
qed

lemma indexed_dom: "indexed meta ps m \<Longrightarrow> dom m = pname meta ` set ps"
  by (auto simp: indexed_def dom_def)

lemma indexed_card: "indexed meta ps m \<Longrightarrow> card (dom m) = length ps \<and> finite (dom m)"
  unfolding indexed_dom by (metis distinct_card finite_set indexed_def length_map list.set_map)

lemma indexed_name: "indexed meta ps m \<Longrightarrow> m n = Some p \<Longrightarrow> pname meta p = n"
  by (simp add: indexed_def)

subsection \<open>The search\<close>

text \<open>Every plugin of a list comes after all plugins it requires.\<close>

definition deps_first :: "('p \<Rightarrow> Meta) \<Rightarrow> 'p list \<Rightarrow> bool" where
  "deps_first meta ps \<longleftrightarrow> (\<forall>i < length ps. set (mt_Requires (meta (ps ! i))) \<subseteq> pname meta ` set (take i ps))"

lemma deps_first_Nil [simp]: "deps_first meta []"
  by (simp add: deps_first_def)

lemma deps_first_snoc:
  "deps_first meta (ps @ [p]) \<longleftrightarrow> deps_first meta ps \<and> set (mt_Requires (meta p)) \<subseteq> pname meta ` set ps"
  by (auto simp: deps_first_def nth_append less_Suc_eq)

text \<open>What the search maintains: the output is the finished names, each plugin once, dependencies first.\<close>

definition topo_inv :: "('p \<Rightarrow> Meta) \<Rightarrow> (string \<rightharpoonup> 'p) \<Rightarrow> 'p topo \<Rightarrow> bool" where
  "topo_inv meta m st \<longleftrightarrow> deps_first meta (tp_ordered st) \<and> distinct (map (pname meta) (tp_ordered st)) \<and>
     (\<forall>p \<in> set (tp_ordered st). m (pname meta p) = Some p) \<and>
     (\<forall>n. tp_state st n = Done \<longleftrightarrow> n \<in> pname meta ` set (tp_ordered st)) \<and>
     (\<forall>n. tp_state st n = Visiting \<longrightarrow> n \<in> dom m)"

definition visiting :: "'p topo \<Rightarrow> string set" where
  "visiting st = {n. tp_state st n = Visiting}"

text \<open>Progress: what is finished stays finished, and the names being visited are the same again.\<close>

definition topo_le :: "'p topo \<Rightarrow> 'p topo \<Rightarrow> bool" where
  "topo_le st st' \<longleftrightarrow> visiting st' = visiting st \<and> (\<forall>n. tp_state st n = Done \<longrightarrow> tp_state st' n = Done)"

lemma topo_le_refl [simp]: "topo_le st st"
  by (simp add: topo_le_def)

lemma topo_le_trans: "topo_le a b \<Longrightarrow> topo_le b c \<Longrightarrow> topo_le a c"
  by (simp add: topo_le_def)

lemma topo_inv_enter:
  "topo_inv meta m st \<Longrightarrow> tp_state st n = Unvisited \<Longrightarrow> m n = Some p \<Longrightarrow>
   topo_inv meta m (st\<lparr>tp_state := (tp_state st)(n := Visiting)\<rparr>)"
  by (auto simp: topo_inv_def) (metis color.distinct(3) imageI)

lemma topo_inv_leave:
  assumes "indexed meta ps m" "topo_inv meta m st" "m n = Some p" "tp_state st n = Visiting"
    and "\<forall>d \<in> set (mt_Requires (meta p)). tp_state st d = Done"
  shows "topo_inv meta m (st\<lparr>tp_state := (tp_state st)(n := Done), tp_ordered := tp_ordered st @ [p]\<rparr>)"
proof -
  have n: "pname meta p = n" using assms(1,3) by (simp add: indexed_name)
  have "n \<notin> pname meta ` set (tp_ordered st)" using assms(2,4) by (metis color.distinct(6) topo_inv_def)
  moreover have "set (mt_Requires (meta p)) \<subseteq> pname meta ` set (tp_ordered st)"
    using assms(2,5) by (auto simp: topo_inv_def)
  ultimately show ?thesis using assms(2,3) n by (auto simp: topo_inv_def deps_first_snoc)
qed

lemma topo_le_call:
  assumes "topo_le (st\<lparr>tp_state := (tp_state st)(n := Visiting)\<rparr>) st'" "tp_state st n = Unvisited"
  shows "topo_le st (st'\<lparr>tp_state := (tp_state st')(n := Done), tp_ordered := q\<rparr>)"
    and "tp_state st' n = Visiting"
proof -
  have v: "visiting st' = insert n (visiting st)" using assms(1) by (auto simp: topo_le_def visiting_def)
  then show "tp_state st' n = Visiting" by (auto simp: visiting_def)
  have "n \<notin> visiting st" using assms(2) by (simp add: visiting_def)
  then have "visiting (st'\<lparr>tp_state := (tp_state st')(n := Done), tp_ordered := q\<rparr>) = visiting st"
    using v by (auto simp: visiting_def)
  then show "topo_le st (st'\<lparr>tp_state := (tp_state st')(n := Done), tp_ordered := q\<rparr>)"
    using assms by (auto simp: topo_le_def)
qed

lemma visit_sound:
  "indexed meta ps m \<Longrightarrow> topo_inv meta m st \<Longrightarrow> visit k meta m name path st = (None, st') \<Longrightarrow>
     topo_inv meta m st' \<and> topo_le st st' \<and> tp_state st' name = Done"
  "indexed meta ps m \<Longrightarrow> topo_inv meta m st \<Longrightarrow> visit_deps k meta m name path deps st = (None, st') \<Longrightarrow>
     topo_inv meta m st' \<and> topo_le st st' \<and> (\<forall>d \<in> set deps. tp_state st' d = Done)"
proof (induction k meta m name path st and k meta m name path deps st arbitrary: st' and st'
    rule: visit_visit_deps.induct)
  case (2 k meta m name path st)
  show ?case
  proof (cases "tp_state st name")
    case Unvisited
    with "2.prems"(3) obtain p where p: "m name = Some p" by (cases "m name") auto
    let ?st = "st\<lparr>tp_state := (tp_state st)(name := Visiting)\<rparr>"
    from Unvisited p "2.prems"(3) obtain st1 where
      d: "visit_deps k meta m name path (mt_Requires (meta p)) ?st = (None, st1)"
      and st': "st' = st1\<lparr>tp_state := (tp_state st1)(name := Done), tp_ordered := tp_ordered st1 @ [p]\<rparr>"
      by (auto split: prod.splits option.splits)
    note IH = "2.IH" [OF Unvisited p "2.prems"(1) topo_inv_enter [OF "2.prems"(2) Unvisited p] d]
    note C = topo_le_call [OF _ Unvisited, of st1]
    show ?thesis using IH C topo_inv_leave [OF "2.prems"(1) _ p, of st1] st' by simp
  qed (use "2.prems" in auto)
next
  case (4 k meta m name path dep deps st)
  from "4.prems"(3) obtain q st1 where q: "m dep = Some q"
    and v: "visit k meta m dep (path @ [name]) st = (None, st1)"
    and d: "visit_deps k meta m name path deps st1 = (None, st')"
    by (auto split: prod.splits option.splits)
  note A = "4.IH"(1) [OF q "4.prems"(1,2) v]
  note B = "4.IH"(2) [OF q v [symmetric] refl "4.prems"(1) _ d]
  show ?case using A B topo_le_trans [of st st1 st'] by (auto simp: topo_le_def)
qed auto

subsection \<open>Success\<close>

definition depends :: "('p \<Rightarrow> Meta) \<Rightarrow> (string \<rightharpoonup> 'p) \<Rightarrow> (string \<times> string) set" where
  "depends meta m = {(a, b). \<exists>p. m a = Some p \<and> b \<in> set (mt_Requires (meta p))}"

definition deps_known :: "('p \<Rightarrow> Meta) \<Rightarrow> 'p list \<Rightarrow> bool" where
  "deps_known meta ps \<longleftrightarrow> (\<forall>p \<in> set ps. set (mt_Requires (meta p)) \<subseteq> pname meta ` set ps)"

lemma card_visiting:
  assumes "indexed meta ps m" "topo_inv meta m st"
  shows "card (visiting st) \<le> length ps" "finite (visiting st)"
proof -
  have "visiting st \<subseteq> dom m" using assms(2) by (auto simp: topo_inv_def visiting_def)
  with indexed_card [OF assms(1)] show "card (visiting st) \<le> length ps" "finite (visiting st)"
    by (metis card_mono, metis finite_subset)
qed

lemma visit_complete:
  "indexed meta ps m \<Longrightarrow> deps_known meta ps \<Longrightarrow> acyclic (depends meta m) \<Longrightarrow> topo_inv meta m st \<Longrightarrow>
     name \<in> dom m \<Longrightarrow> \<forall>v \<in> visiting st. (v, name) \<in> (depends meta m)\<^sup>+ \<Longrightarrow>
     length ps < k + card (visiting st) \<Longrightarrow> \<exists>st'. visit k meta m name path st = (None, st')"
  "indexed meta ps m \<Longrightarrow> deps_known meta ps \<Longrightarrow> acyclic (depends meta m) \<Longrightarrow> topo_inv meta m st \<Longrightarrow>
     \<forall>d \<in> set deps. (name, d) \<in> depends meta m \<Longrightarrow> \<forall>v \<in> visiting st. (v, name) \<in> (depends meta m)\<^sup>* \<Longrightarrow>
     length ps < k + card (visiting st) \<Longrightarrow> \<exists>st'. visit_deps k meta m name path deps st = (None, st')"
proof (induction k meta m name path st and k meta m name path deps st rule: visit_visit_deps.induct)
  case (1 meta m name path st)
  then show ?case using card_visiting [of meta ps m st] by simp
next
  case (2 k meta m name path st)
  from "2.prems"(5) obtain p where p: "m name = Some p" by auto
  show ?case
  proof (cases "tp_state st name")
    case Unvisited
    let ?st = "st\<lparr>tp_state := (tp_state st)(name := Visiting)\<rparr>"
    have v: "visiting ?st = insert name (visiting st)" by (auto simp: visiting_def)
    have n: "name \<notin> visiting st" using Unvisited by (simp add: visiting_def)
    have "length ps < k + card (visiting ?st)"
      using "2.prems"(7) card_visiting [OF "2.prems"(1,4)] n v by simp
    moreover have "\<forall>u \<in> visiting ?st. (u, name) \<in> (depends meta m)\<^sup>*"
      using "2.prems"(6) v by (auto simp: trancl_into_rtrancl)
    moreover have "\<forall>d \<in> set (mt_Requires (meta p)). (name, d) \<in> depends meta m"
      using p by (auto simp: depends_def)
    ultimately show ?thesis
      using "2.IH" [OF Unvisited p "2.prems"(1-3) topo_inv_enter [OF "2.prems"(4) Unvisited p]] Unvisited p
      by fastforce
  next
    case Visiting
    then have "(name, name) \<in> (depends meta m)\<^sup>+" using "2.prems"(6) by (auto simp: visiting_def)
    with "2.prems"(3) show ?thesis by (simp add: acyclic_def)
  qed simp
next
  case (4 k meta m name path dep deps st)
  have d: "(name, dep) \<in> depends meta m" using "4.prems"(5) by simp
  then obtain p where "m name = Some p" "dep \<in> set (mt_Requires (meta p))" by (auto simp: depends_def)
  then have dom: "dep \<in> dom m"
    using "4.prems"(1,2) indexed_dom [OF "4.prems"(1)] by (auto simp: deps_known_def indexed_def)
  then obtain q where q: "m dep = Some q" by auto
  have "\<forall>v \<in> visiting st. (v, dep) \<in> (depends meta m)\<^sup>+"
    using "4.prems"(6) d by (auto intro: rtrancl_into_trancl1)
  from "4.IH"(1) [OF q "4.prems"(1-4) dom this "4.prems"(7)] obtain st1
    where v: "visit k meta m dep (path @ [name]) st = (None, st1)" by blast
  note S = visit_sound(1) [OF "4.prems"(1,4) v]
  have "visiting st1 = visiting st" using S by (simp add: topo_le_def)
  with "4.IH"(2) [OF q v [symmetric] refl "4.prems"(1-3)] S "4.prems" q v show ?case by simp
qed simp

lemma visit_all_complete:
  assumes "indexed meta ps m" "deps_known meta ps" "acyclic (depends meta m)" "length ps < k"
    and "topo_inv meta m st" "visiting st = {}" "set qs \<subseteq> set ps"
  shows "\<exists>st'. visit_all k meta m qs st = (None, st')"
  using assms(5-7)
proof (induction qs arbitrary: st)
  case (Cons q qs)
  have "pname meta q \<in> dom m" using Cons.prems(3) indexed_dom [OF assms(1)] by simp
  then obtain st1 where v: "visit k meta m (pname meta q) [] st = (None, st1)"
    using visit_complete(1) [OF assms(1-3) Cons.prems(1)] Cons.prems(2) assms(4) by fastforce
  note S = visit_sound(1) [OF assms(1) Cons.prems(1) v]
  with Cons.IH [of st1] Cons.prems v show ?case by (simp add: topo_le_def)
qed simp

lemma visit_all_sound:
  assumes "indexed meta ps m"
  shows "topo_inv meta m st \<Longrightarrow> visit_all k meta m qs st = (None, st') \<Longrightarrow>
    topo_inv meta m st' \<and> topo_le st st' \<and> (\<forall>q \<in> set qs. tp_state st' (pname meta q) = Done)"
proof (induction qs arbitrary: st)
  case (Cons q qs)
  then obtain st1 where v: "visit k meta m (pname meta q) [] st = (None, st1)"
    and r: "visit_all k meta m qs st1 = (None, st')"
    by (auto split: prod.splits option.splits)
  note S = visit_sound(1) [OF assms Cons.prems(1) v]
  from Cons.IH [OF _ r] S topo_le_trans [of st st1 st'] show ?case by (auto simp: topo_le_def)
qed simp

lemma topo_inv_start: "topo_inv meta m \<lparr>tp_state = (\<lambda>_. Unvisited), tp_ordered = []\<rparr>"
  by (simp add: topo_inv_def)

lemma topoSort_sound:
  assumes "topoSort meta ps = Inr ord"
  shows "mset ord = mset ps \<and> deps_first meta ord \<and> distinct (map (pname meta) ps)"
proof -
  from assms obtain m st where m: "index_plugins meta Map.empty ps = Inr m"
    and st: "visit_all (Suc (length ps)) meta m ps \<lparr>tp_state = (\<lambda>_. Unvisited), tp_ordered = []\<rparr> = (None, st)"
    and ord: "ord = tp_ordered st"
    by (auto simp: topoSort_def split: sum.splits prod.splits option.splits)
  note I = index_plugins_indexed [OF m]
  note S = visit_all_sound [OF I topo_inv_start st]
  have dist: "distinct (map (pname meta) ps)" using I by (simp add: indexed_def)
  have in_ord: "m (pname meta p) = Some p" if "p \<in> set ord" for p
    using S that unfolding ord topo_inv_def by simp
  have done_ord: "n \<in> pname meta ` set ord" if "tp_state st n = Done" for n
    using S that unfolding ord topo_inv_def by simp
  have "set ord = set ps"
  proof
    show "set ord \<subseteq> set ps" using in_ord I by (auto simp: indexed_def)
    show "set ps \<subseteq> set ord"
    proof
      fix q assume q: "q \<in> set ps"
      then have "tp_state st (pname meta q) = Done" using S by blast
      then have "pname meta q \<in> pname meta ` set ord" by (rule done_ord)
      then obtain p where p: "p \<in> set ord" "pname meta p = pname meta q" by auto
      then have "m (pname meta q) = Some p" using in_ord by metis
      moreover have "m (pname meta q) = Some q" using I q by (simp add: indexed_def)
      ultimately show "q \<in> set ord" using p(1) by simp
    qed
  qed
  moreover have "distinct ord" "distinct ps" using S ord dist by (auto simp: topo_inv_def distinct_map)
  ultimately show ?thesis using S ord dist by (simp add: topo_inv_def set_eq_iff_mset_eq_distinct)
qed

text \<open>Dependencies first means that there is no cycle.\<close>

definition plugin_deps :: "('p \<Rightarrow> Meta) \<Rightarrow> 'p list \<Rightarrow> (string \<times> string) set" where
  "plugin_deps meta ps = {(pname meta p, d) | p d. p \<in> set ps \<and> d \<in> set (mt_Requires (meta p))}"

lemma depends_indexed: "indexed meta ps m \<Longrightarrow> depends meta m = plugin_deps meta ps"
  by (auto simp: depends_def plugin_deps_def indexed_def)

lemma takeWhile_before: "x \<in> set (take i xs) \<Longrightarrow> \<not> P x \<Longrightarrow> length (takeWhile P xs) < i"
proof (induction xs arbitrary: i)
  case (Cons y xs)
  then show ?case by (cases i) auto
qed simp

lemma takeWhile_upto: "\<forall>j < i. P (xs ! j) \<Longrightarrow> i \<le> length xs \<Longrightarrow> i \<le> length (takeWhile P xs)"
proof (induction xs arbitrary: i)
  case (Cons y xs)
  show ?case
  proof (cases i)
    case (Suc j)
    with Cons.prems have "\<forall>k < j. P (xs ! k)" "P y" by (auto dest: spec [of _ "Suc _"])
    with Cons.IH [of j] Cons.prems(2) Suc show ?thesis by simp
  qed simp
qed simp

lemma deps_first_acyclic:
  assumes "deps_first meta ord" "distinct (map (pname meta) ord)"
  shows "acyclic (plugin_deps meta ord)"
proof -
  let ?r = "\<lambda>n. length (takeWhile (\<lambda>p. pname meta p \<noteq> n) ord)"
  have "(a, b) \<in> plugin_deps meta ord \<Longrightarrow> ?r b < ?r a" for a b
  proof -
    assume "(a, b) \<in> plugin_deps meta ord"
    then obtain i where i: "i < length ord" "a = pname meta (ord ! i)" "b \<in> set (mt_Requires (meta (ord ! i)))"
      by (auto simp: plugin_deps_def in_set_conv_nth)
    then have "b \<in> pname meta ` set (take i ord)" using assms(1) by (auto simp: deps_first_def)
    then have "?r b < i" by (auto intro: takeWhile_before)
    moreover have "i \<le> ?r a"
      using assms(2) i by (intro takeWhile_upto) (auto simp: distinct_conv_nth)
    ultimately show ?thesis by simp
  qed
  then have "plugin_deps meta ord \<subseteq> (measure ?r)\<inverse>" by auto
  moreover have "acyclic ((measure ?r)\<inverse>)" by (simp add: acyclic_converse wf_acyclic)
  ultimately show ?thesis by (rule acyclic_subset [rotated])
qed

text \<open>
  C16: plugin ordering is correct and complete. \<open>topoSort\<close> succeeds exactly when the plugin names
  are distinct, every required name is a plugin, and the requirements have no cycle; and then
  its result is a permutation of the plugins in which every plugin comes after all plugins it
  requires. In particular it never runs out of the recursion bound of the model.
\<close>

theorem topoSort_correct:
  "(is_ok (topoSort meta ps) \<longleftrightarrow>
      distinct (map (pname meta) ps) \<and> deps_known meta ps \<and> acyclic (plugin_deps meta ps)) \<and>
   (\<forall>ord. topoSort meta ps = Inr ord \<longrightarrow> mset ord = mset ps \<and> deps_first meta ord)"
proof (intro conjI iffI allI impI)
  assume "is_ok (topoSort meta ps)"
  then obtain ord where ord: "topoSort meta ps = Inr ord" by (rule is_okE)
  note S = topoSort_sound [OF ord]
  have set: "set ord = set ps" using S mset_eq_setD by blast
  have d: "distinct (map (pname meta) ord)"
    using S set mset_eq_imp_distinct_iff by (metis mset_map)
  show "distinct (map (pname meta) ps)" using S by simp
  show "deps_known meta ps"
    using S set by (fastforce simp: deps_known_def deps_first_def in_set_conv_nth [of _ ord] simp flip: set dest: in_set_takeD)
  show "acyclic (plugin_deps meta ps)" using deps_first_acyclic [OF _ d] S set by (simp add: plugin_deps_def)
next
  assume A: "distinct (map (pname meta) ps) \<and> deps_known meta ps \<and> acyclic (plugin_deps meta ps)"
  then obtain m where m: "index_plugins meta Map.empty ps = Inr m"
    using index_plugins_ok [of meta Map.empty ps] by auto
  note I = index_plugins_indexed [OF m]
  have "\<exists>st'. visit_all (Suc (length ps)) meta m ps \<lparr>tp_state = (\<lambda>_. Unvisited), tp_ordered = []\<rparr> = (None, st')"
    using A depends_indexed [OF I] by (intro visit_all_complete [OF I]) (auto simp: topo_inv_start visiting_def)
  then show "is_ok (topoSort meta ps)" using m by (auto simp: topoSort_def)
qed (use topoSort_sound in blast)+

text \<open>Two plugins that require each other are refused; a chain given backwards is put in order.\<close>

theorem topoSort_correct_witness:
  "topoSort id [\<lparr>mt_Name = ''b'', mt_Requires = [''a'']\<rparr>, \<lparr>mt_Name = ''a'', mt_Requires = []\<rparr>] =
     Inr [\<lparr>mt_Name = ''a'', mt_Requires = []\<rparr>, \<lparr>mt_Name = ''b'', mt_Requires = [''a'']\<rparr>] \<and>
   deps_first id [\<lparr>mt_Name = ''a'', mt_Requires = []\<rparr>, \<lparr>mt_Name = ''b'', mt_Requires = [''a'']\<rparr>] \<and>
   \<not> is_ok (topoSort id [\<lparr>mt_Name = ''a'', mt_Requires = [''b'']\<rparr>, \<lparr>mt_Name = ''b'', mt_Requires = [''a'']\<rparr>])"
proof -
  have 1: "topoSort id [\<lparr>mt_Name = ''b'', mt_Requires = [''a'']\<rparr>, \<lparr>mt_Name = ''a'', mt_Requires = []\<rparr>] =
     Inr [\<lparr>mt_Name = ''a'', mt_Requires = []\<rparr>, \<lparr>mt_Name = ''b'', mt_Requires = [''a'']\<rparr>]"
    by (simp add: topoSort_def)
  moreover have "\<not> is_ok (topoSort id [\<lparr>mt_Name = ''a'', mt_Requires = [''b'']\<rparr>, \<lparr>mt_Name = ''b'', mt_Requires = [''a'']\<rparr>])"
    by (simp add: topoSort_def)
  ultimately show ?thesis using topoSort_correct [of id "[\<lparr>mt_Name = ''b'', mt_Requires = [''a'']\<rparr>, \<lparr>mt_Name = ''a'', mt_Requires = []\<rparr>]"]
    by blast
qed

end
