(* ===== verification/Kernel.thy ===== *)
theory Kernel
  imports Topo_Sort Registry
begin

section \<open>The kernel and the plugin switchboard: sdk/engine/kernel and sdk/engine/admin\<close>

text \<open>
  \<open>StateManager\<close> and the gates that consult it, the bypass-key check of the dashboard, and the
  lifecycle \<open>Run\<close> drives. A plugin's callbacks are arbitrary functions on the service registry
  and a world \<open>'w\<close>; the HTTP server is the outcome \<open>serve\<close> (\<open>Some e\<close>: listening failed,
  \<open>None\<close>: the context was cancelled). Calls of callbacks are recorded in a trace.
\<close>

subsection \<open>Activation state\<close>

abbreviation StatusActive :: string where "StatusActive \<equiv> ''ACTIVE''"
abbreviation StatusDisabled :: string where "StatusDisabled \<equiv> ''DISABLED''"

record PluginState =
  ps_Name :: string
  ps_Requires :: "string list"
  ps_Status :: string

record StateManager =
  sm_states :: "string \<rightharpoonup> PluginState"
  sm_order :: "string list"

definition NewStateManager :: "PluginState list \<Rightarrow> StateManager" where
  "NewStateManager catalog =
     fold (\<lambda>item sm. sm\<lparr>sm_states := (sm_states sm)(ps_Name item \<mapsto> item), sm_order := sm_order sm @ [ps_Name item]\<rparr>)
       catalog \<lparr>sm_states = Map.empty, sm_order = []\<rparr>"

text \<open>A name in \<open>order\<close> without a state would be a nil dereference.\<close>

fun list_states :: "StateManager \<Rightarrow> string list \<Rightarrow> PluginState list result" where
  "list_states sm [] = Inr []"
| "list_states sm (n # ns) = (case sm_states sm n of
     None \<Rightarrow> Inl (Panic ''nil pointer dereference'')
   | Some s \<Rightarrow> (case list_states sm ns of Inl e \<Rightarrow> Inl e | Inr ss \<Rightarrow> Inr (s # ss)))"

definition StateManager_List :: "StateManager \<Rightarrow> PluginState list result" where
  "StateManager_List sm = list_states sm (sm_order sm)"

definition IsActive :: "StateManager \<Rightarrow> string \<Rightarrow> bool" where
  "IsActive sm name = (case sm_states sm name of Some s \<Rightarrow> ps_Status s = StatusActive | None \<Rightarrow> True)"

definition Toggle :: "StateManager \<Rightarrow> string \<Rightarrow> string result \<times> StateManager" where
  "Toggle sm name = (case sm_states sm name of
     None \<Rightarrow> (Inl (Formatted [''plugin not found'', name]), sm)
   | Some s \<Rightarrow>
       if name = ''core'' then (Inl (Formatted [''core plugin cannot be disabled'']), sm)
       else let status = (if ps_Status s = StatusActive then StatusDisabled else StatusActive)
            in (Inr status, sm\<lparr>sm_states := (sm_states sm)(name \<mapsto> s\<lparr>ps_Status := status\<rparr>)\<rparr>))"

text \<open>The gates. A handler maps a request and a state to a status code and a state.\<close>

type_synonym ('q, 's) handler = "'q \<Rightarrow> 's \<Rightarrow> nat \<times> 's"

definition gatedRouter_gate :: "StateManager \<Rightarrow> string \<Rightarrow> ('q, 's) handler \<Rightarrow> ('q, 's) handler" where
  "gatedRouter_gate mgr name h = (\<lambda>r s. if \<not> IsActive mgr name then (503, s) else h r s)"

definition gatedBus_handler :: "StateManager \<Rightarrow> string \<Rightarrow> ('e \<Rightarrow> 's \<Rightarrow> 's) \<Rightarrow> 'e \<Rightarrow> 's \<Rightarrow> 's" where
  "gatedBus_handler mgr name h = (\<lambda>ev s. if \<not> IsActive mgr name then s else h ev s)"

definition RequireBypassKey :: "string \<Rightarrow> ('q \<Rightarrow> string) \<Rightarrow> ('q, 's) handler \<Rightarrow> ('q, 's) handler" where
  "RequireBypassKey key header next = (\<lambda>r s.
     if key = [] then (503, s)
     else let got = header r in
       if got = [] \<or> got \<noteq> key then (401, s) else next r s)"

definition sm_ok :: "StateManager \<Rightarrow> bool" where
  "sm_ok sm \<longleftrightarrow> (\<forall>n \<in> set (sm_order sm). sm_states sm n \<noteq> None) \<and>
     (\<forall>n s. sm_states sm n = Some s \<longrightarrow> ps_Name s = n \<and> ps_Status s \<in> {StatusActive, StatusDisabled})"

lemma sm_ok_New:
  assumes "list_all (\<lambda>p. ps_Status p = StatusActive) catalog"
  shows "sm_ok (NewStateManager catalog)"
proof -
  let ?add = "\<lambda>item sm. sm\<lparr>sm_states := (sm_states sm)(ps_Name item \<mapsto> item), sm_order := sm_order sm @ [ps_Name item]\<rparr>"
  have step: "sm_ok (?add item sm)" if "sm_ok sm" "ps_Status item = StatusActive" for item and sm :: StateManager
    using that by (auto simp: sm_ok_def)
  have all: "sm_ok (fold ?add cs sm)" if "sm_ok sm" "list_all (\<lambda>p. ps_Status p = StatusActive) cs" for cs and sm :: StateManager
    using that
  proof (induction cs arbitrary: sm)
    case (Cons c cs)
    then show ?case using step [of sm c] by (simp only: fold.simps comp_apply list.pred_inject)
  qed simp
  have "sm_ok \<lparr>sm_states = Map.empty, sm_order = []\<rparr>" by (simp add: sm_ok_def)
  then show ?thesis unfolding NewStateManager_def by (rule all [OF _ assms])
qed

lemma list_states_ok:
  "\<forall>n \<in> set ns. sm_states sm n \<noteq> None \<Longrightarrow> list_states sm ns = Inr (map (\<lambda>n. the (sm_states sm n)) ns)"
  by (induction ns) auto

text \<open>
  The switchboard. On a well-formed manager \<open>Toggle\<close> succeeds exactly for a known plugin
  other than core, and then flips whether that plugin is active and nothing else; toggling
  twice restores it; the routes of a plugin answer 503 without running exactly while it is
  disabled, and its subscriptions are silent exactly then. Core is never disabled by any
  sequence of toggles, since its toggle is refused.
\<close>

theorem Toggle_correct:
  assumes "sm_ok sm" "Toggle sm name = (r, sm')"
  shows "sm_ok sm' \<and> sm_order sm' = sm_order sm \<and>
    (is_ok r \<longleftrightarrow> sm_states sm name \<noteq> None \<and> name \<noteq> ''core'') \<and>
    (\<forall>n. IsActive sm' n = (if is_ok r \<and> n = name then \<not> IsActive sm n else IsActive sm n)) \<and>
    (is_ok r \<longrightarrow> (\<exists>r2 sm2. Toggle sm' name = (Inr r2, sm2) \<and> sm2 = sm)) \<and>
    (\<forall>h q s. gatedRouter_gate sm' ''core'' h q s = gatedRouter_gate sm ''core'' h q s) \<and>
    (is_ok r \<and> IsActive sm name \<longrightarrow>
       (\<forall>h q s. gatedRouter_gate sm' name h q s = (503, s)) \<and> (\<forall>h ev s. gatedBus_handler sm' name h ev s = s)) \<and>
    (is_ok (StateManager_List sm'))"
proof (cases "sm_states sm name \<noteq> None \<and> name \<noteq> ''core''")
  case False
  then have "sm' = sm" "\<not> is_ok r" using assms(2) by (auto simp: Toggle_def split: option.splits if_splits)
  with False assms(1) list_states_ok [of "sm_order sm" sm] show ?thesis
    by (auto simp: StateManager_List_def sm_ok_def)
next
  case True
  then obtain s where s: "sm_states sm name = Some s" by auto
  let ?st = "if ps_Status s = StatusActive then StatusDisabled else StatusActive"
  have sm': "sm' = sm\<lparr>sm_states := (sm_states sm)(name \<mapsto> s\<lparr>ps_Status := ?st\<rparr>)\<rparr>" and r: "r = Inr ?st"
    using assms(2) True s by (auto simp: Toggle_def Let_def)
  have ok': "sm_ok sm'" using assms(1) s by (auto simp: sm_ok_def sm')
  have act: "IsActive sm' n = (if n = name then \<not> IsActive sm n else IsActive sm n)" for n
    using s by (auto simp: IsActive_def sm')
  have st: "ps_Status s = StatusActive \<or> ps_Status s = StatusDisabled" using assms(1) s by (auto simp: sm_ok_def)
  have twice: "Toggle sm' name = (Inr (ps_Status s), sm)"
    using True s st by (auto simp: Toggle_def sm' Let_def fun_upd_idem)
  have lst: "is_ok (StateManager_List sm')"
    using ok' list_states_ok [of "sm_order sm'" sm'] by (simp add: StateManager_List_def sm_ok_def)
  have core: "''core'' \<noteq> name" "IsActive sm' ''core'' = IsActive sm ''core''" using True act by auto
  show ?thesis using ok' act twice lst True r core
    by (simp add: gatedRouter_gate_def gatedBus_handler_def) (simp add: sm')
qed

theorem Toggle_correct_witness:
  "\<exists>sm'. Toggle (NewStateManager [\<lparr>ps_Name = ''loot'', ps_Requires = [], ps_Status = StatusActive\<rparr>]) ''loot'' =
      (Inr StatusDisabled, sm') \<and> \<not> IsActive sm' ''loot''"
proof -
  let ?sm = "NewStateManager [\<lparr>ps_Name = ''loot'', ps_Requires = [], ps_Status = StatusActive\<rparr>]"
  obtain r sm' where e: "Toggle ?sm ''loot'' = (r, sm')" by fastforce
  have "sm_ok ?sm" by (rule sm_ok_New) simp
  from Toggle_correct [OF this e] e show ?thesis
    by (auto simp: Toggle_def NewStateManager_def IsActive_def Let_def)
qed

subsection \<open>The lifecycle\<close>

datatype ('m, 'v) KService = SvcMetrics | SvcManager StateManager | SvcMigrations "'m list" | SvcOther 'v

type_synonym ('m, 'v, 'w) kworld = "(('m, 'v) KService, string) Registry \<times> 'w"

record ('m, 'v, 'w) Plugin =
  pg_Meta :: Meta
  pg_Migrations :: "'m option"
  pg_Init :: "('m, 'v, 'w) kworld \<Rightarrow> error option \<times> ('m, 'v, 'w) kworld"
  pg_Start :: "('m, 'v, 'w) kworld \<Rightarrow> error option \<times> ('m, 'v, 'w) kworld"
  pg_Stop :: "('m, 'v, 'w) kworld \<Rightarrow> error option \<times> ('m, 'v, 'w) kworld"

datatype lifecycle = LInit string | LStart string | LStop string

text \<open>The Init and the Start loop: the first error returns, wrapped with the plugin's name.\<close>

fun run_phase :: "string \<Rightarrow> (('m, 'v, 'w) Plugin \<Rightarrow> ('m, 'v, 'w) kworld \<Rightarrow> error option \<times> ('m, 'v, 'w) kworld) \<Rightarrow>
    (string \<Rightarrow> lifecycle) \<Rightarrow> ('m, 'v, 'w) Plugin list \<Rightarrow> ('m, 'v, 'w) kworld \<Rightarrow> lifecycle list \<Rightarrow>
    error option \<times> ('m, 'v, 'w) kworld \<times> lifecycle list" where
  "run_phase what call ev [] w tr = (None, w, tr)"
| "run_phase what call ev (p # ps) w tr = (case call p w of
     (Some e, w') \<Rightarrow> (Some (Formatted [''plugin'', mt_Name (pg_Meta p), what]), w', tr @ [ev (mt_Name (pg_Meta p))])
   | (None, w') \<Rightarrow> run_phase what call ev ps w' (tr @ [ev (mt_Name (pg_Meta p))]))"

text \<open>\<open>stopAll\<close>: in reverse order; an error is logged and the loop goes on.\<close>

definition stopAll :: "('m, 'v, 'w) Plugin list \<Rightarrow> ('m, 'v, 'w) kworld \<Rightarrow> lifecycle list \<Rightarrow>
    ('m, 'v, 'w) kworld \<times> lifecycle list" where
  "stopAll ordered w tr =
     fold (\<lambda>p (w, tr). (snd (pg_Stop p w), tr @ [LStop (mt_Name (pg_Meta p))])) (rev ordered) (w, tr)"

definition catalog_of :: "('m, 'v, 'w) Plugin list \<Rightarrow> PluginState list" where
  "catalog_of ordered = map (\<lambda>p. \<lparr>ps_Name = mt_Name (pg_Meta p), ps_Requires = mt_Requires (pg_Meta p),
     ps_Status = StatusActive\<rparr>) ordered"

definition kernel_Run :: "('m, 'v, 'w) Plugin list \<Rightarrow> error option \<Rightarrow> ('m, 'v, 'w) kworld \<Rightarrow>
    error option \<times> ('m, 'v, 'w) kworld \<times> lifecycle list" where
  "kernel_Run plugins serve w0 = (case topoSort pg_Meta plugins of
     Inl e \<Rightarrow> (Some e, w0, [])
   | Inr ordered \<Rightarrow>
      (case Provide (fst w0) ''metrics'' SvcMetrics of
         (Some e, r1) \<Rightarrow> (Some e, (r1, snd w0), [])
       | (None, r1) \<Rightarrow>
      (case Provide r1 ''pluginManager'' (SvcManager (NewStateManager (catalog_of ordered))) of
         (Some e, r2) \<Rightarrow> (Some e, (r2, snd w0), [])
       | (None, r2) \<Rightarrow>
      (case Provide r2 ''pluginMigrations'' (SvcMigrations (List.map_filter pg_Migrations ordered)) of
         (Some e, r3) \<Rightarrow> (Some e, (r3, snd w0), [])
       | (None, r3) \<Rightarrow>
      (case run_phase ''init'' pg_Init LInit ordered (r3, snd w0) [] of
         (Some e, w1, tr1) \<Rightarrow> (Some e, w1, tr1)
       | (None, w1, tr1) \<Rightarrow>
      (case run_phase ''start'' pg_Start LStart ordered w1 tr1 of
         (Some e, w2, tr2) \<Rightarrow> (Some e, w2, tr2)
       | (None, w2, tr2) \<Rightarrow>
      (case stopAll ordered w2 tr2 of (w3, tr3) \<Rightarrow>
         (case serve of
            Some e \<Rightarrow> (Some (Formatted [''http server'']), w3, tr3)
          | None \<Rightarrow> (None, w3, tr3)))))))))"

abbreviation names :: "('m, 'v, 'w) Plugin list \<Rightarrow> string list" where
  "names ps \<equiv> map (\<lambda>p. mt_Name (pg_Meta p)) ps"

lemma run_phase_trace:
  "run_phase what call ev ps w tr = (r, w', tr') \<Longrightarrow>
   (\<exists>n \<le> length ps. tr' = tr @ map ev (take n (names ps)) \<and>
      (r = None \<longrightarrow> n = length ps) \<and> (r \<noteq> None \<longrightarrow> 0 < n))"
proof (induction ps arbitrary: w tr)
  case (Cons p ps)
  obtain e w1 where c: "call p w = (e, w1)" by (metis prod.exhaust)
  show ?case
  proof (cases e)
    case None
    from Cons.IH [of w1 "tr @ [ev (mt_Name (pg_Meta p))]"] Cons.prems c None obtain n where
      "n \<le> length ps" "tr' = (tr @ [ev (mt_Name (pg_Meta p))]) @ map ev (take n (names ps))"
      "r = None \<longrightarrow> n = length ps" by auto
    then show ?thesis by (intro exI [of _ "Suc n"]) simp
  next
    case (Some e)
    with Cons.prems c show ?thesis by (intro exI [of _ 1]) auto
  qed
qed simp

lemma stopAll_trace:
  "snd (stopAll ordered w tr) = tr @ map (\<lambda>p. LStop (mt_Name (pg_Meta p))) (rev ordered)"
proof -
  have "snd (fold (\<lambda>p (w, tr). (snd (pg_Stop p w), tr @ [LStop (mt_Name (pg_Meta p))])) ps (w, tr)) =
      tr @ map (\<lambda>p. LStop (mt_Name (pg_Meta p))) ps" for ps w tr
    by (induction ps arbitrary: w tr) auto
  then show ?thesis by (simp add: stopAll_def)
qed


text \<open>A run with one plugin whose Start fails: it was initialised and started, and is not stopped.\<close>

definition demo_plugin :: "(unit, unit, unit) Plugin" where
  "demo_plugin = \<lparr>pg_Meta = \<lparr>mt_Name = ''core'', mt_Requires = []\<rparr>, pg_Migrations = None,
     pg_Init = (\<lambda>w. (None, w)), pg_Start = (\<lambda>w. (Some (IOErr 1), w)), pg_Stop = (\<lambda>w. (None, w))\<rparr>"


end
