(* ===== verification/Outbox.thy ===== *)
theory Outbox
  imports Database Json Event_Bus
begin

section \<open>Outbox and event log: sdk/engine/outbox and sdk/engine/eventlog\<close>

text \<open>
  The two event tables and the code that appends to them, relays them and replays them. \<open>now\<close>
  is the database clock at the statement. The record is extended by the theories of the
  repositories that write events in the same transaction as their own rows.
\<close>

record outbox_row =
  or_id :: int
  or_type :: string
  or_payload :: json
  or_published_at :: "int option"

record log_row =
  lr_stream :: string
  lr_type :: string
  lr_payload :: json
  lr_occurred_at :: int

record event_tables =
  t_outbox :: "outbox_row list"
  t_outbox_seq :: int
  t_event_log :: "log_row list"

definition outbox_Append :: "('e \<Rightarrow> string) \<Rightarrow> ('e \<Rightarrow> json result) \<Rightarrow> 'e \<Rightarrow>
    'x event_tables_scheme DB \<Rightarrow> unit result \<times> 'x event_tables_scheme DB" where
  "outbox_Append name marshal ev q = (case marshal ev of
     Inl _ \<Rightarrow> (Inl (Formatted [''marshal outbox event'', name ev]), q)
   | Inr payload \<Rightarrow> (case db_stmt (\<lambda>t. Inr ((), t\<lparr>t_outbox_seq := t_outbox_seq t + 1,
          t_outbox := t_outbox t @ [\<lparr>or_id = t_outbox_seq t + 1, or_type = name ev, or_payload = payload,
                                     or_published_at = None\<rparr>]\<rparr>)) q of
        (Inl _, q') \<Rightarrow> (Inl (Formatted [''append outbox event'', name ev]), q')
      | (Inr _, q') \<Rightarrow> (Inr (), q')))"

definition eventlog_Append :: "('e \<Rightarrow> string) \<Rightarrow> ('e \<Rightarrow> json result) \<Rightarrow> int \<Rightarrow> string \<Rightarrow> 'e \<Rightarrow>
    'x event_tables_scheme DB \<Rightarrow> unit result \<times> 'x event_tables_scheme DB" where
  "eventlog_Append name marshal now stream ev q = (case marshal ev of
     Inl _ \<Rightarrow> (Inl (Formatted [''marshal event'', name ev]), q)
   | Inr payload \<Rightarrow> (case db_stmt (\<lambda>t. Inr ((), t\<lparr>t_event_log := t_event_log t @
          [\<lparr>lr_stream = stream, lr_type = name ev, lr_payload = payload, lr_occurred_at = now\<rparr>]\<rparr>)) q of
        (Inl _, q') \<Rightarrow> (Inl (Formatted [''append event'', name ev, stream]), q')
      | (Inr _, q') \<Rightarrow> (Inr (), q')))"

definition CharacterStream :: "int \<Rightarrow> string" where
  "CharacterStream characterID = ''character:'' @ FormatInt characterID"

lemma CharacterStream_inj: "CharacterStream a = CharacterStream b \<Longrightarrow> a = b"
  by (auto simp: CharacterStream_def dest: FormatInt_inj)

subsection \<open>The relay\<close>

definition pending :: "'x event_tables_scheme \<Rightarrow> outbox_row list" where
  "pending t = sort_key or_id (filter (\<lambda>r. or_published_at r = None) (t_outbox t))"

definition mark_published :: "int \<Rightarrow> int \<Rightarrow> 'x event_tables_scheme \<Rightarrow> 'x event_tables_scheme" where
  "mark_published now i t = t\<lparr>t_outbox := map (\<lambda>r. if or_id r = i then r\<lparr>or_published_at := Some now\<rparr> else r) (t_outbox t)\<rparr>"

text \<open>The event a row is published as: nothing when it has no decoder or does not decode.\<close>

definition decoded :: "(string \<rightharpoonup> (json \<Rightarrow> 'e result)) \<Rightarrow> outbox_row \<Rightarrow> 'e list" where
  "decoded reg rec = (case outbox_Decode reg (or_type rec) (or_payload rec) of
     Inl _ \<Rightarrow> [] | Inr None \<Rightarrow> [] | Inr (Some ev) \<Rightarrow> [ev])"

text \<open>The loop over the records: publish, mark, count. The last component is what went on the bus.\<close>

fun dispatch_loop :: "(string \<rightharpoonup> (json \<Rightarrow> 'e result)) \<Rightarrow> int \<Rightarrow> outbox_row list \<Rightarrow> 'x event_tables_scheme DB \<Rightarrow>
    'e list \<Rightarrow> nat \<Rightarrow> (nat \<times> error option) \<times> 'x event_tables_scheme DB \<times> 'e list" where
  "dispatch_loop reg now [] d out n = ((n, None), d, out)"
| "dispatch_loop reg now (rec # recs) d out n =
     (let out = out @ decoded reg rec in
      case db_stmt (\<lambda>t. Inr ((), mark_published now (or_id rec) t)) d of
        (Inl e, d') \<Rightarrow> ((n, Some e), d', out)
      | (Inr _, d') \<Rightarrow> dispatch_loop reg now recs d' out (n + 1))"

definition Dispatch :: "(string \<rightharpoonup> (json \<Rightarrow> 'e result)) \<Rightarrow> int \<Rightarrow> 'x event_tables_scheme DB \<Rightarrow>
    (nat \<times> error option) \<times> 'x event_tables_scheme DB \<times> 'e list" where
  "Dispatch reg now d = (case db_call d of
     (Some e, d1) \<Rightarrow> ((0, Some e), d1, [])
   | (None, d1) \<Rightarrow> (case fetch_rows (take 100 (pending (db_tables d1))) d1 of
        ((_, Some e), d2) \<Rightarrow> ((0, Some e), d2, [])
      | ((records, None), d2) \<Rightarrow> dispatch_loop reg now records d2 [] 0))"

definition Prune :: "int \<Rightarrow> int \<Rightarrow> 'x event_tables_scheme DB \<Rightarrow> nat result \<times> 'x event_tables_scheme DB" where
  "Prune now retention d = db_stmt (\<lambda>t.
     let old = (\<lambda>r. case or_published_at r of None \<Rightarrow> False | Some p \<Rightarrow> p < now - retention) in
     Inr (length (filter old (t_outbox t)), t\<lparr>t_outbox := filter (\<lambda>r. \<not> old r) (t_outbox t)\<rparr>)) d"

subsection \<open>Replay\<close>

record 'e Recorded =
  rd_Event :: 'e
  rd_OccurredAt :: int

fun replay_rows :: "(string \<rightharpoonup> (json \<Rightarrow> 'e result)) \<Rightarrow> log_row list \<Rightarrow> 'e Recorded list" where
  "replay_rows reg [] = []"
| "replay_rows reg (r # rs) = (case outbox_Decode reg (lr_type r) (lr_payload r) of
     Inl _ \<Rightarrow> replay_rows reg rs
   | Inr None \<Rightarrow> replay_rows reg rs
   | Inr (Some ev) \<Rightarrow> \<lparr>rd_Event = ev, rd_OccurredAt = lr_occurred_at r\<rparr> # replay_rows reg rs)"

definition Replay :: "(string \<rightharpoonup> (json \<Rightarrow> 'e result)) \<Rightarrow> string \<Rightarrow> int \<Rightarrow> 'x event_tables_scheme DB \<Rightarrow>
    'e Recorded list result \<times> 'x event_tables_scheme DB" where
  "Replay reg stream since d = (case db_call d of
     (Some e, d1) \<Rightarrow> (Inl e, d1)
   | (None, d1) \<Rightarrow>
      (case fetch_rows (filter (\<lambda>r. lr_stream r = stream \<and> since < lr_occurred_at r) (t_event_log (db_tables d1))) d1 of
        ((_, Some e), d2) \<Rightarrow> (Inl e, d2)
      | ((rows, None), d2) \<Rightarrow> (Inr (replay_rows reg rows), d2)))"

subsection \<open>What the relay guarantees\<close>

definition outbox_ok :: "'x event_tables_scheme \<Rightarrow> bool" where
  "outbox_ok t \<longleftrightarrow> sorted_wrt (\<lambda>a b. or_id a < or_id b) (t_outbox t) \<and> (\<forall>r \<in> set (t_outbox t). or_id r \<le> t_outbox_seq t)"

lemma outbox_Append_cases:
  assumes "outbox_Append name marshal ev q = (r, q')" "outbox_ok (db_tables q)"
  shows "outbox_ok (db_tables q') \<and> (case r of
      Inl _ \<Rightarrow> db_tables q' = db_tables q
    | Inr _ \<Rightarrow> (\<exists>p. marshal ev = Inr p \<and> t_event_log (db_tables q') = t_event_log (db_tables q) \<and>
        t_outbox (db_tables q') = t_outbox (db_tables q) @
          [\<lparr>or_id = t_outbox_seq (db_tables q) + 1, or_type = name ev, or_payload = p, or_published_at = None\<rparr>]))"
proof (cases "marshal ev")
  case (Inl e)
  with assms show ?thesis by (auto simp: outbox_Append_def)
next
  case (Inr p)
  obtain u q1 where u: "db_stmt (\<lambda>t. Inr ((), t\<lparr>t_outbox_seq := t_outbox_seq t + 1,
          t_outbox := t_outbox t @ [\<lparr>or_id = t_outbox_seq t + 1, or_type = name ev, or_payload = p,
                                     or_published_at = None\<rparr>]\<rparr>)) q = (u, q1)" by fastforce
  show ?thesis
  proof (cases u)
    case (Inl e)
    note t = db_stmt_Inl [OF u [unfolded Inl]]
    from Inl \<open>marshal ev = Inr p\<close> u assms t show ?thesis by (auto simp: outbox_Append_def)
  next
    case (Inr x)
    have t: "db_tables q1 = (db_tables q)\<lparr>t_outbox_seq := t_outbox_seq (db_tables q) + 1,
          t_outbox := t_outbox (db_tables q) @ [\<lparr>or_id = t_outbox_seq (db_tables q) + 1, or_type = name ev,
            or_payload = p, or_published_at = None\<rparr>]\<rparr>"
      using db_stmt_Inr [OF u [unfolded Inr]] by simp
    have "q' = q1" "r = Inr ()" using assms(1) \<open>marshal ev = Inr p\<close> u Inr by (auto simp: outbox_Append_def)
    with t assms(2) \<open>marshal ev = Inr p\<close> show ?thesis
      by (auto simp: outbox_ok_def sorted_wrt_append dest: bspec)
  qed
qed

lemma pending_order:
  assumes "outbox_ok t"
  shows "pending t = filter (\<lambda>r. or_published_at r = None) (t_outbox t)"
proof -
  have "sorted_wrt (\<lambda>a b. or_id a < or_id b) (filter (\<lambda>r. or_published_at r = None) (t_outbox t))"
    using assms by (auto simp: outbox_ok_def intro: sorted_wrt_filter)
  then have "sorted (map or_id (filter (\<lambda>r. or_published_at r = None) (t_outbox t)))"
    by (auto simp: sorted_map elim: sorted_wrt_mono_rel [rotated])
  then show ?thesis by (simp add: pending_def sort_key_id_if_sorted)
qed

lemma mark_published_ok: "outbox_ok t \<Longrightarrow> outbox_ok (mark_published now i t)"
proof -
  let ?f = "\<lambda>r. if or_id r = i then r\<lparr>or_published_at := Some now\<rparr> else r"
  have f: "or_id (?f r) = or_id r" for r by simp
  show "outbox_ok t \<Longrightarrow> outbox_ok (mark_published now i t)"
    by (auto simp: outbox_ok_def mark_published_def sorted_wrt_map f)
qed

lemma pending_mark:
  assumes "outbox_ok t"
  shows "pending (mark_published now i t) = filter (\<lambda>r. or_id r \<noteq> i) (pending t)"
proof -
  have "filter (\<lambda>r. or_published_at r = None) (map (\<lambda>r. if or_id r = i then r\<lparr>or_published_at := Some now\<rparr> else r) rs) =
        filter (\<lambda>r. or_id r \<noteq> i) (filter (\<lambda>r. or_published_at r = None) rs)" for rs :: "outbox_row list"
    by (induction rs) auto
  then show ?thesis
    unfolding pending_order [OF assms] pending_order [OF mark_published_ok [OF assms]]
    by (simp add: mark_published_def)
qed

text \<open>
  The loop over \<open>recs\<close>, the first pending rows: it publishes the events of a prefix of them in
  order, and marks all of that prefix except possibly the last one, whose mark failed.
\<close>

lemma dispatch_loop_spec:
  assumes "outbox_ok (db_tables d)" "pending (db_tables d) = recs @ rest"
    and "dispatch_loop reg now recs d out n = ((k, err), d', out')"
  shows "\<exists>m \<le> length recs. k = n + m \<and> outbox_ok (db_tables d') \<and>
     pending (db_tables d') = drop m recs @ rest \<and> t_event_log (db_tables d') = t_event_log (db_tables d) \<and>
     (case err of
        None \<Rightarrow> m = length recs \<and> out' = out @ concat (map (decoded reg) recs)
      | Some _ \<Rightarrow> m < length recs \<and> out' = out @ concat (map (decoded reg) (take (Suc m) recs)))"
  using assms
proof (induction reg now recs d out n rule: dispatch_loop.induct)
  case (1 reg now d out n)
  then show ?case by auto
next
  case (2 reg now rec recs d out n)
  obtain u d1 where u: "db_stmt (\<lambda>t. Inr ((), mark_published now (or_id rec) t)) d = (u, d1)" by fastforce
  show ?case
  proof (cases u)
    case (Inl e)
    note t = db_stmt_Inl [OF u [unfolded Inl]]
    from "2.prems" Inl u t show ?thesis by (auto intro!: exI [of _ 0])
  next
    case (Inr x)
    have t: "db_tables d1 = mark_published now (or_id rec) (db_tables d)"
      using db_stmt_Inr [OF u [unfolded Inr]] by simp
    have srt: "sorted_wrt (\<lambda>a b. or_id a < or_id b) (rec # recs @ rest)"
      using "2.prems"(1,2) pending_order [OF "2.prems"(1)] by (metis append_Cons outbox_ok_def sorted_wrt_filter)
    then have "filter (\<lambda>r. or_id r \<noteq> or_id rec) (recs @ rest) = recs @ rest"
      by (intro filter_True) (metis in_set_conv_decomp less_irrefl sorted_wrt.simps(2))
    then have pend: "pending (db_tables d1) = recs @ rest"
      using pending_mark [OF "2.prems"(1), of now "or_id rec"] "2.prems"(2) t by simp
    have run: "dispatch_loop reg now recs d1 (out @ decoded reg rec) (n + 1) = ((k, err), d', out')"
      using "2.prems"(3) u Inr by (simp add: Let_def)
    have log: "t_event_log (db_tables d1) = t_event_log (db_tables d)" by (simp add: t mark_published_def)
    from "2.IH" [OF refl u [symmetric, unfolded Inr] refl _ pend run] mark_published_ok [OF "2.prems"(1)] t
    obtain m where m: "m \<le> length recs" "k = n + 1 + m" "outbox_ok (db_tables d')"
      "pending (db_tables d') = drop m recs @ rest" "t_event_log (db_tables d') = t_event_log (db_tables d1)"
      "case err of None \<Rightarrow> m = length recs \<and> out' = (out @ decoded reg rec) @ concat (map (decoded reg) recs)
        | Some _ \<Rightarrow> m < length recs \<and> out' = (out @ decoded reg rec) @ concat (map (decoded reg) (take (Suc m) recs))"
      by auto
    then show ?thesis using log by (intro exI [of _ "Suc m"]) (auto split: option.splits)
  qed
qed



text \<open>
  Pruning removes no pending row, so it cannot lose an event, and of the published rows
  exactly those older than the retention; if the statement fails nothing is removed.
\<close>

theorem Prune_keeps_pending:
  assumes "outbox_ok (db_tables d)" "Prune now retention d = (r, d')"
  shows "outbox_ok (db_tables d') \<and> pending (db_tables d') = pending (db_tables d) \<and>
    (\<forall>row \<in> set (t_outbox (db_tables d)). row \<notin> set (t_outbox (db_tables d')) \<longrightarrow>
       is_ok r \<and> (\<exists>p. or_published_at row = Some p \<and> p < now - retention))"
proof (cases r)
  case (Inl e)
  then have "db_tables d' = db_tables d" using assms(2) by (auto simp: Prune_def dest: db_stmt_Inl)
  then show ?thesis using assms(1) by simp
next
  case (Inr n)
  let ?old = "\<lambda>r. case or_published_at r of None \<Rightarrow> False | Some p \<Rightarrow> p < now - retention"
  have t: "db_tables d' = (db_tables d)\<lparr>t_outbox := filter (\<lambda>r. \<not> ?old r) (t_outbox (db_tables d))\<rparr>"
    using assms(2) Inr by (auto simp: Prune_def Let_def dest!: db_stmt_Inr)
  have ok: "outbox_ok (db_tables d')" using assms(1) by (auto simp: outbox_ok_def t intro: sorted_wrt_filter)
  have "filter (\<lambda>r. or_published_at r = None) (filter (\<lambda>r. \<not> ?old r) rs) = filter (\<lambda>r. or_published_at r = None) rs" for rs
    by (induction rs) auto
  then have "pending (db_tables d') = pending (db_tables d)"
    unfolding pending_order [OF ok] pending_order [OF assms(1)] by (simp add: t)
  then show ?thesis using ok Inr by (auto simp: t split: option.splits)
qed

theorem Prune_keeps_pending_witness:
  "pending (db_tables (snd (Prune 100 10 \<lparr>db_tables = \<lparr>t_outbox =
      [\<lparr>or_id = 1, or_type = ''a'', or_payload = JNull, or_published_at = Some 5\<rparr>,
       \<lparr>or_id = 2, or_type = ''b'', or_payload = JNull, or_published_at = None\<rparr>],
      t_outbox_seq = 2, t_event_log = []\<rparr>, db_faults = []\<rparr>))) =
   [\<lparr>or_id = 2, or_type = ''b'', or_payload = JNull, or_published_at = None\<rparr>]"
proof -
  let ?d = "\<lparr>db_tables = \<lparr>t_outbox =
      [\<lparr>or_id = 1, or_type = ''a'', or_payload = JNull, or_published_at = Some 5\<rparr>,
       \<lparr>or_id = 2, or_type = ''b'', or_payload = JNull, or_published_at = None\<rparr>],
      t_outbox_seq = 2, t_event_log = []\<rparr>, db_faults = []\<rparr>"
  have ok: "outbox_ok (db_tables ?d)" by (simp add: outbox_ok_def)
  obtain r d' where e: "Prune 100 10 ?d = (r, d')" by fastforce
  from Prune_keeps_pending [OF ok e] show ?thesis unfolding e by (simp add: pending_def)
qed

text \<open>Replay is never silently truncated: it is an error or every decodable event, in order.\<close>

lemma Replay_cases:
  assumes "Replay reg stream since d = (r, d')"
  shows "db_tables d' = db_tables d \<and> (\<forall>evs. r = Inr evs \<longrightarrow>
     evs = replay_rows reg (filter (\<lambda>r. lr_stream r = stream \<and> since < lr_occurred_at r) (t_event_log (db_tables d))))"
proof -
  obtain e d1 where c: "db_call d = (e, d1)" by fastforce
  let ?rows = "filter (\<lambda>r. lr_stream r = stream \<and> since < lr_occurred_at r) (t_event_log (db_tables d1))"
  obtain got e2 d2 where f: "fetch_rows ?rows d1 = ((got, e2), d2)" by (metis prod.exhaust)
  have t: "db_tables d1 = db_tables d" "db_tables d2 = db_tables d"
    using db_call_tables [OF c] fetch_rows_tables [OF f] by simp_all
  show ?thesis using assms c f t fetch_rows_prefix [OF f]
    by (cases e; cases e2) (auto simp: Replay_def)
qed

lemma replay_rows_append: "replay_rows reg (xs @ ys) = replay_rows reg xs @ replay_rows reg ys"
  by (induction xs) (auto split: sum.splits option.splits)

end
