(* ===== verification/Character.thy ===== *)
theory Character
  imports Outbox Progression Combat_Events Go_Strings
begin

section \<open>Characters: backend/game/character\<close>

text \<open>
  The leveling rules, the Postgres repository with its transactions, and the service. A
  character's stats are Go maps from names to floats (\<open>None\<close> a nil map), stored as JSON.
\<close>

subsection \<open>Leveling\<close>

type_synonym stats = "(string \<times> f64) list option"

definition xpCurve :: Curve where
  "xpCurve = \<lparr>cv_Base = Fin 100, cv_Exp = Fin 2\<rparr>"

definition ExperienceForLevel :: "pow \<Rightarrow> int \<Rightarrow> int" where
  "ExperienceForLevel pow level = XPForLevel pow xpCurve level"

definition ApplyExperience :: "pow \<Rightarrow> int \<Rightarrow> int \<Rightarrow> int \<Rightarrow> int \<times> int \<times> bool" where
  "ApplyExperience pow level currentExp gainedExp =
     (case Apply pow xpCurve level currentExp gainedExp of (l, x, gained) \<Rightarrow> (l, x, 0 < gained))"

text \<open>Writing to a nil map panics.\<close>

definition ApplyLevelUpStatGains :: "stats \<Rightarrow> int \<Rightarrow> stats result" where
  "ApplyLevelUpStatGains base levelsGained =
     (if levelsGained \<le> 0 then Inr base
      else let gain = f64_of_int (wrap32 (levelsGained * 2)) in
        case base of
          None \<Rightarrow> Inl (Panic ''assignment to entry in nil map'')
        | Some m \<Rightarrow> Inr (Some (fold (\<lambda>s m. AList.update s
             (fadd (case map_of m s of None \<Rightarrow> Fin 0 | Some v \<Rightarrow> v) gain) m)
             [''STR'', ''INT'', ''DEX'', ''CON''] m)))"

subsection \<open>Events\<close>

datatype CharEvent =
    RewardsGranted int int int
  | CharacterLeveledUp int int

definition char_event_name :: "CharEvent \<Rightarrow> string" where
  "char_event_name ev = (case ev of RewardsGranted _ _ _ \<Rightarrow> ''rewards_granted''
     | CharacterLeveledUp _ _ \<Rightarrow> ''character_leveled_up'')"

definition marshal_CharEvent :: "CharEvent \<Rightarrow> json result" where
  "marshal_CharEvent ev = Inr (case ev of
     RewardsGranted c g x \<Rightarrow> JObj [(''CharacterID'', JNum (of_int c)), (''Gold'', JNum (of_int g)), (''Exp'', JNum (of_int x))]
   | CharacterLeveledUp c l \<Rightarrow> JObj [(''CharacterID'', JNum (of_int c)), (''NewLevel'', JNum (of_int l))])"

definition decode_RewardsGranted :: "json \<Rightarrow> CharEvent result" where
  "decode_RewardsGranted j =
     res_bind (json_get ''CharacterID'' (json_int in64) j) (\<lambda>c.
     res_bind (json_get ''Gold'' (json_int in64) j) (\<lambda>g.
     res_bind (json_get ''Exp'' (json_int in64) j) (\<lambda>x. Inr (RewardsGranted c g x))))"

definition decode_LeveledUp :: "json \<Rightarrow> CharEvent result" where
  "decode_LeveledUp j =
     res_bind (json_get ''CharacterID'' (json_int in64) j) (\<lambda>c.
     res_bind (json_get ''NewLevel'' (json_int in32) j) (\<lambda>l. Inr (CharacterLeveledUp c l)))"

definition character_decoders :: "string \<rightharpoonup> (json \<Rightarrow> CharEvent result)" where
  "character_decoders = outbox_Register (outbox_Register Map.empty
     ''rewards_granted'' decode_RewardsGranted) ''character_leveled_up'' decode_LeveledUp"

definition sendable_char :: "CharEvent \<Rightarrow> bool" where
  "sendable_char ev \<longleftrightarrow> (case ev of RewardsGranted c g x \<Rightarrow> in64 c \<and> in64 g \<and> in64 x
     | CharacterLeveledUp c l \<Rightarrow> in64 c \<and> in32 l)"

interpretation char_wire: event_codec char_event_name marshal_CharEvent character_decoders sendable_char
  by unfold_locales
    (auto simp: marshal_CharEvent_def sendable_char_def char_event_name_def character_decoders_def
      outbox_Register_def outbox_Decode_def decode_RewardsGranted_def decode_LeveledUp_def split: CharEvent.splits)

subsection \<open>Tables\<close>

record CharRow =
  ch_UserID :: int
  ch_Name :: string
  ch_ClassName :: string
  ch_Level :: int
  ch_Experience :: int
  ch_Gold :: int
  ch_LastActiveAt :: int
  ch_CreatedAt :: int
  ch_UpdatedAt :: int

record StatsRow =
  sr_base :: json
  sr_derived :: json
  sr_updated_at :: int

record character_tables = event_tables +
  t_characters :: "(int \<times> CharRow) list"
  t_characters_seq :: int
  t_character_stats :: "(int \<times> StatsRow) list"

type_synonym 'x chardb = "'x character_tables_scheme DB"

text \<open>\<open>json.Marshal\<close> and \<open>json.Unmarshal\<close> of a map of floats.\<close>

fun marshal_kvs :: "(string \<times> f64) list \<Rightarrow> (string \<times> json) list result" where
  "marshal_kvs [] = Inr []"
| "marshal_kvs ((k, v) # kvs) = res_bind (marshal_f64 v) (\<lambda>j. res_bind (marshal_kvs kvs) (\<lambda>js. Inr ((k, j) # js)))"

definition marshal_stats :: "stats \<Rightarrow> json result" where
  "marshal_stats m = (case m of None \<Rightarrow> Inr JNull | Some kvs \<Rightarrow> res_bind (marshal_kvs kvs) (\<lambda>js. Inr (JObj js)))"

fun unmarshal_kvs :: "(string \<times> json) list \<Rightarrow> (string \<times> f64) list result" where
  "unmarshal_kvs [] = Inr []"
| "unmarshal_kvs ((k, j) # js) = res_bind (json_f64 j) (\<lambda>v. res_bind (unmarshal_kvs js) (\<lambda>kvs. Inr ((k, v) # kvs)))"

definition unmarshal_stats :: "json \<Rightarrow> stats result" where
  "unmarshal_stats j = (case j of JNull \<Rightarrow> Inr None
     | JObj js \<Rightarrow> res_bind (unmarshal_kvs js) (\<lambda>kvs. Inr (Some kvs)) | _ \<Rightarrow> Inl json_err)"

abbreviation "ErrCharacterNotFound \<equiv> Sentinel ''character.ErrCharacterNotFound''"
abbreviation "ErrCharacterLimitReached \<equiv> Sentinel ''character.ErrCharacterLimitReached''"
abbreviation "ErrCharacterNameTaken \<equiv> Sentinel ''character.ErrCharacterNameTaken''"
abbreviation "ErrInvalidClass \<equiv> Sentinel ''character.ErrInvalidClass''"
abbreviation "ErrNameTooShort \<equiv> Sentinel ''character.ErrNameTooShort''"
abbreviation "ErrNameTooLong \<equiv> Sentinel ''character.ErrNameTooLong''"
abbreviation "ErrStatUnavailable \<equiv> Sentinel ''character.ErrStatUnavailable''"

definition not_found :: "error \<Rightarrow> error" where
  "not_found e = (if e = ErrNoRows then ErrCharacterNotFound else e)"

subsection \<open>Repository\<close>

text \<open>\<open>SELECT ... FROM characters WHERE id = $1\<close>.\<close>

definition select_character :: "int \<Rightarrow> 'x chardb \<Rightarrow> CharRow result \<times> 'x chardb" where
  "select_character i = db_stmt (\<lambda>t. case map_of (t_characters t) i of None \<Rightarrow> Inl ErrNoRows | Some c \<Rightarrow> Inr (c, t))"

definition update_character :: "int \<Rightarrow> (CharRow \<Rightarrow> CharRow) \<Rightarrow> 'x chardb \<Rightarrow> nat result \<times> 'x chardb" where
  "update_character i f = db_stmt (\<lambda>t. Inr (if map_of (t_characters t) i = None then 0 else 1,
     t\<lparr>t_characters := AList.map_entry i f (t_characters t)\<rparr>))"

definition character_Create :: "int \<Rightarrow> int \<Rightarrow> string \<Rightarrow> string \<Rightarrow> stats \<Rightarrow> stats \<Rightarrow> 'x chardb \<Rightarrow> int result \<times> 'x chardb" where
  "character_Create now userID name className baseStats derivedStats d = WithinTx d (
     tx_bind (db_stmt (\<lambda>t. Inr (length (filter (\<lambda>(_, c). ch_UserID c = userID) (t_characters t)), t))) (\<lambda>count.
     if count \<ge> 4 then tx_return (Inl ErrCharacterLimitReached)
     else tx_bind (db_stmt (\<lambda>t.
         if list_ex (\<lambda>(_, c). ch_Name c = name) (t_characters t) then Inl ErrCharacterNameTaken
         else let i = t_characters_seq t + 1 in
           Inr (i, t\<lparr>t_characters_seq := i, t_characters := t_characters t @ [(i, \<lparr>ch_UserID = userID, ch_Name = name,
             ch_ClassName = className, ch_Level = 1, ch_Experience = 0, ch_Gold = 0, ch_LastActiveAt = now,
             ch_CreatedAt = now, ch_UpdatedAt = now\<rparr>)]\<rparr>))) (\<lambda>i.
     tx_bind (tx_return (marshal_stats baseStats)) (\<lambda>baseJSON.
     tx_bind (tx_return (marshal_stats derivedStats)) (\<lambda>derivedJSON.
     tx_bind (db_stmt (\<lambda>t. Inr ((), t\<lparr>t_character_stats := AList.update i
          \<lparr>sr_base = baseJSON, sr_derived = derivedJSON, sr_updated_at = now\<rparr> (t_character_stats t)\<rparr>))) (\<lambda>_.
     tx_return (Inr i)))))))"

record CharacterWithStats =
  cw_ID :: int
  cw_Char :: CharRow
  cw_Base :: stats
  cw_Derived :: stats

definition character_GetByID :: "int \<Rightarrow> 'x chardb \<Rightarrow> CharacterWithStats result \<times> 'x chardb" where
  "character_GetByID i d =
     tx_bind (tx_map_err not_found (db_stmt (\<lambda>t. case (map_of (t_characters t) i, map_of (t_character_stats t) i) of
         (Some c, Some s) \<Rightarrow> Inr ((c, s), t) | _ \<Rightarrow> Inl ErrNoRows))) (\<lambda>(c, s).
     tx_bind (tx_return (unmarshal_stats (sr_base s))) (\<lambda>base.
     tx_bind (tx_return (unmarshal_stats (sr_derived s))) (\<lambda>derived.
     tx_return (Inr \<lparr>cw_ID = i, cw_Char = c, cw_Base = base, cw_Derived = derived\<rparr>)))) d"

definition character_GetByName :: "string \<Rightarrow> 'x chardb \<Rightarrow> (int \<times> CharRow) result \<times> 'x chardb" where
  "character_GetByName name = tx_map_err not_found (db_stmt (\<lambda>t.
     case filter (\<lambda>(_, c). ch_Name c = name) (t_characters t) of [] \<Rightarrow> Inl ErrNoRows | x # _ \<Rightarrow> Inr (x, t)))"

text \<open>\<open>rows.Err()\<close> is not consulted: a failure while reading the rows ends the loop silently.\<close>

definition character_ListByUserID :: "int \<Rightarrow> 'x chardb \<Rightarrow> (int \<times> CharRow) list result \<times> 'x chardb" where
  "character_ListByUserID userID d = (case db_call d of
     (Some e, d1) \<Rightarrow> (Inl e, d1)
   | (None, d1) \<Rightarrow> (case fetch_rows (sort_key fst (filter (\<lambda>(_, c). ch_UserID c = userID) (t_characters (db_tables d1)))) d1 of
        ((chars, _), d2) \<Rightarrow> (Inr chars, d2)))"

definition character_UpdateStats :: "int \<Rightarrow> int \<Rightarrow> stats \<Rightarrow> 'x chardb \<Rightarrow> unit result \<times> 'x chardb" where
  "character_UpdateStats now charID derivedStats =
     tx_bind (tx_return (marshal_stats derivedStats)) (\<lambda>derivedJSON.
     tx_bind (db_stmt (\<lambda>t. Inr (if map_of (t_character_stats t) charID = None then 0 else 1 :: nat,
          t\<lparr>t_character_stats := AList.map_entry charID (\<lambda>s. s\<lparr>sr_derived := derivedJSON, sr_updated_at := now\<rparr>)
               (t_character_stats t)\<rparr>))) (\<lambda>n.
     tx_return (if n = 0 then Inl ErrCharacterNotFound else Inr ())))"

definition character_UpdateLastActive :: "int \<Rightarrow> int \<Rightarrow> 'x chardb \<Rightarrow> unit result \<times> 'x chardb" where
  "character_UpdateLastActive now charID =
     tx_bind (update_character charID (\<lambda>c. c\<lparr>ch_LastActiveAt := now\<rparr>)) (\<lambda>n.
     tx_return (if n = 0 then Inl ErrCharacterNotFound else Inr ()))"

definition repo_SpendGold :: "int \<Rightarrow> int \<Rightarrow> int \<Rightarrow> 'x chardb \<Rightarrow> bool result \<times> 'x chardb" where
  "repo_SpendGold now charID amount d =
     (if amount \<le> 0 then (Inr True, d)
      else WithinTx d (
        tx_bind (tx_map_err not_found (select_character charID)) (\<lambda>c.
        if ch_Gold c < amount then tx_return (Inr False)
        else tx_bind (update_character charID (\<lambda>c. c\<lparr>ch_Gold := ch_Gold c - amount, ch_UpdatedAt := now\<rparr>)) (\<lambda>_.
          tx_return (Inr True)))))"

definition level_up_stats :: "int \<Rightarrow> int \<Rightarrow> int \<Rightarrow> 'x chardb \<Rightarrow> unit result \<times> 'x chardb" where
  "level_up_stats now charID levels =
     tx_bind (db_stmt (\<lambda>t. case map_of (t_character_stats t) charID of
         None \<Rightarrow> Inl ErrNoRows | Some s \<Rightarrow> Inr (sr_base s, t))) (\<lambda>baseBytes.
     tx_bind (tx_return (unmarshal_stats baseBytes)) (\<lambda>baseStats.
     tx_bind (tx_return (ApplyLevelUpStatGains baseStats levels)) (\<lambda>newBase.
     tx_bind (tx_return (marshal_stats newBase)) (\<lambda>newBytes.
     db_stmt (\<lambda>t. Inr ((), t\<lparr>t_character_stats := AList.map_entry charID
         (\<lambda>s. s\<lparr>sr_base := newBytes, sr_updated_at := now\<rparr>) (t_character_stats t)\<rparr>))))))"

text \<open>Both tables get the event, the outbox first.\<close>

definition append_both :: "int \<Rightarrow> string \<Rightarrow> CharEvent \<Rightarrow> 'x event_tables_scheme DB \<Rightarrow> unit result \<times> 'x event_tables_scheme DB" where
  "append_both now stream ev =
     tx_bind (outbox_Append char_event_name marshal_CharEvent ev) (\<lambda>_.
       eventlog_Append char_event_name marshal_CharEvent now stream ev)"

text \<open>The writes of \<open>AddRewards\<close>, once the row is read and the new level computed.\<close>

definition reward_writes :: "int \<Rightarrow> int \<Rightarrow> int \<Rightarrow> int \<Rightarrow> CharRow \<Rightarrow> int \<Rightarrow> int \<Rightarrow> bool \<Rightarrow> 'x chardb \<Rightarrow> (bool \<times> int) result \<times> 'x chardb" where
  "reward_writes now charID goldToAdd expToAdd c newLevel newExp leveledUp =
     (let newGold = wrap64 (ch_Gold c + goldToAdd) in
     tx_bind (update_character charID (\<lambda>c. c\<lparr>ch_Level := newLevel, ch_Experience := newExp, ch_Gold := newGold,
                                        ch_UpdatedAt := now\<rparr>)) (\<lambda>_.
     tx_bind (if leveledUp then level_up_stats now charID (wrap32 (newLevel - ch_Level c)) else tx_return (Inr ())) (\<lambda>_.
     tx_bind (append_both now (CharacterStream charID) (RewardsGranted charID goldToAdd expToAdd)) (\<lambda>_.
     tx_bind (if leveledUp then append_both now (CharacterStream charID) (CharacterLeveledUp charID newLevel)
              else tx_return (Inr ())) (\<lambda>_.
     tx_return (Inr (leveledUp, newLevel)))))))"

definition repo_AddRewards :: "pow \<Rightarrow> int \<Rightarrow> int \<Rightarrow> int \<Rightarrow> int \<Rightarrow> 'x chardb \<Rightarrow> (bool \<times> int) result \<times> 'x chardb" where
  "repo_AddRewards pow now charID goldToAdd expToAdd d = WithinTx d (
     tx_bind (tx_map_err not_found (select_character charID)) (\<lambda>c.
     case ApplyExperience pow (ch_Level c) (ch_Experience c) expToAdd of (newLevel, newExp, leveledUp) \<Rightarrow>
       reward_writes now charID goldToAdd expToAdd c newLevel newExp leveledUp))"

subsection \<open>Effects of the statements\<close>

definition chars_of :: "'x chardb \<Rightarrow> int \<rightharpoonup> CharRow" where
  "chars_of d = map_of (t_characters (db_tables d))"

definition base_of :: "'x chardb \<Rightarrow> int \<rightharpoonup> json" where
  "base_of d k = map_option sr_base (map_of (t_character_stats (db_tables d)) k)"

lemma map_of_map_entry:
  "map_of (AList.map_entry k f xs) = (map_of xs)(k := map_option f (map_of xs k))"
  by (induction xs) (auto simp: fun_eq_iff)

lemma select_character_Inr:
  "select_character i d = (Inr c, d') \<Longrightarrow> chars_of d i = Some c \<and> db_tables d' = db_tables d"
  by (auto simp: select_character_def chars_of_def dest!: db_stmt_Inr split: option.splits)

lemma update_character_Inr:
  "update_character i f d = (Inr n, d') \<Longrightarrow>
   db_tables d' = (db_tables d)\<lparr>t_characters := AList.map_entry i f (t_characters (db_tables d))\<rparr>"
  by (auto simp: update_character_def dest!: db_stmt_Inr)

lemma append_both_Inr:
  assumes "append_both now stream ev d = (Inr u, d')"
  shows "\<exists>p i. marshal_CharEvent ev = Inr p \<and>
    t_outbox (db_tables d') = t_outbox (db_tables d) @
      [\<lparr>or_id = i, or_type = char_event_name ev, or_payload = p, or_published_at = None\<rparr>] \<and>
    t_event_log (db_tables d') = t_event_log (db_tables d) @
      [\<lparr>lr_stream = stream, lr_type = char_event_name ev, lr_payload = p, lr_occurred_at = now\<rparr>] \<and>
    event_tables.more (db_tables d') = event_tables.more (db_tables d)"
proof -
  obtain d1 v where a: "outbox_Append char_event_name marshal_CharEvent ev d = (Inr v, d1)"
    and b: "eventlog_Append char_event_name marshal_CharEvent now stream ev d1 = (Inr u, d')"
    using assms unfolding append_both_def by (elim tx_bind_Inr)
  from a obtain p x where p: "marshal_CharEvent ev = Inr p" and da: "db_stmt (\<lambda>t. Inr ((), t\<lparr>t_outbox_seq := t_outbox_seq t + 1,
          t_outbox := t_outbox t @ [\<lparr>or_id = t_outbox_seq t + 1, or_type = char_event_name ev, or_payload = p,
                                     or_published_at = None\<rparr>]\<rparr>)) d = (Inr x, d1)"
    by (auto simp: outbox_Append_def split: sum.splits prod.splits)
  from b p obtain y where db: "db_stmt (\<lambda>t. Inr ((), t\<lparr>t_event_log := t_event_log t @
          [\<lparr>lr_stream = stream, lr_type = char_event_name ev, lr_payload = p, lr_occurred_at = now\<rparr>]\<rparr>)) d1 = (Inr y, d')"
    by (auto simp: eventlog_Append_def split: sum.splits prod.splits)
  show ?thesis using db_stmt_upd [OF da] db_stmt_upd [OF db] p by auto
qed

lemma level_up_stats_Inr:
  assumes "level_up_stats now charID n d = (Inr u, d')"
  shows "\<exists>b b' nb nj. base_of d charID = Some b \<and> unmarshal_stats b = Inr b' \<and>
     ApplyLevelUpStatGains b' n = Inr nb \<and> marshal_stats nb = Inr nj \<and>
     base_of d' = (base_of d)(charID \<mapsto> nj) \<and> chars_of d' = chars_of d \<and>
     t_outbox (db_tables d') = t_outbox (db_tables d) \<and> t_event_log (db_tables d') = t_event_log (db_tables d)"
proof -
  obtain b d1 b' nb nj where s: "db_stmt (\<lambda>t. case map_of (t_character_stats t) charID of
         None \<Rightarrow> Inl ErrNoRows | Some s \<Rightarrow> Inr (sr_base s, t)) d = (Inr b, d1)"
    and j: "unmarshal_stats b = Inr b'" "ApplyLevelUpStatGains b' n = Inr nb" "marshal_stats nb = Inr nj"
    and w: "db_stmt (\<lambda>t. Inr ((), t\<lparr>t_character_stats := AList.map_entry charID
         (\<lambda>s. s\<lparr>sr_base := nj, sr_updated_at := now\<rparr>) (t_character_stats t)\<rparr>)) d1 = (Inr u, d')"
    using assms unfolding level_up_stats_def by (elim tx_bind_Inr) auto
  from db_stmt_Inr [OF s] obtain r where r: "map_of (t_character_stats (db_tables d)) charID = Some r" "b = sr_base r"
    "db_tables d1 = db_tables d" by (auto split: option.splits)
  from db_stmt_upd [OF w] r j show ?thesis
    by (intro exI [of _ b] exI [of _ b'] exI [of _ nb] exI [of _ nj])
      (auto simp: base_of_def chars_of_def map_of_map_entry fun_eq_iff)
qed

subsection \<open>Gold\<close>

lemma SpendGold_cases:
  assumes "0 < amount" "repo_SpendGold now charID amount d = (r, d')"
  shows "t_outbox (db_tables d') = t_outbox (db_tables d) \<and> t_event_log (db_tables d') = t_event_log (db_tables d) \<and>
    base_of d' = base_of d \<and>
    (case r of
       Inl e \<Rightarrow> db_tables d' = db_tables d
     | Inr ok \<Rightarrow> (\<exists>c. chars_of d charID = Some c \<and> ok = (amount \<le> ch_Gold c) \<and>
         chars_of d' = (if ok then (chars_of d)(charID \<mapsto> c\<lparr>ch_Gold := ch_Gold c - amount, ch_UpdatedAt := now\<rparr>)
                        else chars_of d) \<and>
         (ok \<longrightarrow> 0 \<le> ch_Gold c - amount)))"
proof (cases r)
  case (Inl e)
  then have "db_tables d' = db_tables d" using assms by (auto simp: repo_SpendGold_def dest: WithinTx_atomic)
  with Inl show ?thesis by (simp add: base_of_def fun_eq_iff)
next
  case (Inr ok)
  let ?fn = "tx_bind (tx_map_err not_found (select_character charID)) (\<lambda>c.
        if ch_Gold c < amount then tx_return (Inr False)
        else tx_bind (update_character charID (\<lambda>c. c\<lparr>ch_Gold := ch_Gold c - amount, ch_UpdatedAt := now\<rparr>)) (\<lambda>_.
          tx_return (Inr True)))"
  have "WithinTx d ?fn = (Inr ok, d')" using assms Inr by (simp add: repo_SpendGold_def)
  then obtain d1 d2 where t1: "db_tables d1 = db_tables d" and fn: "?fn d1 = (Inr ok, d2)" and t2: "db_tables d' = db_tables d2"
    by (rule WithinTx_committed)
  from fn obtain c d3 where c: "select_character charID d1 = (Inr c, d3)"
    and rest: "(if ch_Gold c < amount then tx_return (Inr False)
        else tx_bind (update_character charID (\<lambda>c. c\<lparr>ch_Gold := ch_Gold c - amount, ch_UpdatedAt := now\<rparr>)) (\<lambda>_.
          tx_return (Inr True))) d3 = (Inr ok, d2)"
    by (elim tx_bind_Inr) simp
  note C = select_character_Inr [OF c]
  show ?thesis
  proof (cases "ch_Gold c < amount")
    case True
    with rest C t1 t2 Inr show ?thesis by (auto simp: chars_of_def base_of_def)
  next
    case False
    with rest obtain n where u: "update_character charID (\<lambda>c. c\<lparr>ch_Gold := ch_Gold c - amount, ch_UpdatedAt := now\<rparr>) d3 = (Inr n, d2)"
      and ok: "ok" by (auto elim!: tx_bind_Inr)
    from update_character_Inr [OF u] C t1 t2 Inr False ok show ?thesis
      by (auto simp: chars_of_def base_of_def map_of_map_entry fun_eq_iff)
  qed
qed

text \<open>
  C12: spending gold on the database, whatever driver calls fail. A positive amount is debited
  exactly when the character has it, in one transaction: the answer is true exactly when the
  balance sufficed, and then it fell by the amount and stayed non-negative; no other character,
  no level, no experience, no stat and no event changes; on an error nothing changes at all.
\<close>

theorem SpendGold_correct:
  assumes "0 < amount" "repo_SpendGold now charID amount d = (r, d')"
  shows "t_outbox (db_tables d') = t_outbox (db_tables d) \<and> t_event_log (db_tables d') = t_event_log (db_tables d) \<and>
    base_of d' = base_of d \<and>
    (case r of
       Inl e \<Rightarrow> db_tables d' = db_tables d
     | Inr ok \<Rightarrow> (\<exists>c. chars_of d charID = Some c \<and> ok = (amount \<le> ch_Gold c) \<and>
         chars_of d' = (if ok then (chars_of d)(charID \<mapsto> c\<lparr>ch_Gold := ch_Gold c - amount, ch_UpdatedAt := now\<rparr>)
                        else chars_of d) \<and>
         (ok \<longrightarrow> 0 \<le> ch_Gold c - amount)))"
  using SpendGold_cases [OF assms] .

theorem SpendGold_correct_witness:
  "fst (repo_SpendGold 9 1 30 \<lparr>db_tables = \<lparr>t_outbox = [], t_outbox_seq = 0, t_event_log = [],
      t_characters = [(1, \<lparr>ch_UserID = 1, ch_Name = ''Ayla'', ch_ClassName = ''MAGE'', ch_Level = 1, ch_Experience = 0,
         ch_Gold = 100, ch_LastActiveAt = 0, ch_CreatedAt = 0, ch_UpdatedAt = 0\<rparr>)],
      t_characters_seq = 1, t_character_stats = []\<rparr>, db_faults = []\<rparr>) = Inr True"
proof -
  let ?d = "\<lparr>db_tables = \<lparr>t_outbox = [], t_outbox_seq = 0, t_event_log = [],
      t_characters = [(1, \<lparr>ch_UserID = 1, ch_Name = ''Ayla'', ch_ClassName = ''MAGE'', ch_Level = 1, ch_Experience = 0,
         ch_Gold = 100, ch_LastActiveAt = 0, ch_CreatedAt = 0, ch_UpdatedAt = 0\<rparr>)],
      t_characters_seq = 1, t_character_stats = []\<rparr>, db_faults = []\<rparr>"
  obtain r d' where e: "repo_SpendGold 9 1 30 ?d = (r, d')" by fastforce
  have "is_ok r" using e
    by (auto simp: repo_SpendGold_def WithinTx_def tx_bind_def tx_map_err_def select_character_def
        update_character_def db_stmt_def tx_return_def)
  then obtain b where r: "r = Inr b" by (rule is_okE)
  from SpendGold_correct [OF _ e] show ?thesis by (simp add: r e chars_of_def)
qed

subsection \<open>Rewards\<close>

lemma decoded_char:
  assumes "sendable_char ev" "marshal_CharEvent ev = Inr p"
  shows "decoded character_decoders \<lparr>or_id = i, or_type = char_event_name ev, or_payload = p, or_published_at = q\<rparr> = [ev]"
    and "replay_rows character_decoders [\<lparr>lr_stream = s, lr_type = char_event_name ev, lr_payload = p, lr_occurred_at = now\<rparr>]
         = [\<lparr>rd_Event = ev, rd_OccurredAt = now\<rparr>]"
  using char_wire.dec_enc [OF assms] by (simp_all add: decoded_def)

text \<open>The events a reward writes to the two tables.\<close>

definition reward_events :: "int \<Rightarrow> int \<Rightarrow> int \<Rightarrow> int \<Rightarrow> bool \<Rightarrow> CharEvent list" where
  "reward_events charID g x newLevel up =
     RewardsGranted charID g x # (if up then [CharacterLeveledUp charID newLevel] else [])"

definition appended_events :: "'x event_tables_scheme DB \<Rightarrow> 'x event_tables_scheme DB \<Rightarrow> string \<Rightarrow> int \<Rightarrow> CharEvent list \<Rightarrow> bool" where
  "appended_events d d' stream now evs \<longleftrightarrow> (\<exists>rows logs.
     t_outbox (db_tables d') = t_outbox (db_tables d) @ rows \<and>
     t_event_log (db_tables d') = t_event_log (db_tables d) @ logs \<and>
     list_all (\<lambda>r. or_published_at r = None) rows \<and> list_all (\<lambda>l. lr_stream l = stream) logs \<and>
     concat (map (decoded character_decoders) rows) = evs \<and>
     replay_rows character_decoders logs = map (\<lambda>ev. \<lparr>rd_Event = ev, rd_OccurredAt = now\<rparr>) evs)"

lemma appended_none:
  "t_outbox (db_tables d') = t_outbox (db_tables d) \<Longrightarrow> t_event_log (db_tables d') = t_event_log (db_tables d) \<Longrightarrow>
   appended_events d d' stream now []"
  by (simp add: appended_events_def)

lemma appended_trans:
  assumes "appended_events d d1 stream now es" "appended_events d1 d2 stream now fs"
  shows "appended_events d d2 stream now (es @ fs)"
proof -
  from assms(1) obtain r1 l1 where 1: "t_outbox (db_tables d1) = t_outbox (db_tables d) @ r1"
     "t_event_log (db_tables d1) = t_event_log (db_tables d) @ l1"
     "list_all (\<lambda>r. or_published_at r = None) r1" "list_all (\<lambda>l. lr_stream l = stream) l1"
     "concat (map (decoded character_decoders) r1) = es"
     "replay_rows character_decoders l1 = map (\<lambda>ev. \<lparr>rd_Event = ev, rd_OccurredAt = now\<rparr>) es"
    by (auto simp: appended_events_def)
  from assms(2) obtain r2 l2 where 2: "t_outbox (db_tables d2) = t_outbox (db_tables d1) @ r2"
     "t_event_log (db_tables d2) = t_event_log (db_tables d1) @ l2"
     "list_all (\<lambda>r. or_published_at r = None) r2" "list_all (\<lambda>l. lr_stream l = stream) l2"
     "concat (map (decoded character_decoders) r2) = fs"
     "replay_rows character_decoders l2 = map (\<lambda>ev. \<lparr>rd_Event = ev, rd_OccurredAt = now\<rparr>) fs"
    by (auto simp: appended_events_def)
  show ?thesis unfolding appended_events_def
    by (rule exI [of _ "r1 @ r2"], rule exI [of _ "l1 @ l2"]) (simp add: 1 2 replay_rows_append)
qed

lemma append_both_events:
  assumes "append_both now stream ev d = (Inr u, d')" "sendable_char ev"
  shows "appended_events d d' stream now [ev]" "chars_of d' = chars_of d" "base_of d' = base_of d"
proof -
  from append_both_Inr [OF assms(1)] obtain p i where *: "marshal_CharEvent ev = Inr p"
    "t_outbox (db_tables d') = t_outbox (db_tables d) @
      [\<lparr>or_id = i, or_type = char_event_name ev, or_payload = p, or_published_at = None\<rparr>]"
    "t_event_log (db_tables d') = t_event_log (db_tables d) @
      [\<lparr>lr_stream = stream, lr_type = char_event_name ev, lr_payload = p, lr_occurred_at = now\<rparr>]"
    "event_tables.more (db_tables d') = event_tables.more (db_tables d)" by blast
  from * decoded_char [OF assms(2) *(1)] show "appended_events d d' stream now [ev]"
    unfolding appended_events_def
    by (intro exI [of _ "[\<lparr>or_id = i, or_type = char_event_name ev, or_payload = p, or_published_at = None\<rparr>]"]
        exI [of _ "[\<lparr>lr_stream = stream, lr_type = char_event_name ev, lr_payload = p, lr_occurred_at = now\<rparr>]"]) auto
  from *(4) have "t_characters (db_tables d') = t_characters (db_tables d)"
    "t_character_stats (db_tables d') = t_character_stats (db_tables d)"
    by (cases "db_tables d", cases "db_tables d'", simp)+
  then show "chars_of d' = chars_of d" "base_of d' = base_of d" by (simp_all add: chars_of_def base_of_def fun_eq_iff)
qed

lemma reward_writes_Inr:
  assumes run: "reward_writes now charID g x c l x' up d = (Inr q, d')"
    and c: "chars_of d charID = Some c" and ok: "in64 charID" "in64 g" "in64 x" "in32 l"
  shows "q = (up, l) \<and>
     chars_of d' = (chars_of d)(charID \<mapsto> c\<lparr>ch_Level := l, ch_Experience := x',
        ch_Gold := wrap64 (ch_Gold c + g), ch_UpdatedAt := now\<rparr>) \<and>
     (if up then \<exists>b b' nb nj. base_of d charID = Some b \<and> unmarshal_stats b = Inr b' \<and>
          ApplyLevelUpStatGains b' (wrap32 (l - ch_Level c)) = Inr nb \<and> marshal_stats nb = Inr nj \<and>
          base_of d' = (base_of d)(charID \<mapsto> nj)
      else base_of d' = base_of d) \<and>
     appended_events d d' (CharacterStream charID) now (reward_events charID g x l up)"
proof -
  let ?u = "\<lambda>ch. ch\<lparr>ch_Level := l, ch_Experience := x', ch_Gold := wrap64 (ch_Gold c + g), ch_UpdatedAt := now\<rparr>"
  let ?s = "CharacterStream charID"
  obtain m d1 v d2 y d3 z d4 where
      u: "update_character charID ?u d = (Inr m, d1)"
    and s: "(if up then level_up_stats now charID (wrap32 (l - ch_Level c)) else tx_return (Inr ())) d1 = (Inr v, d2)"
    and e1: "append_both now ?s (RewardsGranted charID g x) d2 = (Inr y, d3)"
    and e2: "(if up then append_both now ?s (CharacterLeveledUp charID l) else tx_return (Inr ())) d3 = (Inr z, d4)"
    and out: "tx_return (Inr (up, l)) d4 = (Inr q, d')"
    using run unfolding reward_writes_def Let_def by (elim tx_bind_Inr)
  note U = update_character_Inr [OF u]
  have chars1: "chars_of d1 = (chars_of d)(charID \<mapsto> ?u c)" and base1: "base_of d1 = base_of d"
    and app1: "appended_events d d1 ?s now []"
    using U c by (auto simp: chars_of_def base_of_def map_of_map_entry fun_eq_iff intro: appended_none)
  have chars2: "chars_of d2 = chars_of d1" and app2: "appended_events d1 d2 ?s now []"
    and base2: "if up then \<exists>b b' nb nj. base_of d1 charID = Some b \<and> unmarshal_stats b = Inr b' \<and>
          ApplyLevelUpStatGains b' (wrap32 (l - ch_Level c)) = Inr nb \<and> marshal_stats nb = Inr nj \<and>
          base_of d2 = (base_of d1)(charID \<mapsto> nj)
      else base_of d2 = base_of d1"
    using s level_up_stats_Inr [of now charID "wrap32 (l - ch_Level c)" d1 v d2]
    by (cases up; auto intro: appended_none)+
  have "sendable_char (RewardsGranted charID g x)" "sendable_char (CharacterLeveledUp charID l)"
    using ok by (simp_all add: sendable_char_def)
  note E1 = append_both_events [OF e1 this(1)] and E2 = append_both_events [OF _ this(2), of now ?s d3 z d4]
  have tail: "chars_of d4 = chars_of d3 \<and> base_of d4 = base_of d3 \<and>
      appended_events d3 d4 ?s now (if up then [CharacterLeveledUp charID l] else [])"
    using e2 E2 by (cases up) (auto intro: appended_none)
  have "appended_events d d4 ?s now (([] @ [] @ [RewardsGranted charID g x]) @ (if up then [CharacterLeveledUp charID l] else []))"
    by (intro appended_trans [OF appended_trans [OF app1 appended_trans [OF app2 E1(1)]]]) (use tail in blast)
  then have "appended_events d d4 ?s now (reward_events charID g x l up)" by (simp add: reward_events_def)
  with chars1 chars2 base1 base2 E1(2,3) tail out show ?thesis by (cases up) auto
qed

text \<open>
  C11: granting rewards is one transaction, whatever driver calls fail. On an error no table has
  changed: no gold, no level, no stat and no event. On success the character's gold and progress
  are exactly the old ones plus the reward under the level-up rule, no other character changed,
  the base stats were raised through \<open>ApplyLevelUpStatGains\<close> exactly when levels were gained, and
  both the outbox and the character's event stream gained exactly the reward event and, exactly
  on a level-up, the level-up event, in this order, each decodable and not yet published.
\<close>

theorem AddRewards_correct:
  assumes run: "repo_AddRewards pow now charID g x d = (r, d')"
    and types: "in64 charID" "in64 g" "in64 x" "\<forall>c. chars_of d charID = Some c \<longrightarrow> in32 (ch_Level c)"
  shows "case r of
      Inl e \<Rightarrow> db_tables d' = db_tables d
    | Inr (up, lvl) \<Rightarrow> (\<exists>c. chars_of d charID = Some c \<and>
        (case Apply pow xpCurve (ch_Level c) (ch_Experience c) x of (l, x', gained) \<Rightarrow>
           lvl = l \<and> up = (0 < gained) \<and>
           chars_of d' = (chars_of d)(charID \<mapsto> c\<lparr>ch_Level := l, ch_Experience := x',
              ch_Gold := wrap64 (ch_Gold c + g), ch_UpdatedAt := now\<rparr>) \<and>
           (if up then \<exists>b b' nb nj. base_of d charID = Some b \<and> unmarshal_stats b = Inr b' \<and>
                ApplyLevelUpStatGains b' (wrap32 (l - ch_Level c)) = Inr nb \<and> marshal_stats nb = Inr nj \<and>
                base_of d' = (base_of d)(charID \<mapsto> nj)
            else base_of d' = base_of d) \<and>
           appended_events d d' (CharacterStream charID) now (reward_events charID g x l up)))"
proof (cases r)
  case (Inl e)
  then show ?thesis using run by (auto simp: repo_AddRewards_def dest: WithinTx_atomic)
next
  case (Inr q)
  let ?fn = "tx_bind (tx_map_err not_found (select_character charID)) (\<lambda>c.
     case ApplyExperience pow (ch_Level c) (ch_Experience c) x of (newLevel, newExp, leveledUp) \<Rightarrow>
       reward_writes now charID g x c newLevel newExp leveledUp)"
  from run [unfolded repo_AddRewards_def Inr] obtain d1 d2 where t1: "db_tables d1 = db_tables d"
    and fn: "?fn d1 = (Inr q, d2)" and t2: "db_tables d' = db_tables d2" by (rule WithinTx_committed)
  from fn obtain c d3 where c: "select_character charID d1 = (Inr c, d3)"
    and rest: "(case ApplyExperience pow (ch_Level c) (ch_Experience c) x of (newLevel, newExp, leveledUp) \<Rightarrow>
       reward_writes now charID g x c newLevel newExp leveledUp) d3 = (Inr q, d2)"
    by (elim tx_bind_Inr) simp
  note C = select_character_Inr [OF c]
  have views: "chars_of d3 = chars_of d" "base_of d3 = base_of d" "chars_of d' = chars_of d2" "base_of d' = base_of d2"
    "\<And>s n e. appended_events d3 d2 s n e = appended_events d d' s n e"
    using C t1 t2 by (simp_all add: chars_of_def base_of_def fun_eq_iff appended_events_def)
  obtain l x' n where A: "Apply pow xpCurve (ch_Level c) (ch_Experience c) x = (l, x', n)" by (metis prod_cases3)
  have cd: "chars_of d charID = Some c" using C t1 by (simp add: chars_of_def)
  have l: "in32 l" using Apply_typ [OF A] types(4) cd by (simp add: progression_typ_def)
  have w: "reward_writes now charID g x c l x' (0 < n) d3 = (Inr q, d2)"
    using rest A by (simp add: ApplyExperience_def)
  from reward_writes_Inr [OF w _ types(1-3) l] cd views A Inr show ?thesis by auto
qed

definition demo_chars :: "character_tables DB" where
  "demo_chars = \<lparr>db_tables = \<lparr>t_outbox = [], t_outbox_seq = 0, t_event_log = [],
      t_characters = [(1, \<lparr>ch_UserID = 1, ch_Name = ''Ayla'', ch_ClassName = ''MAGE'', ch_Level = 1, ch_Experience = 0,
         ch_Gold = 100, ch_LastActiveAt = 0, ch_CreatedAt = 0, ch_UpdatedAt = 0\<rparr>)],
      t_characters_seq = 1, t_character_stats = []\<rparr>, db_faults = []\<rparr>"

theorem AddRewards_correct_witness:
  "\<exists>d'. repo_AddRewards pow_id 9 1 25 0 demo_chars = (Inr (False, 1), d') \<and>
     map_option ch_Gold (chars_of d' 1) = Some 125 \<and>
     appended_events demo_chars d' (CharacterStream 1) 9 [RewardsGranted 1 25 0]"
proof -
  obtain r d' where e: "repo_AddRewards pow_id 9 1 25 0 demo_chars = (r, d')" by fastforce
  have x1: "XPForLevel pow_id xpCurve 1 = 100"
    by (simp add: XPForLevel_def xpCurve_def pow_id_def f64_of_int_def int64_of_f64_def rat_trunc_def in64_def)
  have A: "Apply pow_id xpCurve 1 0 0 = (1, 0, 0)"
    by (simp add: Apply_def wrap64_def apply_loop_stop x1)
  have "is_ok r" using e
    by (auto simp: repo_AddRewards_def reward_writes_def demo_chars_def WithinTx_def tx_bind_def tx_map_err_def
        select_character_def update_character_def db_stmt_def tx_return_def ApplyExperience_def A append_both_def
        outbox_Append_def eventlog_Append_def marshal_CharEvent_def Let_def)
  then obtain up lvl where r: "r = Inr (up, lvl)" by (metis is_okE prod.exhaust)
  have c: "chars_of demo_chars 1 = Some \<lparr>ch_UserID = 1, ch_Name = ''Ayla'', ch_ClassName = ''MAGE'', ch_Level = 1,
      ch_Experience = 0, ch_Gold = 100, ch_LastActiveAt = 0, ch_CreatedAt = 0, ch_UpdatedAt = 0\<rparr>"
    by (simp add: chars_of_def demo_chars_def)
  from AddRewards_correct [OF e] r show ?thesis
    by (auto simp: c A e in64_def in32_def reward_events_def wrap64_def)
qed

subsection \<open>Creation\<close>

text \<open>What the schema and the repository keep: unique ids and names, at most four characters a user.\<close>

definition chars_ok :: "'x character_tables_scheme \<Rightarrow> bool" where
  "chars_ok t \<longleftrightarrow> al_ok (t_characters t) \<and> (\<forall>i \<in> set (keys (t_characters t)). i \<le> t_characters_seq t) \<and>
     distinct (map (ch_Name \<circ> snd) (t_characters t)) \<and>
     (\<forall>u. length (filter (\<lambda>(_, c). ch_UserID c = u) (t_characters t)) \<le> 4)"

lemma character_Create_Inr:
  assumes run: "character_Create now userID name cls base derived d = (Inr i, d')"
  shows "\<exists>srow. i = t_characters_seq (db_tables d) + 1 \<and>
    length (filter (\<lambda>(_, c). ch_UserID c = userID) (t_characters (db_tables d))) < 4 \<and>
    \<not> list_ex (\<lambda>(_, c). ch_Name c = name) (t_characters (db_tables d)) \<and>
    db_tables d' = (db_tables d)\<lparr>t_characters_seq := i, t_characters := t_characters (db_tables d) @
      [(i, \<lparr>ch_UserID = userID, ch_Name = name, ch_ClassName = cls, ch_Level = 1, ch_Experience = 0, ch_Gold = 0,
       ch_LastActiveAt = now, ch_CreatedAt = now, ch_UpdatedAt = now\<rparr>)],
      t_character_stats := AList.update i srow (t_character_stats (db_tables d))\<rparr>"
proof -
  let ?new = "\<lparr>ch_UserID = userID, ch_Name = name, ch_ClassName = cls, ch_Level = 1, ch_Experience = 0, ch_Gold = 0,
     ch_LastActiveAt = now, ch_CreatedAt = now, ch_UpdatedAt = now\<rparr>"
  let ?t = "db_tables d"
  from run [unfolded character_Create_def] obtain n d1 d2 where t1: "db_tables d1 = ?t"
    and fn: "tx_bind (db_stmt (\<lambda>t. Inr (length (filter (\<lambda>(_, c). ch_UserID c = userID) (t_characters t)), t))) (\<lambda>count.
     if count \<ge> 4 then tx_return (Inl ErrCharacterLimitReached)
     else tx_bind (db_stmt (\<lambda>t.
         if list_ex (\<lambda>(_, c). ch_Name c = name) (t_characters t) then Inl ErrCharacterNameTaken
         else let i = t_characters_seq t + 1 in
           Inr (i, t\<lparr>t_characters_seq := i, t_characters := t_characters t @ [(i, ?new)]\<rparr>))) (\<lambda>i.
     tx_bind (tx_return (marshal_stats base)) (\<lambda>baseJSON.
     tx_bind (tx_return (marshal_stats derived)) (\<lambda>derivedJSON.
     tx_bind (db_stmt (\<lambda>t. Inr ((), t\<lparr>t_character_stats := AList.update i
          \<lparr>sr_base = baseJSON, sr_derived = derivedJSON, sr_updated_at = now\<rparr> (t_character_stats t)\<rparr>))) (\<lambda>_.
     tx_return (Inr i)))))) d1 = (Inr i, d2)" and t2: "db_tables d' = db_tables d2"
    by (rule WithinTx_committed)
  from fn obtain cnt d3 k d4 bj dj d5 where
      q: "db_stmt (\<lambda>t. Inr (length (filter (\<lambda>(_, c). ch_UserID c = userID) (t_characters t)), t)) d1 = (Inr cnt, d3)"
    and lim: "\<not> 4 \<le> cnt"
    and ins: "db_stmt (\<lambda>t. if list_ex (\<lambda>(_, c). ch_Name c = name) (t_characters t) then Inl ErrCharacterNameTaken
         else let i = t_characters_seq t + 1 in
           Inr (i, t\<lparr>t_characters_seq := i, t_characters := t_characters t @ [(i, ?new)]\<rparr>)) d3 = (Inr k, d4)"
    and st: "db_stmt (\<lambda>t. Inr ((), t\<lparr>t_character_stats := AList.update k
          \<lparr>sr_base = bj, sr_derived = dj, sr_updated_at = now\<rparr> (t_character_stats t)\<rparr>)) d4 = (Inr (), d5)"
    and out: "k = i" "d5 = d2"
    by (elim tx_bind_Inr) (auto split: if_splits elim!: tx_bind_Inr)
  have t3: "db_tables d3 = ?t" and cnt: "cnt = length (filter (\<lambda>(_, c). ch_UserID c = userID) (t_characters ?t))"
    using db_stmt_upd [OF q] t1 by auto
  have free: "\<not> list_ex (\<lambda>(_, c). ch_Name c = name) (t_characters ?t)" and i: "i = t_characters_seq ?t + 1"
    and t4: "db_tables d4 = ?t\<lparr>t_characters_seq := i, t_characters := t_characters ?t @ [(i, ?new)]\<rparr>"
    using db_stmt_Inr [OF ins] t3 out by (auto simp: Let_def split: if_splits)
  have "db_tables d' = (db_tables d4)\<lparr>t_character_stats := AList.update i
      \<lparr>sr_base = bj, sr_derived = dj, sr_updated_at = now\<rparr> (t_character_stats (db_tables d4))\<rparr>"
    using db_stmt_upd [OF st] out t2 by simp
  then show ?thesis using free i lim cnt t4 by auto
qed

text \<open>
  C13: creating a character keeps the ids and names unique and at most four characters per user,
  whatever driver calls fail. On success the user had fewer than four, the name was free, and
  exactly one character was added, at level 1 without gold or experience; on an error (the limit,
  a taken name, a stat that cannot be stored, a failed statement) nothing has changed.
\<close>

theorem character_Create_correct:
  assumes ok: "chars_ok (db_tables d)" and run: "character_Create now userID name cls base derived d = (r, d')"
  shows "chars_ok (db_tables d') \<and> (case r of
      Inl e \<Rightarrow> db_tables d' = db_tables d
    | Inr i \<Rightarrow> i \<notin> set (keys (t_characters (db_tables d))) \<and>
        (\<forall>c \<in> snd ` set (t_characters (db_tables d)). ch_Name c \<noteq> name) \<and>
        length (filter (\<lambda>(_, c). ch_UserID c = userID) (t_characters (db_tables d))) < 4 \<and>
        chars_of d' = (chars_of d)(i \<mapsto> \<lparr>ch_UserID = userID, ch_Name = name, ch_ClassName = cls, ch_Level = 1,
           ch_Experience = 0, ch_Gold = 0, ch_LastActiveAt = now, ch_CreatedAt = now, ch_UpdatedAt = now\<rparr>))"
proof (cases r)
  case (Inl e)
  then have "db_tables d' = db_tables d" using run by (auto simp: character_Create_def dest: WithinTx_atomic)
  with Inl ok show ?thesis by simp
next
  case (Inr i)
  let ?new = "\<lparr>ch_UserID = userID, ch_Name = name, ch_ClassName = cls, ch_Level = 1, ch_Experience = 0, ch_Gold = 0,
     ch_LastActiveAt = now, ch_CreatedAt = now, ch_UpdatedAt = now\<rparr>"
  let ?t = "db_tables d"
  from character_Create_Inr [OF run [unfolded Inr]] obtain srow where i: "i = t_characters_seq ?t + 1"
    and lim: "length (filter (\<lambda>(_, c). ch_UserID c = userID) (t_characters ?t)) < 4"
    and free: "\<not> list_ex (\<lambda>(_, c). ch_Name c = name) (t_characters ?t)"
    and t': "db_tables d' = ?t\<lparr>t_characters_seq := i, t_characters := t_characters ?t @ [(i, ?new)],
      t_character_stats := AList.update i srow (t_character_stats ?t)\<rparr>" by blast
  have ch: "t_characters (db_tables d') = t_characters ?t @ [(i, ?new)]" "t_characters_seq (db_tables d') = i"
    by (simp_all add: t')
  have bound: "j \<le> t_characters_seq ?t" if "j \<in> set (keys (t_characters ?t))" for j
    using ok that unfolding chars_ok_def by blast
  have fresh: "i \<notin> set (keys (t_characters ?t))" using bound [of i] i by linarith
  have names: "\<forall>c \<in> snd ` set (t_characters ?t). ch_Name c \<noteq> name" using free by (auto simp: list_ex_iff)
  have "al_ok (t_characters (db_tables d'))" using ok fresh by (simp add: chars_ok_def al_ok_def ch)
  moreover have "\<forall>j \<in> set (keys (t_characters (db_tables d'))). j \<le> t_characters_seq (db_tables d')"
    unfolding ch map_append set_append using bound i by fastforce
  moreover have "distinct (map (ch_Name \<circ> snd) (t_characters (db_tables d')))"
    using ok names by (auto simp: chars_ok_def ch)
  moreover have "length (filter (\<lambda>(_, c). ch_UserID c = u) (t_characters (db_tables d'))) \<le> 4" for u
    using ok lim by (cases "u = userID") (simp_all add: chars_ok_def ch)
  ultimately have "chars_ok (db_tables d')" by (simp add: chars_ok_def)
  moreover have "chars_of d' = (chars_of d)(i \<mapsto> ?new)"
    unfolding chars_of_def ch by (rule map_of_snoc [OF fresh])
  ultimately show ?thesis using fresh names lim Inr by simp
qed

theorem character_Create_correct_witness:
  "\<exists>d'. character_Create 9 1 ''Bram'' ''WARRIOR'' (Some [(''STR'', Fin 10)]) (Some []) demo_chars = (Inr 2, d') \<and>
     map_option ch_Name (chars_of d' 2) = Some ''Bram'' \<and> chars_ok (db_tables d')"
proof -
  obtain r d' where e: "character_Create 9 1 ''Bram'' ''WARRIOR'' (Some [(''STR'', Fin 10)]) (Some []) demo_chars = (r, d')"
    by fastforce
  have ok: "chars_ok (db_tables demo_chars)" by (simp add: chars_ok_def demo_chars_def al_ok_def)
  have "r = Inr 2" using e
    by (auto simp: character_Create_def demo_chars_def WithinTx_def tx_bind_def db_stmt_def tx_return_def
        marshal_stats_def marshal_f64_def Let_def)
  with character_Create_correct [OF ok e] e show ?thesis by auto
qed

subsection \<open>The service\<close>

record Modifier =
  mo_Stat :: string
  mo_Operation :: string
  mo_Value :: f64
  mo_Priority :: int
  mo_SourceID :: string

record RewardsFilter =
  rf_CharacterID :: int
  rf_Gold :: int
  rf_Exp :: int

record StatsRecalcFilter =
  sf_CharacterID :: int
  sf_DerivedStats :: stats

abbreviation "HookRewards \<equiv> ''character.rewards''"
abbreviation "HookStatsRecalc \<equiv> ''character.stats_recalc''"

text \<open>
  The collaborators: the class pack, the stat engine (\<open>None\<close> when not loaded), the equipment
  provider and the hooks. \<open>StatsRecalculated\<close> events go to a trace when there is a bus.
\<close>

record 'x CharSvc =
  sv_classDefs :: "string \<rightharpoonup> (string \<times> f64) list"
  sv_statClient :: "(stats \<Rightarrow> Modifier list \<Rightarrow> stats result) option"
  sv_equip :: "(int \<Rightarrow> 'x chardb \<Rightarrow> Modifier list result \<times> 'x chardb) option"
  sv_eventBus :: bool
  sv_rewardHooks :: "(RewardsFilter filter_any, unit) Hooks option"
  sv_statHooks :: "(StatsRecalcFilter filter_any, unit) Hooks option"

definition svc_Create :: "'x CharSvc \<Rightarrow> int \<Rightarrow> int \<Rightarrow> string \<Rightarrow> string \<Rightarrow> 'x chardb \<Rightarrow> CharacterWithStats result \<times> 'x chardb" where
  "svc_Create svc now userID name0 className0 d =
     (let name = TrimSpace name0; className = ToUpper (TrimSpace className0) in
      if length name < 3 then (Inl ErrNameTooShort, d)
      else if length name > 16 then (Inl ErrNameTooLong, d)
      else case sv_classDefs svc className of
        None \<Rightarrow> (Inl ErrInvalidClass, d)
      | Some classBase \<Rightarrow> (case sv_statClient svc of
          None \<Rightarrow> (Inl ErrStatUnavailable, d)
        | Some calculate \<Rightarrow> (case calculate (Some classBase) [] of
            Inl e \<Rightarrow> (Inl e, d)
          | Inr derivedStats \<Rightarrow>
              tx_bind (character_Create now userID name className (Some classBase) derivedStats) character_GetByID d)))"

definition svc_RecalculateStats :: "'x CharSvc \<Rightarrow> int \<Rightarrow> int \<Rightarrow> 'x chardb \<Rightarrow> stats list \<Rightarrow> unit result \<times> 'x chardb \<times> stats list" where
  "svc_RecalculateStats svc now charID d trace =
     (case character_GetByID charID d of
        (Inl e, d1) \<Rightarrow> (Inl e, d1, trace)
      | (Inr cw, d1) \<Rightarrow>
         (case (case sv_equip svc of None \<Rightarrow> (Inr [], d1) | Some mods \<Rightarrow> mods (wrap32 charID) d1) of
            (Inl e, d2) \<Rightarrow> (Inl e, d2, trace)
          | (Inr eqModifiers, d2) \<Rightarrow> (case sv_statClient svc of
              None \<Rightarrow> (Inl ErrStatUnavailable, d2, trace)
            | Some calculate \<Rightarrow> (case calculate (cw_Base cw) eqModifiers of
                Inl e \<Rightarrow> (Inl e, d2, trace)
              | Inr finalStats \<Rightarrow>
                  let filtered = sf_DerivedStats (ApplyFilters (sv_statHooks svc) HookStatsRecalc
                        \<lparr>sf_CharacterID = charID, sf_DerivedStats = finalStats\<rparr>) in
                  (case character_UpdateStats now charID filtered d2 of
                     (Inl e, d3) \<Rightarrow> (Inl e, d3, trace)
                   | (Inr _, d3) \<Rightarrow> (Inr (), d3, if sv_eventBus svc then trace @ [filtered] else trace))))))"

text \<open>\<open>AddRewards\<close>: the filters first, so that the recorded event has the filtered amounts; the
  outcome of the recalculation after a level-up is ignored.\<close>

definition svc_AddRewards :: "pow \<Rightarrow> 'x CharSvc \<Rightarrow> int \<Rightarrow> int \<Rightarrow> int \<Rightarrow> int \<Rightarrow> 'x chardb \<Rightarrow> stats list \<Rightarrow>
    (bool \<times> int) result \<times> 'x chardb \<times> stats list" where
  "svc_AddRewards pow svc now charID g x d trace =
     (let r = ApplyFilters (sv_rewardHooks svc) HookRewards \<lparr>rf_CharacterID = charID, rf_Gold = g, rf_Exp = x\<rparr> in
      case repo_AddRewards pow now charID (rf_Gold r) (rf_Exp r) d of
        (Inl e, d1) \<Rightarrow> (Inl e, d1, trace)
      | (Inr (leveledUp, newLevel), d1) \<Rightarrow>
          if leveledUp then (case svc_RecalculateStats svc now charID d1 trace of
            (_, d2, trace2) \<Rightarrow> (Inr (leveledUp, newLevel), d2, trace2))
          else (Inr (leveledUp, newLevel), d1, trace))"

text \<open>The validation of a new character's name: nothing is written unless it has 3 to 16 bytes
  once trimmed, and what is stored is the trimmed name.\<close>

lemma svc_Create_validates:
  assumes "svc_Create svc now userID name cls d = (r, d')" "db_tables d' \<noteq> db_tables d"
  shows "3 \<le> length (TrimSpace name) \<and> length (TrimSpace name) \<le> 16 \<and>
    sv_classDefs svc (ToUpper (TrimSpace cls)) \<noteq> None \<and> sv_statClient svc \<noteq> None"
  using assms by (auto simp: svc_Create_def Let_def split: if_splits option.splits)

end
