(* ===== verification/Items.thy ===== *)
theory Items
  imports Character
begin

section \<open>Item definitions: backend/game/items\<close>

text \<open>
  The service validates and normalises a definition and the repository stores it, modifiers and
  metadata as JSONB. The record \<open>game_tables\<close> adds the tables of migrations 3 and 4 to those
  of the character package. A slice is a list (a nil slice and an empty one decode alike); a
  metadata map is \<open>None\<close> when nil and its values are JSON values. Limits on the length of
  columns are not modelled: a statement the server rejects for them is one that fails, which the
  fault stream of the database covers.
\<close>

subsection \<open>Data\<close>

abbreviation "ErrItemAlreadyExists \<equiv> Sentinel ''items.ErrItemAlreadyExists''"
abbreviation "items_ErrItemNotFound \<equiv> Sentinel ''items.ErrItemNotFound''"
abbreviation "ErrInvalidSlotType \<equiv> Sentinel ''items.ErrInvalidSlotType''"
abbreviation "ErrInvalidModifierType \<equiv> Sentinel ''items.ErrInvalidModifierType''"
abbreviation "unique_violation \<equiv> Formatted [''SQLSTATE 23505'']"
abbreviation "foreign_key_violation \<equiv> Formatted [''SQLSTATE 23503'']"

record ItemDefinition =
  it_ID :: string
  it_Name :: string
  it_Description :: string
  it_SlotType :: string
  it_MinLevel :: int
  it_ClassRestrictions :: "string list"
  it_StatsModifiers :: "Modifier list"
  it_Metadata :: "(string \<times> json) list option"
  it_CreatedAt :: int

record ItemRow =
  ir_name :: string
  ir_description :: string
  ir_slot_type :: string
  ir_min_level :: int
  ir_class_restrictions :: "string list"
  ir_stats_modifiers :: json
  ir_metadata :: json
  ir_created_at :: int

record InvRow =
  iv_id :: int
  iv_character_id :: int
  iv_slot_index :: int
  iv_item_definition_id :: string
  iv_quantity :: int
  iv_durability :: int
  iv_custom_modifiers :: json
  iv_created_at :: int
  iv_updated_at :: int

record game_tables = character_tables +
  t_items :: "(string \<times> ItemRow) list"
  t_inventories :: "InvRow list"
  t_inventories_seq :: int

type_synonym 'x gamedb = "'x game_tables_scheme DB"

subsection \<open>JSON columns\<close>

text \<open>\<open>contracts.Modifier\<close>: the source id is left out when empty.\<close>

definition marshal_Modifier :: "Modifier \<Rightarrow> json result" where
  "marshal_Modifier m = res_bind (marshal_f64 (mo_Value m)) (\<lambda>v.
     Inr (JObj ([(''stat'', JStr (mo_Stat m)), (''operation'', JStr (mo_Operation m)), (''value'', v),
       (''priority'', JNum (of_int (mo_Priority m)))] @
       (if mo_SourceID m = [] then [] else [(''source_id'', JStr (mo_SourceID m))]))))"

definition unmarshal_Modifier :: "json \<Rightarrow> Modifier result" where
  "unmarshal_Modifier j =
     res_bind (json_get ''stat'' json_string j) (\<lambda>st.
     res_bind (json_get ''operation'' json_string j) (\<lambda>opn.
     res_bind (json_get ''value'' json_f64 j) (\<lambda>v.
     res_bind (json_get ''priority'' (json_int in32) j) (\<lambda>p.
     res_bind (json_get ''source_id'' json_string j) (\<lambda>src.
       Inr \<lparr>mo_Stat = st, mo_Operation = opn, mo_Value = v, mo_Priority = p, mo_SourceID = src\<rparr>)))))"

fun marshal_all :: "('a \<Rightarrow> json result) \<Rightarrow> 'a list \<Rightarrow> json list result" where
  "marshal_all enc [] = Inr []"
| "marshal_all enc (a # as) = res_bind (enc a) (\<lambda>j. res_bind (marshal_all enc as) (\<lambda>js. Inr (j # js)))"

definition marshal_Modifiers :: "Modifier list \<Rightarrow> json result" where
  "marshal_Modifiers ms = res_bind (marshal_all marshal_Modifier ms) (\<lambda>js. Inr (JArr js))"

definition unmarshal_Modifiers :: "json \<Rightarrow> Modifier list result" where
  "unmarshal_Modifiers = json_array unmarshal_Modifier"

text \<open>Decoding into \<open>any\<close>: numbers become \<open>float64\<close> values.\<close>

fun json_any :: "json \<Rightarrow> json result"
  and json_any_list :: "json list \<Rightarrow> json list result"
  and json_any_fields :: "(string \<times> json) list \<Rightarrow> (string \<times> json) list result" where
  "json_any JNull = Inr JNull"
| "json_any (JBool b) = Inr (JBool b)"
| "json_any (JNum r) = res_bind (json_f64 (JNum r)) marshal_f64"
| "json_any (JStr s) = Inr (JStr s)"
| "json_any (JArr js) = res_bind (json_any_list js) (\<lambda>js. Inr (JArr js))"
| "json_any (JObj fs) = res_bind (json_any_fields fs) (\<lambda>fs. Inr (JObj fs))"
| "json_any_list [] = Inr []"
| "json_any_list (j # js) = res_bind (json_any j) (\<lambda>j. res_bind (json_any_list js) (\<lambda>js. Inr (j # js)))"
| "json_any_fields [] = Inr []"
| "json_any_fields (f # fs) = res_bind (json_any (snd f)) (\<lambda>j. res_bind (json_any_fields fs) (\<lambda>fs. Inr ((fst f, j) # fs)))"

definition marshal_Metadata :: "(string \<times> json) list option \<Rightarrow> json result" where
  "marshal_Metadata m = Inr (case m of None \<Rightarrow> JNull | Some fs \<Rightarrow> JObj fs)"

definition unmarshal_Metadata :: "json \<Rightarrow> (string \<times> json) list option result" where
  "unmarshal_Metadata j = (case j of JNull \<Rightarrow> Inr None
     | JObj fs \<Rightarrow> res_bind (json_any_fields fs) (\<lambda>fs. Inr (Some fs)) | _ \<Rightarrow> Inl json_err)"

subsection \<open>Repository\<close>

definition items_Create :: "int \<Rightarrow> ItemDefinition \<Rightarrow> 'x gamedb \<Rightarrow> ItemDefinition result \<times> 'x gamedb" where
  "items_Create now item =
     tx_bind (tx_return (marshal_Modifiers (it_StatsModifiers item))) (\<lambda>modsJSON.
     tx_bind (tx_return (marshal_Metadata (it_Metadata item))) (\<lambda>metaJSON.
     tx_map_err (\<lambda>e. if e = unique_violation then ErrItemAlreadyExists else e) (db_stmt (\<lambda>t.
       if map_of (t_items t) (it_ID item) \<noteq> None then Inl unique_violation
       else Inr (item\<lparr>it_CreatedAt := now\<rparr>, t\<lparr>t_items := t_items t @ [(it_ID item,
         \<lparr>ir_name = it_Name item, ir_description = it_Description item, ir_slot_type = it_SlotType item,
          ir_min_level = it_MinLevel item, ir_class_restrictions = it_ClassRestrictions item,
          ir_stats_modifiers = modsJSON, ir_metadata = metaJSON, ir_created_at = now\<rparr>)]\<rparr>)))))"

definition items_Update :: "ItemDefinition \<Rightarrow> 'x gamedb \<Rightarrow> unit result \<times> 'x gamedb" where
  "items_Update item =
     tx_bind (tx_return (marshal_Modifiers (it_StatsModifiers item))) (\<lambda>modsJSON.
     tx_bind (tx_return (marshal_Metadata (it_Metadata item))) (\<lambda>metaJSON.
     tx_bind (db_stmt (\<lambda>t. Inr (if map_of (t_items t) (it_ID item) = None then 0 else 1 :: nat,
        t\<lparr>t_items := AList.map_entry (it_ID item) (\<lambda>r. r\<lparr>ir_name := it_Name item,
          ir_description := it_Description item, ir_slot_type := it_SlotType item,
          ir_min_level := it_MinLevel item, ir_class_restrictions := it_ClassRestrictions item,
          ir_stats_modifiers := modsJSON, ir_metadata := metaJSON\<rparr>) (t_items t)\<rparr>))) (\<lambda>n.
     tx_return (if n = 0 then Inl items_ErrItemNotFound else Inr ()))))"

text \<open>What the code does with a row once the driver has scanned it.\<close>

definition scan_definition :: "string \<Rightarrow> ItemRow \<Rightarrow> ItemDefinition result" where
  "scan_definition i r =
     res_bind (unmarshal_Modifiers (ir_stats_modifiers r)) (\<lambda>mods.
     res_bind (unmarshal_Metadata (ir_metadata r)) (\<lambda>meta.
     Inr \<lparr>it_ID = i, it_Name = ir_name r, it_Description = ir_description r, it_SlotType = ir_slot_type r,
       it_MinLevel = ir_min_level r, it_ClassRestrictions = ir_class_restrictions r,
       it_StatsModifiers = mods, it_Metadata = meta, it_CreatedAt = ir_created_at r\<rparr>))"

definition items_GetByID :: "string \<Rightarrow> 'x gamedb \<Rightarrow> ItemDefinition result \<times> 'x gamedb" where
  "items_GetByID i =
     tx_bind (tx_map_err (\<lambda>e. if e = ErrNoRows then items_ErrItemNotFound else e) (db_stmt (\<lambda>t.
        case map_of (t_items t) i of None \<Rightarrow> Inl ErrNoRows | Some r \<Rightarrow> Inr (r, t)))) (\<lambda>r.
     tx_return (scan_definition i r))"

text \<open>
  \<open>List\<close>: \<open>col\<close> is the key of the database's collation. The rows are decoded as they come; a
  failure of the driver while reading ends the loop silently (\<open>rows.Err()\<close> is not consulted).
\<close>

fun scan_rows :: "('r \<Rightarrow> 'a result) \<Rightarrow> 'r list \<Rightarrow> 'a list result" where
  "scan_rows scan [] = Inr []"
| "scan_rows scan (r # rs) = res_bind (scan r) (\<lambda>a. res_bind (scan_rows scan rs) (\<lambda>as. Inr (a # as)))"

definition items_List :: "(string \<Rightarrow> 'k :: linorder) \<Rightarrow> int \<Rightarrow> int \<Rightarrow> 'x gamedb \<Rightarrow> ItemDefinition list result \<times> 'x gamedb" where
  "items_List col limit offset =
     tx_bind (db_stmt (\<lambda>t. if limit < 0 \<or> offset < 0 then Inl (Formatted [''SQLSTATE 2201W''])
        else Inr (take (nat limit) (drop (nat offset) (sort_key (\<lambda>x. col (fst x)) (t_items t))), t))) (\<lambda>rows d.
     case fetch_rows rows d of ((got, _), d') \<Rightarrow> (scan_rows (\<lambda>(i, r). scan_definition i r) got, d'))"

text \<open>The foreign key of \<open>inventories\<close> restricts the deletion.\<close>

definition items_Delete :: "string \<Rightarrow> 'x gamedb \<Rightarrow> unit result \<times> 'x gamedb" where
  "items_Delete i =
     tx_bind (db_stmt (\<lambda>t.
        if map_of (t_items t) i \<noteq> None \<and> list_ex (\<lambda>r. iv_item_definition_id r = i) (t_inventories t)
        then Inl foreign_key_violation
        else Inr (if map_of (t_items t) i = None then 0 else 1 :: nat, t\<lparr>t_items := AList.delete i (t_items t)\<rparr>))) (\<lambda>n.
     tx_return (if n = 0 then Inl items_ErrItemNotFound else Inr ()))"

subsection \<open>Service\<close>

definition validSlots :: "string list" where
  "validSlots = [''WEAPON'', ''BODY_ARMOR'', ''HELMET'', ''SHIELD'', ''SHOES'', ''ACCESSORY'', ''NONE'']"

definition validStats :: "string list" where
  "validStats = [''HP'', ''MP'', ''STR'', ''INT'', ''DEX'', ''CON'', ''ATTACK'', ''DEFENSE'', ''CRIT_RATE'']"

text \<open>The checks of one modifier, on the loop's copy: the normalised strings are not stored.\<close>

definition validate_modifier :: "Modifier \<Rightarrow> bool" where
  "validate_modifier m0 =
     (let m = m0\<lparr>mo_Stat := ToUpper (TrimSpace (mo_Stat m0)), mo_Operation := ToUpper (TrimSpace (mo_Operation m0))\<rparr> in
      mo_Stat m \<in> set validStats \<and> (mo_Operation m = ''ADD'' \<or> mo_Operation m = ''MULTIPLY'') \<and>
      \<not> fle (mo_Value m) (Fin 0))"

definition items_validate :: "ItemDefinition \<Rightarrow> ItemDefinition result" where
  "items_validate item0 =
     (let item = item0\<lparr>it_ID := TrimSpace (it_ID item0), it_Name := TrimSpace (it_Name item0),
        it_SlotType := ToUpper (TrimSpace (it_SlotType item0))\<rparr> in
      if it_ID item = [] \<or> it_Name item = [] then Inl ErrInvalidModifierType
      else if it_SlotType item \<notin> set validSlots then Inl ErrInvalidSlotType
      else if \<not> list_all validate_modifier (it_StatsModifiers item) then Inl ErrInvalidModifierType
      else Inr (item\<lparr>it_Metadata := (case it_Metadata item of None \<Rightarrow> Some [] | Some m \<Rightarrow> Some m)\<rparr>))"

definition items_svc_Create :: "int \<Rightarrow> ItemDefinition \<Rightarrow> 'x gamedb \<Rightarrow> ItemDefinition result \<times> 'x gamedb" where
  "items_svc_Create now item = tx_bind (tx_return (items_validate item)) (items_Create now)"

definition items_svc_Update :: "ItemDefinition \<Rightarrow> 'x gamedb \<Rightarrow> unit result \<times> 'x gamedb" where
  "items_svc_Update item = tx_bind (tx_return (items_validate item)) items_Update"

definition items_svc_GetByID :: "string \<Rightarrow> 'x gamedb \<Rightarrow> ItemDefinition result \<times> 'x gamedb" where
  "items_svc_GetByID i0 = (let i = TrimSpace i0 in
     if i = [] then tx_return (Inl items_ErrItemNotFound) else items_GetByID i)"

definition items_svc_Delete :: "string \<Rightarrow> 'x gamedb \<Rightarrow> unit result \<times> 'x gamedb" where
  "items_svc_Delete i0 = (let i = TrimSpace i0 in
     if i = [] then tx_return (Inl items_ErrItemNotFound) else items_Delete i)"

subsection \<open>Round trips\<close>

definition modifier_ok :: "Modifier \<Rightarrow> bool" where
  "modifier_ok m \<longleftrightarrow> finite_f64 (mo_Value m) \<and> in32 (mo_Priority m)"

definition metadata_ok :: "(string \<times> json) list option \<Rightarrow> bool" where
  "metadata_ok m \<longleftrightarrow> (case m of None \<Rightarrow> True | Some fs \<Rightarrow> json_any_fields fs = Inr fs)"

lemma Modifier_roundtrip: "modifier_ok m \<Longrightarrow> \<exists>j. marshal_Modifier m = Inr j \<and> unmarshal_Modifier j = Inr m"
  by (cases m) (auto simp: modifier_ok_def marshal_Modifier_def unmarshal_Modifier_def marshal_f64_def
      json_f64_fin json_string_def elim!: finite_f64E)

lemma Modifiers_roundtrip:
  "list_all modifier_ok ms \<Longrightarrow> \<exists>js. marshal_all marshal_Modifier ms = Inr js \<and> json_list unmarshal_Modifier js = Inr ms"
proof (induction ms)
  case (Cons m ms)
  then obtain j js where "marshal_Modifier m = Inr j" "unmarshal_Modifier j = Inr m"
    "marshal_all marshal_Modifier ms = Inr js" "json_list unmarshal_Modifier js = Inr ms"
    using Modifier_roundtrip by auto blast
  then show ?case by simp
qed simp

lemma marshal_Modifiers_ok:
  "list_all modifier_ok ms \<Longrightarrow> \<exists>j. marshal_Modifiers ms = Inr j \<and> unmarshal_Modifiers j = Inr ms"
  using Modifiers_roundtrip [of ms] by (auto simp: marshal_Modifiers_def unmarshal_Modifiers_def json_array_def)

lemma marshal_Metadata_ok:
  "metadata_ok m \<Longrightarrow> \<exists>j. marshal_Metadata m = Inr j \<and> unmarshal_Metadata j = Inr m"
  by (cases m) (auto simp: metadata_ok_def marshal_Metadata_def unmarshal_Metadata_def)

definition definition_of :: "'x gamedb \<Rightarrow> string \<Rightarrow> ItemDefinition option" where
  "definition_of d i = (case map_of (t_items (db_tables d)) i of None \<Rightarrow> None
     | Some r \<Rightarrow> (case scan_definition i r of Inl _ \<Rightarrow> None | Inr it \<Rightarrow> Some it))"

text \<open>A successful insertion stores the definition so that it reads back unchanged.\<close>

lemma items_Create_Inr:
  assumes c: "items_Create now item d = (Inr stored, d')"
    and ok: "list_all modifier_ok (it_StatsModifiers item)" "metadata_ok (it_Metadata item)"
  shows "stored = item\<lparr>it_CreatedAt := now\<rparr> \<and> map_of (t_items (db_tables d)) (it_ID item) = None \<and>
    definition_of d' = (definition_of d)(it_ID item \<mapsto> stored) \<and>
    db_tables d' = (db_tables d)\<lparr>t_items := t_items (db_tables d')\<rparr>"
proof -
  obtain mj where mj: "marshal_Modifiers (it_StatsModifiers item) = Inr mj"
    "unmarshal_Modifiers mj = Inr (it_StatsModifiers item)" using marshal_Modifiers_ok ok by blast
  obtain ej where ej: "marshal_Metadata (it_Metadata item) = Inr ej"
    "unmarshal_Metadata ej = Inr (it_Metadata item)" using marshal_Metadata_ok ok by blast
  from c mj(1) ej(1) have fresh: "map_of (t_items (db_tables d)) (it_ID item) = None"
    and s: "stored = item\<lparr>it_CreatedAt := now\<rparr>"
    and t: "db_tables d' = (db_tables d)\<lparr>t_items := t_items (db_tables d) @ [(it_ID item,
         \<lparr>ir_name = it_Name item, ir_description = it_Description item, ir_slot_type = it_SlotType item,
          ir_min_level = it_MinLevel item, ir_class_restrictions = it_ClassRestrictions item,
          ir_stats_modifiers = mj, ir_metadata = ej, ir_created_at = now\<rparr>)]\<rparr>"
    by (auto simp: items_Create_def tx_bind_def tx_return_def dest!: db_stmt_Inr split: if_splits)
  have "it_ID item \<notin> set (keys (t_items (db_tables d)))" using fresh by (simp add: map_of_eq_None_iff)
  note m = map_of_snoc [OF this]
  have "definition_of d' i = ((definition_of d)(it_ID item \<mapsto> stored)) i" for i
    unfolding definition_of_def t by (simp add: m s scan_definition_def mj(2) ej(2) del: map_of_append)
  then show ?thesis using s fresh t by (auto simp: fun_eq_iff)
qed

lemma items_Create_Inl: "items_Create now item d = (Inl e, d') \<Longrightarrow> db_tables d' = db_tables d"
  by (auto simp: items_Create_def tx_bind_def tx_return_def tx_map_err_def split: sum.splits prod.splits dest: db_stmt_Inl)

lemma items_GetByID_ok:
  "definition_of d i = Some it \<Longrightarrow> db_faults d = [] \<Longrightarrow> items_GetByID i d = (Inr it, d)"
  by (auto simp: definition_of_def items_GetByID_def tx_bind_def tx_map_err_def tx_return_def db_stmt_no_faults
      split: option.splits sum.splits)

lemma items_validate_Inr:
  "items_validate item = Inr v \<Longrightarrow> it_ID v = TrimSpace (it_ID item) \<and> it_ID v \<noteq> [] \<and> it_SlotType v \<in> set validSlots \<and>
     it_StatsModifiers v = it_StatsModifiers item \<and> list_all validate_modifier (it_StatsModifiers v) \<and>
     it_Metadata v \<noteq> None \<and> (metadata_ok (it_Metadata item) \<longrightarrow> metadata_ok (it_Metadata v))"
  by (auto simp: items_validate_def Let_def metadata_ok_def split: if_splits option.splits)


definition demo_items_db :: "unit gamedb" where
  "demo_items_db = \<lparr>db_tables = \<lparr>t_outbox = [], t_outbox_seq = 0, t_event_log = [], t_characters = [],
     t_characters_seq = 0, t_character_stats = [], t_items = [], t_inventories = [], t_inventories_seq = 0\<rparr>,
     db_faults = []\<rparr>"

definition demo_sword :: ItemDefinition where
  "demo_sword = \<lparr>it_ID = '' sword '', it_Name = ''Sword'', it_Description = [], it_SlotType = ''weapon'',
     it_MinLevel = 1, it_ClassRestrictions = [], it_StatsModifiers = [\<lparr>mo_Stat = ''ATTACK'', mo_Operation = ''ADD'',
       mo_Value = Fin 5, mo_Priority = 20, mo_SourceID = []\<rparr>], it_Metadata = None, it_CreatedAt = 0\<rparr>"


end
