(* ===== verification/Game_Inventory.thy ===== *)
theory Game_Inventory
  imports Items
begin

section \<open>The character's bag and equipment: backend/game/inventory\<close>

text \<open>
  The repository over the table \<open>inventories\<close> (whose key is the row id and which is unique on
  character and slot) and the service that places, moves, swaps and equips items. A move is a
  read, a validation and a write; the per-character lock that makes the sequence atomic is the
  subject of the theory \<open>Keyed_Mutex\<close>, so here an operation runs on its own.
\<close>

abbreviation "ErrSlotOutOfBounds \<equiv> Sentinel ''inventory.ErrSlotOutOfBounds''"
abbreviation "ErrItemNotFound \<equiv> Sentinel ''inventory.ErrItemNotFound''"
abbreviation "ErrLevelRestricted \<equiv> Sentinel ''inventory.ErrLevelRestricted''"
abbreviation "ErrClassRestricted \<equiv> Sentinel ''inventory.ErrClassRestricted''"
abbreviation "ErrInvalidEquipmentSlot \<equiv> Sentinel ''inventory.ErrInvalidEquipmentSlot''"
abbreviation "ErrNotOwner \<equiv> Sentinel ''inventory.ErrNotOwner''"
abbreviation "MinBagSlot \<equiv> 0 :: int"
abbreviation "MaxBagSlot \<equiv> 99 :: int"
abbreviation "WeaponSlot \<equiv> 1000 :: int"
abbreviation "BodyArmorSlot \<equiv> 1001 :: int"
abbreviation "HelmetSlot \<equiv> 1002 :: int"
abbreviation "ShieldSlot \<equiv> 1003 :: int"
abbreviation "ShoesSlot \<equiv> 1004 :: int"
abbreviation "AccessorySlot \<equiv> 1005 :: int"

record InventoryItem =
  ii_ID :: int
  ii_CharacterID :: int
  ii_SlotIndex :: int
  ii_ItemDefinitionID :: string
  ii_Quantity :: int
  ii_Durability :: int
  ii_CustomModifiers :: "Modifier list"
  ii_CreatedAt :: int
  ii_UpdatedAt :: int
  ii_ItemDetails :: "ItemDefinition option"

datatype InvEvent =
    ItemEquipped int InventoryItem
  | ItemUnequipped int InventoryItem
  | ItemAddedToInventory int string int int

subsection \<open>Repository\<close>

text \<open>A joined row decoded; the details are those of the join, without the creation time.\<close>

definition scan_item :: "InvRow \<times> ItemRow \<Rightarrow> InventoryItem result" where
  "scan_item = (\<lambda>(i, r).
     res_bind (unmarshal_Modifiers (iv_custom_modifiers i)) (\<lambda>custom.
     res_bind (unmarshal_Modifiers (ir_stats_modifiers r)) (\<lambda>mods.
     res_bind (unmarshal_Metadata (ir_metadata r)) (\<lambda>meta.
     Inr \<lparr>ii_ID = iv_id i, ii_CharacterID = iv_character_id i, ii_SlotIndex = iv_slot_index i,
       ii_ItemDefinitionID = iv_item_definition_id i, ii_Quantity = iv_quantity i,
       ii_Durability = iv_durability i, ii_CustomModifiers = custom, ii_CreatedAt = iv_created_at i,
       ii_UpdatedAt = iv_updated_at i, ii_ItemDetails = Some \<lparr>it_ID = iv_item_definition_id i,
         it_Name = ir_name r, it_Description = ir_description r, it_SlotType = ir_slot_type r,
         it_MinLevel = ir_min_level r, it_ClassRestrictions = ir_class_restrictions r,
         it_StatsModifiers = mods, it_Metadata = meta, it_CreatedAt = 0\<rparr>\<rparr>))))"

text \<open>\<open>inventories i JOIN item_definitions d ON i.item_definition_id = d.id\<close>.\<close>

definition joined :: "'x game_tables_scheme \<Rightarrow> (InvRow \<Rightarrow> bool) \<Rightarrow> (InvRow \<times> ItemRow) list" where
  "joined t P = List.map_filter (\<lambda>i. if P i then map_option (Pair i) (map_of (t_items t) (iv_item_definition_id i))
     else None) (t_inventories t)"

definition inv_GetBySlot :: "int \<Rightarrow> int \<Rightarrow> 'x gamedb \<Rightarrow> InventoryItem result \<times> 'x gamedb" where
  "inv_GetBySlot charID slot =
     tx_bind (tx_map_err (\<lambda>e. if e = ErrNoRows then ErrItemNotFound else e) (db_stmt (\<lambda>t.
       case joined t (\<lambda>i. iv_character_id i = charID \<and> iv_slot_index i = slot) of
         [] \<Rightarrow> Inl ErrNoRows | r # _ \<Rightarrow> Inr (r, t)))) (\<lambda>r.
     tx_return (scan_item r))"

text \<open>As in the other repositories \<open>rows.Err()\<close> is not consulted.\<close>

definition inv_ListByCharacter :: "int \<Rightarrow> 'x gamedb \<Rightarrow> InventoryItem list result \<times> 'x gamedb" where
  "inv_ListByCharacter charID =
     tx_bind (db_stmt (\<lambda>t. Inr (sort_key (\<lambda>(i, _). iv_slot_index i) (joined t (\<lambda>i. iv_character_id i = charID)), t)))
       (\<lambda>rows d. case fetch_rows rows d of ((got, _), d') \<Rightarrow> (scan_rows scan_item got, d'))"

abbreviation slot_key :: "InvRow \<Rightarrow> int \<times> int" where
  "slot_key i \<equiv> (iv_character_id i, iv_slot_index i)"

text \<open>\<open>UPDATE inventories SET slot_index = ... WHERE character_id = ... AND slot_index = ...\<close>; the
  unique constraint rejects a statement that would put two rows into one slot.\<close>

definition update_slot :: "(InvRow \<Rightarrow> InvRow) \<Rightarrow> int \<Rightarrow> int \<Rightarrow> int \<Rightarrow> 'x gamedb \<Rightarrow> nat result \<times> 'x gamedb" where
  "update_slot touch charID from to = db_stmt (\<lambda>t.
     let rows = map (\<lambda>i. if slot_key i = (charID, from) then touch (i\<lparr>iv_slot_index := to\<rparr>) else i) (t_inventories t) in
     if distinct (map slot_key rows)
     then Inr (length (filter (\<lambda>i. slot_key i = (charID, from)) (t_inventories t)), t\<lparr>t_inventories := rows\<rparr>)
     else Inl unique_violation)"

definition inv_Move :: "int \<Rightarrow> int \<Rightarrow> int \<Rightarrow> int \<Rightarrow> 'x gamedb \<Rightarrow> unit result \<times> 'x gamedb" where
  "inv_Move now charID fromSlot toSlot =
     tx_bind (update_slot (iv_updated_at_update (\<lambda>_. now)) charID fromSlot toSlot) (\<lambda>n.
     tx_return (if n = 0 then Inl ErrItemNotFound else Inr ()))"

definition inv_Swap :: "int \<Rightarrow> int \<Rightarrow> int \<Rightarrow> 'x gamedb \<Rightarrow> unit result \<times> 'x gamedb" where
  "inv_Swap charID slotA slotB d = WithinTx d (
     tx_bind (update_slot id charID slotA (- 99)) (\<lambda>_.
     tx_bind (update_slot id charID slotB slotA) (\<lambda>_.
     tx_bind (update_slot id charID (- 99) slotB) (\<lambda>_.
     tx_return (Inr ())))))"

text \<open>\<open>INSERT\<close>: unique slot, known character and known definition.\<close>

definition inv_AddItem :: "int \<Rightarrow> InventoryItem \<Rightarrow> 'x gamedb \<Rightarrow> InventoryItem result \<times> 'x gamedb" where
  "inv_AddItem now item =
     tx_bind (tx_return (marshal_Modifiers (ii_CustomModifiers item))) (\<lambda>modsJSON.
     db_stmt (\<lambda>t.
       if (ii_CharacterID item, ii_SlotIndex item) \<in> set (map slot_key (t_inventories t)) then Inl unique_violation
       else if map_of (t_characters t) (ii_CharacterID item) = None \<or> map_of (t_items t) (ii_ItemDefinitionID item) = None
       then Inl foreign_key_violation
       else let i = t_inventories_seq t + 1 in
         Inr (item\<lparr>ii_ID := i, ii_CreatedAt := now, ii_UpdatedAt := now\<rparr>,
           t\<lparr>t_inventories_seq := i, t_inventories := t_inventories t @ [\<lparr>iv_id = i,
             iv_character_id = ii_CharacterID item, iv_slot_index = ii_SlotIndex item,
             iv_item_definition_id = ii_ItemDefinitionID item, iv_quantity = ii_Quantity item,
             iv_durability = ii_Durability item, iv_custom_modifiers = modsJSON, iv_created_at = now,
             iv_updated_at = now\<rparr>]\<rparr>)))"

definition inv_RemoveItem :: "int \<Rightarrow> 'x gamedb \<Rightarrow> unit result \<times> 'x gamedb" where
  "inv_RemoveItem i =
     tx_bind (db_stmt (\<lambda>t. Inr (length (filter (\<lambda>r. iv_id r = i) (t_inventories t)),
        t\<lparr>t_inventories := filter (\<lambda>r. iv_id r \<noteq> i) (t_inventories t)\<rparr>))) (\<lambda>n.
     tx_return (if n = 0 then Inl ErrItemNotFound else Inr ()))"

subsection \<open>Service\<close>

definition isEquipmentSlot :: "int \<Rightarrow> bool" where
  "isEquipmentSlot slot \<longleftrightarrow> WeaponSlot \<le> slot \<and> slot \<le> AccessorySlot"

definition isValidSlot :: "int \<Rightarrow> bool" where
  "isValidSlot slot \<longleftrightarrow> (MinBagSlot \<le> slot \<and> slot \<le> MaxBagSlot) \<or> isEquipmentSlot slot"

definition VerifyOwnership :: "int \<Rightarrow> int \<Rightarrow> 'x gamedb \<Rightarrow> unit result \<times> 'x gamedb" where
  "VerifyOwnership userID charID =
     tx_bind (character_GetByID charID) (\<lambda>char.
     tx_return (if ch_UserID (cw_Char char) \<noteq> userID then Inl ErrNotOwner else Inr ()))"

text \<open>The first empty bag slot.\<close>

definition first_empty :: "InventoryItem list \<Rightarrow> int" where
  "first_empty existing =
     (case find (\<lambda>i. i \<notin> ii_SlotIndex ` set existing) [MinBagSlot..MaxBagSlot] of None \<Rightarrow> - 1 | Some i \<Rightarrow> i)"

text \<open>\<open>bus\<close> tells whether there is an event bus; published events are appended to a trace.\<close>

definition svc_AddItem :: "bool \<Rightarrow> int \<Rightarrow> InventoryItem \<Rightarrow> 'x gamedb \<Rightarrow> InvEvent list \<Rightarrow>
    InventoryItem result \<times> 'x gamedb \<times> InvEvent list" where
  "svc_AddItem bus now item d tr =
     (case inv_ListByCharacter (ii_CharacterID item) d of
        (Inl e, d1) \<Rightarrow> (Inl e, d1, tr)
      | (Inr existing, d1) \<Rightarrow>
         (let emptySlot = first_empty existing in
          if emptySlot = - 1 then (Inl ErrSlotOutOfBounds, d1, tr)
          else (case inv_AddItem now (item\<lparr>ii_SlotIndex := emptySlot\<rparr>) d1 of
              (Inl e, d2) \<Rightarrow> (Inl e, d2, tr)
            | (Inr stored, d2) \<Rightarrow> (Inr stored, d2,
                if bus then tr @ [ItemAddedToInventory (ii_CharacterID stored) (ii_ItemDefinitionID stored)
                                    (ii_Quantity stored) (ii_SlotIndex stored)] else tr))))"

definition slot_type_of :: "int \<Rightarrow> string option" where
  "slot_type_of slot = map_of [(WeaponSlot, ''WEAPON''), (BodyArmorSlot, ''BODY_ARMOR''), (HelmetSlot, ''HELMET''),
     (ShieldSlot, ''SHIELD''), (ShoesSlot, ''SHOES''), (AccessorySlot, ''ACCESSORY'')] slot"

definition check_requirements :: "CharacterWithStats \<Rightarrow> ItemDefinition \<Rightarrow> unit result" where
  "check_requirements char details =
     (if ch_Level (cw_Char char) < it_MinLevel details then Inl ErrLevelRestricted
      else if it_ClassRestrictions details \<noteq> [] \<and>
         \<not> list_ex (\<lambda>class. EqualFold class (ch_ClassName (cw_Char char))) (it_ClassRestrictions details)
      then Inl ErrClassRestricted
      else Inr ())"

definition validateEquipmentRequirements :: "int \<Rightarrow> InventoryItem \<Rightarrow> int \<Rightarrow> 'x gamedb \<Rightarrow> unit result \<times> 'x gamedb" where
  "validateEquipmentRequirements charID item targetSlot =
     (case ii_ItemDetails item of
        None \<Rightarrow> tx_return (Inl ErrInvalidEquipmentSlot)
      | Some details \<Rightarrow>
         if slot_type_of targetSlot \<noteq> Some (it_SlotType details) then tx_return (Inl ErrInvalidEquipmentSlot)
         else tx_bind (character_GetByID charID) (\<lambda>char. tx_return (check_requirements char details)))"

text \<open>\<open>GetBySlot\<close> of the destination, where a missing item is not an error.\<close>

definition dest_item :: "int \<Rightarrow> int \<Rightarrow> 'x gamedb \<Rightarrow> InventoryItem option result \<times> 'x gamedb" where
  "dest_item charID toSlot d = (case inv_GetBySlot charID toSlot d of
     (Inl e, d') \<Rightarrow> (if e = ErrItemNotFound then Inr None else Inl e, d')
   | (Inr i, d') \<Rightarrow> (Inr (Some i), d'))"

text \<open>The events of a completed move, in the order they are published.\<close>

definition move_events :: "int \<Rightarrow> InventoryItem \<Rightarrow> InventoryItem option \<Rightarrow> bool \<Rightarrow> bool \<Rightarrow> InvEvent list" where
  "move_events charID item destItem isFromEquip isToEquip =
     (if isFromEquip then [ItemUnequipped charID item] else []) @
     (if isToEquip then [ItemEquipped charID item] else []) @
     (case destItem of None \<Rightarrow> [] | Some di \<Rightarrow>
        (if isToEquip then [ItemUnequipped charID di] else []) @
        (if isFromEquip then [ItemEquipped charID di] else []))"

text \<open>The two writes: a simple move into an empty slot, or a swap. Only a swap between two
  equipment slots validates the item that comes back.\<close>

definition move_write :: "int \<Rightarrow> int \<Rightarrow> int \<Rightarrow> int \<Rightarrow> InventoryItem option \<Rightarrow> 'x gamedb \<Rightarrow> unit result \<times> 'x gamedb" where
  "move_write now charID fromSlot toSlot destItem =
     (case destItem of
        None \<Rightarrow> inv_Move now charID fromSlot toSlot
      | Some di \<Rightarrow>
          tx_bind (if isEquipmentSlot fromSlot \<and> isEquipmentSlot toSlot
                   then validateEquipmentRequirements charID di fromSlot else tx_return (Inr ())) (\<lambda>_.
          inv_Swap charID fromSlot toSlot))"

text \<open>\<open>MoveItem\<close>; without a bus the first event to publish is a nil dereference, after the write.\<close>

definition MoveItem :: "bool \<Rightarrow> int \<Rightarrow> int \<Rightarrow> int \<Rightarrow> int \<Rightarrow> 'x gamedb \<Rightarrow> InvEvent list \<Rightarrow>
    unit result \<times> 'x gamedb \<times> InvEvent list" where
  "MoveItem bus now charID fromSlot toSlot d tr =
     (if \<not> isValidSlot fromSlot \<or> \<not> isValidSlot toSlot then (Inl ErrSlotOutOfBounds, d, tr)
      else case tx_bind (inv_GetBySlot charID fromSlot) (\<lambda>item.
             tx_bind (if isEquipmentSlot toSlot then validateEquipmentRequirements charID item toSlot
                      else tx_return (Inr ())) (\<lambda>_.
             tx_bind (dest_item charID toSlot) (\<lambda>destItem.
             tx_bind (move_write now charID fromSlot toSlot destItem) (\<lambda>_.
             tx_return (Inr (move_events charID item destItem (isEquipmentSlot fromSlot) (isEquipmentSlot toSlot))))))) d of
          (Inl e, d') \<Rightarrow> (Inl e, d', tr)
        | (Inr evs, d') \<Rightarrow>
            if evs \<noteq> [] \<and> \<not> bus then (Inl (Panic ''nil pointer dereference''), d', tr)
            else (Inr (), d', tr @ evs))"

definition equipped_modifiers :: "InventoryItem \<Rightarrow> Modifier list" where
  "equipped_modifiers it = (case ii_ItemDetails it of None \<Rightarrow> [] | Some details \<Rightarrow>
     if isEquipmentSlot (ii_SlotIndex it) then
       map (\<lambda>m. m\<lparr>mo_SourceID := ii_ItemDefinitionID it\<rparr>) (it_StatsModifiers details) @
       map (\<lambda>m. m\<lparr>mo_SourceID := ii_ItemDefinitionID it @ ''_custom''\<rparr>) (ii_CustomModifiers it)
     else [])"

definition GetEquippedModifiers :: "int \<Rightarrow> 'x gamedb \<Rightarrow> Modifier list result \<times> 'x gamedb" where
  "GetEquippedModifiers charID =
     tx_bind (inv_ListByCharacter charID) (\<lambda>itemsList. tx_return (Inr (concat (map equipped_modifiers itemsList))))"

subsection \<open>Slots\<close>

text \<open>
  What a slot holds: the row without its place and its times. The unique constraint makes the
  table a map from slots.
\<close>

definition stack_of :: "InvRow \<Rightarrow> int \<times> string \<times> int \<times> int \<times> json" where
  "stack_of i = (iv_id i, iv_item_definition_id i, iv_quantity i, iv_durability i, iv_custom_modifiers i)"

definition slot_map :: "'x game_tables_scheme \<Rightarrow> int \<times> int \<rightharpoonup> int \<times> string \<times> int \<times> int \<times> json" where
  "slot_map t = map_of (map (\<lambda>i. (slot_key i, stack_of i)) (t_inventories t))"

definition slots_ok :: "'x game_tables_scheme \<Rightarrow> bool" where
  "slots_ok t \<longleftrightarrow> distinct (map slot_key (t_inventories t))"

text \<open>Relabelling one key of an association list.\<close>

lemma map_of_relabel:
  fixes xs :: "('k \<times> 'v) list" and a b :: 'k
  defines "g \<equiv> \<lambda>k. if k = a then b else k"
  assumes d: "distinct (map fst xs)" and d': "distinct (map (g \<circ> fst) xs)" and a: "map_of xs a = Some v"
  shows "map_of (map (\<lambda>(k, v). (g k, v)) xs) = (map_of xs)(a := None, b \<mapsto> v) \<and> (b \<noteq> a \<longrightarrow> map_of xs b = None)"
proof -
  have inj: "inj_on g (set (map fst xs))" using d' by (simp add: distinct_map flip: map_map)
  have mem: "a \<in> set (map fst xs)" using a by (simp add: set_keys_iff del: set_map)
  have free: "map_of xs b = None" if "b \<noteq> a"
  proof (rule ccontr)
    assume "map_of xs b \<noteq> None"
    then have "b \<in> set (map fst xs)" by (simp add: set_keys_iff del: set_map)
    moreover have "g a = g b" by (simp add: g_def)
    ultimately show False using inj_onD [OF inj] mem that by blast
  qed
  have "map fst (map (\<lambda>(k, v). (g k, v)) xs) = map (g \<circ> fst) xs" by (auto simp: split_beta)
  then have dy: "distinct (map fst (map (\<lambda>(k, v). (g k, v)) xs))" using d' by metis
  have "map_of (map (\<lambda>(k, v). (g k, v)) xs) k = Some w \<longleftrightarrow> ((map_of xs)(a := None, b \<mapsto> v)) k = Some w" for k w
  proof -
    have "map_of (map (\<lambda>(k, v). (g k, v)) xs) k = Some w \<longleftrightarrow> (\<exists>k'. map_of xs k' = Some w \<and> g k' = k)"
      using map_of_eq_Some_iff [OF dy] map_of_eq_Some_iff [OF d] by force
    then show ?thesis using a free by (auto simp: g_def split: if_splits)
  qed
  then have "map_of (map (\<lambda>(k, v). (g k, v)) xs) k = ((map_of xs)(a := None, b \<mapsto> v)) k" for k
    by (metis not_None_eq)
  then show ?thesis using free by blast
qed

text \<open>One \<open>UPDATE\<close> of a slot.\<close>

lemma update_slot_Inr:
  assumes u: "update_slot touch charID from to d = (Inr n, d')" and ok: "slots_ok (db_tables d)"
    and touch: "\<And>i. slot_key (touch i) = slot_key i \<and> stack_of (touch i) = stack_of i"
  shows "slots_ok (db_tables d') \<and>
    db_tables d' = (db_tables d)\<lparr>t_inventories := t_inventories (db_tables d')\<rparr> \<and>
    (case slot_map (db_tables d) (charID, from) of
       None \<Rightarrow> n = 0 \<and> db_tables d' = db_tables d
     | Some v \<Rightarrow> n \<noteq> 0 \<and> (to \<noteq> from \<longrightarrow> slot_map (db_tables d) (charID, to) = None) \<and>
         slot_map (db_tables d') = (slot_map (db_tables d))((charID, from) := None, (charID, to) \<mapsto> v))"
proof -
  let ?t = "db_tables d"
  let ?f = "\<lambda>i. if slot_key i = (charID, from) then touch (i\<lparr>iv_slot_index := to\<rparr>) else i"
  let ?g = "\<lambda>k. if k = (charID, from) then (charID, to) else k"
  let ?xs = "map (\<lambda>i. (slot_key i, stack_of i)) (t_inventories ?t)"
  from db_stmt_Inr [OF u [unfolded update_slot_def]]
  have t': "db_tables d' = ?t\<lparr>t_inventories := map ?f (t_inventories ?t)\<rparr>"
    and dist: "distinct (map slot_key (map ?f (t_inventories ?t)))"
    and n: "n = length (filter (\<lambda>i. slot_key i = (charID, from)) (t_inventories ?t))"
    by (auto simp: Let_def split: if_splits)
  have pair: "(slot_key (?f i), stack_of (?f i)) = (?g (slot_key i), stack_of i)" for i
    using touch by (auto simp: stack_of_def)
  have sm': "slot_map (db_tables d') = map_of (map (\<lambda>(k, v). (?g k, v)) ?xs)"
  proof -
    have "map (\<lambda>i. (slot_key i, stack_of i)) (map ?f (t_inventories ?t)) = map (\<lambda>(k, v). (?g k, v)) ?xs"
      unfolding map_map by (rule map_cong [OF refl]) (simp only: o_def case_prod_conv pair)
    moreover have "t_inventories (db_tables d') = map ?f (t_inventories ?t)" by (simp add: t')
    ultimately show ?thesis by (simp only: slot_map_def)
  qed
  have smt: "slot_map ?t = map_of ?xs" by (simp add: slot_map_def)
  have fst': "map (?g \<circ> fst) ?xs = map slot_key (map ?f (t_inventories ?t))"
    using pair by (auto simp: o_def)
  have d1: "distinct (map fst ?xs)" using ok by (simp add: slots_ok_def o_def)
  show ?thesis
  proof (cases "slot_map ?t (charID, from)")
    case None
    then have no: "slot_key i \<noteq> (charID, from)" if "i \<in> set (t_inventories ?t)" for i
      using that by (force simp: slot_map_def map_of_eq_None_iff)
    then have "map ?f (t_inventories ?t) = t_inventories ?t" by (intro map_idI) auto
    moreover have "n = 0" using no by (auto simp: n filter_empty_conv)
    ultimately show ?thesis using None t' ok by simp
  next
    case (Some v)
    have "n \<noteq> 0" using Some by (force simp: n slot_map_def filter_empty_conv dest: map_of_SomeD)
    moreover note rel = map_of_relabel [OF d1 dist [folded fst'] Some [unfolded slot_map_def]]
    have "slot_map (db_tables d') = (slot_map ?t)((charID, from) := None, (charID, to) \<mapsto> v)"
      unfolding sm' smt by (rule conjunct1 [OF rel])
    moreover have "to \<noteq> from \<longrightarrow> slot_map ?t (charID, to) = None"
      unfolding smt using conjunct2 [OF rel] by blast
    ultimately show ?thesis using Some t' dist by (auto simp: slots_ok_def)
  qed
qed

lemma update_slot_Inl: "update_slot touch charID from to d = (Inl e, d') \<Longrightarrow> db_tables d' = db_tables d"
  by (auto simp: update_slot_def dest: db_stmt_Inl)

text \<open>Two slots exchange what they hold.\<close>

definition exchange :: "'k \<Rightarrow> 'k \<Rightarrow> ('k \<rightharpoonup> 'v) \<Rightarrow> 'k \<rightharpoonup> 'v" where
  "exchange a b m = m(a := m b, b := m a)"

definition only_slots :: "'x game_tables_scheme \<Rightarrow> 'x game_tables_scheme \<Rightarrow> bool" where
  "only_slots t t' \<longleftrightarrow> t' = t\<lparr>t_inventories := t_inventories t'\<rparr>"

lemma only_slots_trans: "only_slots t t' \<Longrightarrow> only_slots t' t'' \<Longrightarrow> only_slots t t''"
  unfolding only_slots_def by (metis (no_types, lifting) game_tables.surjective game_tables.update_convs(2))

lemma inv_Move_Inr:
  assumes m: "inv_Move now charID from to d = (Inr x, d')" and ok: "slots_ok (db_tables d)"
  shows "slots_ok (db_tables d') \<and> only_slots (db_tables d) (db_tables d') \<and>
    slot_map (db_tables d) (charID, from) \<noteq> None \<and>
    slot_map (db_tables d') = exchange (charID, from) (charID, to) (slot_map (db_tables d))"
proof -
  from m obtain n where n: "update_slot (iv_updated_at_update (\<lambda>_. now)) charID from to d = (Inr n, d')" "n \<noteq> 0"
    unfolding inv_Move_def by (auto elim!: tx_bind_Inr split: if_splits)
  from update_slot_Inr [OF n(1) ok] n(2) show ?thesis
    by (auto simp: stack_of_def exchange_def only_slots_def fun_eq_iff split: option.splits)
qed

lemma inv_Move_Inl:
  assumes "inv_Move now charID from to d = (Inl e, d')" and ok: "slots_ok (db_tables d)"
  shows "db_tables d' = db_tables d"
proof (cases "update_slot (iv_updated_at_update (\<lambda>_. now)) charID from to d")
  case (Pair r d1)
  show ?thesis
  proof (cases r)
    case (Inl e')
    then show ?thesis using assms(1) Pair update_slot_Inl by (fastforce simp: inv_Move_def tx_bind_def)
  next
    case (Inr n)
    from update_slot_Inr [OF Pair [unfolded Inr] ok] assms(1) Pair Inr show ?thesis
      by (auto simp: inv_Move_def tx_bind_def tx_return_def stack_of_def split: if_splits option.splits)
  qed
qed

lemma inv_Swap_Inr:
  assumes sw: "inv_Swap charID a b d = (Inr x, d')" and ok: "slots_ok (db_tables d)"
    and full: "slot_map (db_tables d) (charID, a) \<noteq> None" "slot_map (db_tables d) (charID, b) \<noteq> None"
    and ne: "a \<noteq> - 99" "b \<noteq> - 99"
  shows "slots_ok (db_tables d') \<and> only_slots (db_tables d) (db_tables d') \<and>
    slot_map (db_tables d') = exchange (charID, a) (charID, b) (slot_map (db_tables d))"
proof -
  from sw obtain e1 e2 e3 e4 n1 n2 n3 where e: "db_tables e1 = db_tables d" "db_tables d' = db_tables e4"
    and u: "update_slot id charID a (- 99) e1 = (Inr n1, e2)" "update_slot id charID b a e2 = (Inr n2, e3)"
      "update_slot id charID (- 99) b e3 = (Inr n3, e4)"
    unfolding inv_Swap_def by (elim WithinTx_committed tx_bind_Inr) auto
  from ok e(1) have ok1: "slots_ok (db_tables e1)" by simp
  obtain va vb where v: "slot_map (db_tables e1) (charID, a) = Some va" "slot_map (db_tables e1) (charID, b) = Some vb"
    using full e(1) by auto
  have s1: "slots_ok (db_tables e2)" "only_slots (db_tables e1) (db_tables e2)"
      "slot_map (db_tables e1) (charID, - 99) = None"
      "slot_map (db_tables e2) = (slot_map (db_tables e1))((charID, a) := None, (charID, - 99) \<mapsto> va)"
    using update_slot_Inr [OF u(1) ok1] v(1) ne by (auto simp: only_slots_def)
  have s2: "slots_ok (db_tables e3)" "only_slots (db_tables e2) (db_tables e3)"
    using update_slot_Inr [OF u(2) s1(1)] by (auto simp: only_slots_def)
  have m3: "slot_map (db_tables e3) = (slot_map (db_tables e1))((charID, b) := None, (charID, - 99) \<mapsto> va,
      (charID, a) := (if a = b then None else Some vb))"
  proof (cases "a = b")
    case True
    then have "slot_map (db_tables e2) (charID, b) = None" using s1(4) ne by auto
    then show ?thesis using update_slot_Inr [OF u(2) s1(1)] s1(4) True by (auto simp: fun_eq_iff)
  next
    case False
    then have "slot_map (db_tables e2) (charID, b) = Some vb" using s1(4) ne v by auto
    then show ?thesis using update_slot_Inr [OF u(2) s1(1)] s1(4) False ne by (auto simp: fun_eq_iff)
  qed
  then have h: "slot_map (db_tables e3) (charID, - 99) = Some va" using ne by auto
  have s3: "slots_ok (db_tables e4)" "only_slots (db_tables e3) (db_tables e4)"
      "slot_map (db_tables e4) = (slot_map (db_tables e3))((charID, - 99) := None, (charID, b) \<mapsto> va)"
    using update_slot_Inr [OF u(3) s2(1)] h by (auto simp: only_slots_def)
  have "slot_map (db_tables e4) = exchange (charID, a) (charID, b) (slot_map (db_tables e1))"
    unfolding s3(3) m3 exchange_def using v s1(3) ne by (auto simp: fun_eq_iff)
  then show ?thesis using s1 s2 s3 e only_slots_trans by metis
qed

subsection \<open>Moving an item\<close>

text \<open>The definition of the item in a slot, and what a character must meet to wear it there.\<close>

definition item_at :: "'x game_tables_scheme \<Rightarrow> int \<Rightarrow> int \<Rightarrow> ItemRow option" where
  "item_at t charID slot = (case joined t (\<lambda>i. iv_character_id i = charID \<and> iv_slot_index i = slot) of
     [] \<Rightarrow> None | x # _ \<Rightarrow> Some (snd x))"

definition can_equip :: "'x game_tables_scheme \<Rightarrow> int \<Rightarrow> int \<Rightarrow> ItemRow \<Rightarrow> bool" where
  "can_equip t charID slot r \<longleftrightarrow> slot_type_of slot = Some (ir_slot_type r) \<and>
     (\<exists>c. map_of (t_characters t) charID = Some c \<and> ir_min_level r \<le> ch_Level c \<and>
        (ir_class_restrictions r = [] \<or> list_ex (\<lambda>class. EqualFold class (ch_ClassName c)) (ir_class_restrictions r)))"

lemma reads_GetBySlot: "reads (inv_GetBySlot charID slot)"
  unfolding inv_GetBySlot_def by (intro reads_bind reads_map_err reads_stmt reads_return) (auto split: list.splits)

lemma reads_GetByID: "reads (character_GetByID charID)"
proof -
  have "reads (\<lambda>d. character_GetByID charID d)"
    unfolding character_GetByID_def
    by (intro reads_bind reads_map_err reads_stmt reads_return)
      (auto split: option.splits prod.splits intro!: reads_bind reads_return)
  then show ?thesis by simp
qed

lemma reads_validate: "reads (validateEquipmentRequirements charID item slot)"
  by (auto simp: validateEquipmentRequirements_def intro!: reads_bind reads_GetByID reads_return split: option.splits)

lemma reads_dest_item: "reads (dest_item charID slot)"
  unfolding reads_def dest_item_def by (auto split: prod.splits sum.splits dest: readsD [OF reads_GetBySlot])

lemma scan_item_Inr:
  "scan_item (i, r) = Inr item \<Longrightarrow> \<exists>mods meta. ii_ItemDetails item = Some \<lparr>it_ID = iv_item_definition_id i,
         it_Name = ir_name r, it_Description = ir_description r, it_SlotType = ir_slot_type r,
         it_MinLevel = ir_min_level r, it_ClassRestrictions = ir_class_restrictions r,
         it_StatsModifiers = mods, it_Metadata = meta, it_CreatedAt = 0\<rparr>"
  by (auto simp: scan_item_def res_bind_def split: sum.splits)

lemma set_joined: "(i, r) \<in> set (joined t P) \<longleftrightarrow> i \<in> set (t_inventories t) \<and> P i \<and> map_of (t_items t) (iv_item_definition_id i) = Some r"
  by (force simp: joined_def List.map_filter_def split: if_splits)

lemma GetBySlot_Inr:
  assumes "inv_GetBySlot charID slot d = (Inr item, d')"
  shows "slot_map (db_tables d) (charID, slot) \<noteq> None \<and>
    (\<exists>i r. item_at (db_tables d) charID slot = Some r \<and> scan_item (i, r) = Inr item)"
proof -
  from assms obtain i r rest where j: "joined (db_tables d) (\<lambda>i. iv_character_id i = charID \<and> iv_slot_index i = slot) = (i, r) # rest"
    and s: "scan_item (i, r) = Inr item"
    unfolding inv_GetBySlot_def by (auto elim!: tx_bind_Inr dest!: db_stmt_Inr split: list.splits)
  have "(i, r) \<in> set (joined (db_tables d) (\<lambda>i. iv_character_id i = charID \<and> iv_slot_index i = slot))" using j by simp
  then have "i \<in> set (t_inventories (db_tables d))" "slot_key i = (charID, slot)" by (auto simp: set_joined)
  then have "(charID, slot) \<in> set (keys (map (\<lambda>i. (slot_key i, stack_of i)) (t_inventories (db_tables d))))"
    by (metis (no_types, lifting) fst_conv image_eqI list.set_map)
  then have "slot_map (db_tables d) (charID, slot) \<noteq> None" unfolding slot_map_def set_keys_iff .
  then show ?thesis using j s by (auto simp: item_at_def)
qed

text \<open>The id of the row in a slot.\<close>

definition slot_id :: "'x game_tables_scheme \<Rightarrow> int \<times> int \<Rightarrow> int option" where
  "slot_id t k = map_option fst (slot_map t k)"

lemma GetBySlot_id:
  assumes "inv_GetBySlot charID slot d = (Inr item, d')" "slots_ok (db_tables d)"
  shows "slot_id (db_tables d) (charID, slot) = Some (ii_ID item)"
proof -
  from assms(1) obtain i r rest where j: "joined (db_tables d) (\<lambda>i. iv_character_id i = charID \<and> iv_slot_index i = slot) = (i, r) # rest"
    and s: "scan_item (i, r) = Inr item"
    unfolding inv_GetBySlot_def by (auto elim!: tx_bind_Inr dest!: db_stmt_Inr split: list.splits)
  have "(i, r) \<in> set (joined (db_tables d) (\<lambda>i. iv_character_id i = charID \<and> iv_slot_index i = slot))" using j by simp
  then have "i \<in> set (t_inventories (db_tables d))" "slot_key i = (charID, slot)" by (auto simp: set_joined)
  moreover have "distinct (map fst (map (\<lambda>i. (slot_key i, stack_of i)) (t_inventories (db_tables d))))"
    using assms(2) by (simp add: slots_ok_def o_def)
  ultimately have "slot_map (db_tables d) (charID, slot) = Some (stack_of i)"
    unfolding slot_map_def by (intro map_of_is_SomeI) (auto simp: image_iff intro!: bexI [of _ i])
  moreover have "ii_ID item = iv_id i" using s by (auto simp: scan_item_def res_bind_def split: sum.splits)
  ultimately show ?thesis by (simp add: slot_id_def stack_of_def)
qed

lemma character_GetByID_char:
  "character_GetByID charID d = (Inr cw, d') \<Longrightarrow> map_of (t_characters (db_tables d)) charID = Some (cw_Char cw)"
  unfolding character_GetByID_def by (auto elim!: tx_bind_Inr dest!: db_stmt_Inr split: option.splits)

lemma validate_Inr:
  assumes v: "validateEquipmentRequirements charID item slot d = (Inr x, d')"
    and s: "scan_item (i, r) = Inr item"
  shows "can_equip (db_tables d) charID slot r"
proof -
  obtain mods meta where det: "ii_ItemDetails item = Some \<lparr>it_ID = iv_item_definition_id i,
         it_Name = ir_name r, it_Description = ir_description r, it_SlotType = ir_slot_type r,
         it_MinLevel = ir_min_level r, it_ClassRestrictions = ir_class_restrictions r,
         it_StatsModifiers = mods, it_Metadata = meta, it_CreatedAt = 0\<rparr>" using scan_item_Inr [OF s] by blast
  from v have st: "slot_type_of slot = Some (ir_slot_type r)"
    by (auto simp: validateEquipmentRequirements_def det split: if_splits)
  with v obtain cw d1 where cw: "character_GetByID charID d = (Inr cw, d1)"
    "tx_return (check_requirements cw \<lparr>it_ID = iv_item_definition_id i,
         it_Name = ir_name r, it_Description = ir_description r, it_SlotType = ir_slot_type r,
         it_MinLevel = ir_min_level r, it_ClassRestrictions = ir_class_restrictions r,
         it_StatsModifiers = mods, it_Metadata = meta, it_CreatedAt = 0\<rparr>) d1 = (Inr x, d')"
    by (auto simp: validateEquipmentRequirements_def det elim!: tx_bind_Inr)
  from cw(2) have "ir_min_level r \<le> ch_Level (cw_Char cw)"
    "ir_class_restrictions r = [] \<or> list_ex (\<lambda>class. EqualFold class (ch_ClassName (cw_Char cw))) (ir_class_restrictions r)"
    by (auto simp: check_requirements_def split: if_splits)
  with st character_GetByID_char [OF cw(1)] show ?thesis by (auto simp: can_equip_def)
qed

lemma dest_item_Inr:
  "dest_item charID slot d = (Inr (Some di), d') \<Longrightarrow> inv_GetBySlot charID slot d = (Inr di, d')"
  by (auto simp: dest_item_def split: prod.splits sum.splits if_splits)

lemma dest_occupied:
  assumes "dest_item charID slot d = (Inr dest, d')" "slots_ok (db_tables d)"
  shows "\<forall>di. dest = Some di \<longrightarrow> slot_id (db_tables d) (charID, slot) = Some (ii_ID di)"
  using assms GetBySlot_id dest_item_Inr by blast

text \<open>The write of a move: an error changes nothing, a success exchanges the two slots.\<close>

lemma move_write_cases:
  assumes w: "move_write now charID a b destItem d = (r, d')" and ok: "slots_ok (db_tables d)"
    and a: "slot_map (db_tables d) (charID, a) \<noteq> None" and ne: "a \<noteq> - 99" "b \<noteq> - 99"
    and b: "destItem \<noteq> None \<Longrightarrow> slot_map (db_tables d) (charID, b) \<noteq> None"
  shows "case r of Inl _ \<Rightarrow> db_tables d' = db_tables d
    | Inr _ \<Rightarrow> slots_ok (db_tables d') \<and> only_slots (db_tables d) (db_tables d') \<and>
        slot_map (db_tables d') = exchange (charID, a) (charID, b) (slot_map (db_tables d))"
proof (cases destItem)
  case None
  with w inv_Move_Inl [OF _ ok] inv_Move_Inr [OF _ ok] show ?thesis
    by (auto simp: move_write_def split: sum.splits)
next
  case (Some di)
  let ?v = "if isEquipmentSlot a \<and> isEquipmentSlot b then validateEquipmentRequirements charID di a else tx_return (Inr ())"
  have rd: "reads ?v" by (simp add: reads_validate reads_return)
  from w Some have "tx_bind ?v (\<lambda>_. inv_Swap charID a b) d = (r, d')" by (simp add: move_write_def)
  from this rd show ?thesis
  proof (cases rule: tx_bind_readE)
    case (2 u d1)
    show ?thesis
    proof (cases r)
      case (Inl e)
      with 2 show ?thesis by (auto simp: inv_Swap_def dest: WithinTx_atomic)
    next
      case (Inr x)
      with 2 inv_Swap_Inr [of charID a b d1] ok a b Some ne show ?thesis by (cases u) auto
    qed
  qed simp
qed

text \<open>The sequence of \<open>MoveItem\<close> once the slots are known to be valid.\<close>

lemma reads_move_validate:
  "reads (if P then validateEquipmentRequirements charID item b else tx_return (Inr ()))"
  by (simp add: reads_validate reads_return)

lemma MoveItem_failure:
  assumes m: "MoveItem True now charID a b d tr = (Inl e, d', tr')" and ok: "slots_ok (db_tables d)"
  shows "db_tables d' = db_tables d \<and> tr' = tr"
proof (cases "isValidSlot a \<and> isValidSlot b")
  case False
  with m show ?thesis by (auto simp: MoveItem_def)
next
  case True
  then have ne: "a \<noteq> - 99" "b \<noteq> - 99" by (auto simp: isValidSlot_def isEquipmentSlot_def)
  have w: "err_keeps (db_tables d) (move_write now charID a b dest)"
    if "inv_GetBySlot charID a d1 = (Inr item, d2)" "db_tables d1 = db_tables d"
       "dest_item charID b d3 = (Inr dest, d4)" "db_tables d3 = db_tables d" for item d1 d2 d3 d4 dest
    unfolding err_keeps_def
  proof (intro allI impI)
    fix e1 x e2
    assume e: "db_tables e1 = db_tables d" "move_write now charID a b dest e1 = (Inl x, e2)"
    have s: "slot_map (db_tables e1) (charID, a) \<noteq> None" using GetBySlot_Inr [OF that(1)] that(2) e(1) by simp
    have "dest \<noteq> None \<Longrightarrow> slot_map (db_tables e1) (charID, b) \<noteq> None"
      using dest_occupied [OF that(3)] that(4) e(1) ok by (auto simp: slot_id_def)
    from move_write_cases [OF e(2) _ s ne this] e(1) ok show "db_tables e2 = db_tables d" by simp
  qed
  obtain q d2 where body: "tx_bind (inv_GetBySlot charID a) (\<lambda>item.
      tx_bind (if isEquipmentSlot b then validateEquipmentRequirements charID item b else tx_return (Inr ())) (\<lambda>_.
      tx_bind (dest_item charID b) (\<lambda>destItem.
      tx_bind (move_write now charID a b destItem) (\<lambda>_.
      tx_return (Inr (move_events charID item destItem (isEquipmentSlot a) (isEquipmentSlot b))))))) d = (q, d2)"
    by fastforce
  with m True have q: "q = Inl e" "d2 = d'" "tr' = tr" by (auto simp: MoveItem_def split: sum.splits)
  have "err_keeps (db_tables d) (tx_bind (inv_GetBySlot charID a) (\<lambda>item.
      tx_bind (if isEquipmentSlot b then validateEquipmentRequirements charID item b else tx_return (Inr ())) (\<lambda>_.
      tx_bind (dest_item charID b) (\<lambda>destItem.
      tx_bind (move_write now charID a b destItem) (\<lambda>_.
      tx_return (Inr (move_events charID item destItem (isEquipmentSlot a) (isEquipmentSlot b))))))))"
    apply (rule err_keeps_bind [OF reads_GetBySlot])
    apply (rule err_keeps_bind [OF reads_move_validate])
    apply (rule err_keeps_bind [OF reads_dest_item])
    apply (rule err_keeps_last, rule w)
    apply assumption+
    done
  from err_keepsD [OF this body [unfolded q]] have "db_tables d' = db_tables d" .
  with q show ?thesis by simp
qed

lemma MoveItem_success:
  assumes m: "MoveItem True now charID a b d tr = (Inr u, d', tr')"
  obtains item dest d1 d2 d3 d4 where "isValidSlot a" "isValidSlot b" "inv_GetBySlot charID a d = (Inr item, d1)"
    "isEquipmentSlot b \<Longrightarrow> validateEquipmentRequirements charID item b d1 = (Inr (), d2)"
    "dest_item charID b d2 = (Inr dest, d3)" "move_write now charID a b dest d3 = (Inr (), d')"
    "db_tables d1 = db_tables d" "db_tables d2 = db_tables d" "db_tables d3 = db_tables d"
    "tr' = tr @ move_events charID item dest (isEquipmentSlot a) (isEquipmentSlot b)"
proof -
  let ?v = "\<lambda>item. if isEquipmentSlot b then validateEquipmentRequirements charID item b else tx_return (Inr ())"
  from m have v: "isValidSlot a" "isValidSlot b" by (auto simp: MoveItem_def split: if_splits)
  with m obtain evs where body: "tx_bind (inv_GetBySlot charID a) (\<lambda>item. tx_bind (?v item) (\<lambda>_.
      tx_bind (dest_item charID b) (\<lambda>destItem. tx_bind (move_write now charID a b destItem) (\<lambda>_.
      tx_return (Inr (move_events charID item destItem (isEquipmentSlot a) (isEquipmentSlot b))))))) d = (Inr evs, d')"
    and tr: "tr' = tr @ evs" by (auto simp: MoveItem_def split: prod.splits sum.splits)
  from body reads_GetBySlot obtain item d1 where 1: "inv_GetBySlot charID a d = (Inr item, d1)" "db_tables d1 = db_tables d"
    and b1: "tx_bind (?v item) (\<lambda>_. tx_bind (dest_item charID b) (\<lambda>destItem. tx_bind (move_write now charID a b destItem) (\<lambda>_.
      tx_return (Inr (move_events charID item destItem (isEquipmentSlot a) (isEquipmentSlot b)))))) d1 = (Inr evs, d')"
    by (rule tx_bind_read_Inr)
  from b1 reads_move_validate obtain u d2 where 2: "?v item d1 = (Inr u, d2)" "db_tables d2 = db_tables d1"
    and b2: "tx_bind (dest_item charID b) (\<lambda>destItem. tx_bind (move_write now charID a b destItem) (\<lambda>_.
      tx_return (Inr (move_events charID item destItem (isEquipmentSlot a) (isEquipmentSlot b))))) d2 = (Inr evs, d')"
    by (rule tx_bind_read_Inr)
  from b2 reads_dest_item obtain dest d3 where 3: "dest_item charID b d2 = (Inr dest, d3)" "db_tables d3 = db_tables d2"
    and b3: "tx_bind (move_write now charID a b dest) (\<lambda>_.
      tx_return (Inr (move_events charID item dest (isEquipmentSlot a) (isEquipmentSlot b)))) d3 = (Inr evs, d')"
    by (rule tx_bind_read_Inr)
  from b3 have 4: "move_write now charID a b dest d3 = (Inr (), d')"
    "evs = move_events charID item dest (isEquipmentSlot a) (isEquipmentSlot b)" by (auto elim!: tx_bind_Inr)
  have vv: "isEquipmentSlot b \<Longrightarrow> validateEquipmentRequirements charID item b d1 = (Inr (), d2)" using 2(1) by simp
  show thesis by (rule that [OF v 1(1) vv 3(1) 4(1) 1(2)]) (simp_all add: 1 2 3 4 tr)
qed


definition demo_row :: "int \<Rightarrow> string \<Rightarrow> InvRow" where
  "demo_row slot item = \<lparr>iv_id = slot, iv_character_id = 1, iv_slot_index = slot, iv_item_definition_id = item,
     iv_quantity = 1, iv_durability = 100, iv_custom_modifiers = JArr [], iv_created_at = 0, iv_updated_at = 0\<rparr>"

definition demo_def :: "string \<Rightarrow> ItemRow" where
  "demo_def slotType = \<lparr>ir_name = ''x'', ir_description = [], ir_slot_type = slotType, ir_min_level = 1,
     ir_class_restrictions = [], ir_stats_modifiers = JArr [], ir_metadata = JObj [], ir_created_at = 0\<rparr>"

definition demo_bag :: "InvRow list \<Rightarrow> game_tables DB" where
  "demo_bag rows = \<lparr>db_tables = \<lparr>t_outbox = [], t_outbox_seq = 0, t_event_log = [],
     t_characters = [(1, \<lparr>ch_UserID = 1, ch_Name = ''Ayla'', ch_ClassName = ''MAGE'', ch_Level = 1, ch_Experience = 0,
         ch_Gold = 100, ch_LastActiveAt = 0, ch_CreatedAt = 0, ch_UpdatedAt = 0\<rparr>)],
     t_characters_seq = 1, t_character_stats = [(1, \<lparr>sr_base = JObj [], sr_derived = JObj [], sr_updated_at = 0\<rparr>)],
     t_items = [(''sword'', demo_def ''WEAPON''), (''potion'', demo_def ''NONE'')],
     t_inventories = rows, t_inventories_seq = 2000\<rparr>, db_faults = []\<rparr>"


text \<open>
  A swap that takes an item off an equipment slot does not check the one that takes its place: a
  potion in the bag ends up in the weapon slot.
\<close>

lemma MoveItem_unequip_unchecked:
  "let d = demo_bag [demo_row 3 ''potion'', demo_row WeaponSlot ''sword''] in
   case MoveItem True 5 1 WeaponSlot 3 d [] of (r, d', _) \<Rightarrow> is_ok r \<and>
     map_option ir_slot_type (item_at (db_tables d') 1 WeaponSlot) = Some ''NONE''"
  by code_simp

subsection \<open>Adding an item\<close>

definition known_items :: "'x game_tables_scheme \<Rightarrow> bool" where
  "known_items t \<longleftrightarrow> list_all (\<lambda>i. map_of (t_items t) (iv_item_definition_id i) \<noteq> None) (t_inventories t)"

lemma reads_ListByCharacter: "reads (inv_ListByCharacter charID)"
  unfolding inv_ListByCharacter_def by (intro reads_bind reads_stmt reads_fetch) auto

lemma scan_rows_slots:
  "scan_rows scan_item rows = Inr its \<Longrightarrow> map ii_SlotIndex its = map (iv_slot_index \<circ> fst) rows"
proof (induction rows arbitrary: its)
  case (Cons x rows)
  then obtain a as where "scan_item x = Inr a" "scan_rows scan_item rows = Inr as" "its = a # as"
    by (auto simp: res_bind_def split: sum.splits)
  moreover from this(1) have "ii_SlotIndex a = iv_slot_index (fst x)"
    by (auto simp: scan_item_def res_bind_def split: sum.splits prod.splits)
  ultimately show ?case using Cons.IH by simp
qed simp

text \<open>Without a failure the listing shows exactly the occupied slots.\<close>

lemma ListByCharacter_slots:
  assumes l: "inv_ListByCharacter charID d = (Inr its, d')" and nf: "db_faults d = []" and k: "known_items (db_tables d)"
  shows "ii_SlotIndex ` set its = {s. slot_map (db_tables d) (charID, s) \<noteq> None}"
proof -
  let ?rows = "joined (db_tables d) (\<lambda>i. iv_character_id i = charID)"
  from l nf have "scan_rows scan_item (sort_key (\<lambda>(i, _). iv_slot_index i) ?rows) = Inr its"
    by (auto simp: inv_ListByCharacter_def tx_bind_def db_stmt_no_faults fetch_rows_no_faults)
  from arg_cong [OF scan_rows_slots [OF this], of set]
  have "ii_SlotIndex ` set its = (iv_slot_index \<circ> fst) ` set ?rows" by simp
  also have "\<dots> = iv_slot_index ` fst ` set ?rows" by (rule image_comp [symmetric])
  also have "fst ` set ?rows = {i \<in> set (t_inventories (db_tables d)). iv_character_id i = charID}" (is "?l = ?r")
  proof
    show "?l \<subseteq> ?r" by (auto simp: set_joined)
    show "?r \<subseteq> ?l"
    proof
      fix i
      assume i: "i \<in> ?r"
      with k obtain r where "map_of (t_items (db_tables d)) (iv_item_definition_id i) = Some r"
        by (auto simp: known_items_def list_all_iff)
      with i have "(i, r) \<in> set ?rows" by (simp add: set_joined)
      then show "i \<in> ?l" by (metis fst_conv image_eqI)
    qed
  qed
  also have "iv_slot_index ` {i \<in> set (t_inventories (db_tables d)). iv_character_id i = charID} =
      {s. (charID, s) \<in> set (keys (map (\<lambda>i. (slot_key i, stack_of i)) (t_inventories (db_tables d))))}"
    by (auto simp: image_iff)
  finally show ?thesis unfolding set_keys_iff slot_map_def .
qed

lemma first_empty_bounds:
  "first_empty its \<noteq> - 1 \<Longrightarrow> 0 \<le> first_empty its \<and> first_empty its \<le> 99 \<and> first_empty its \<notin> ii_SlotIndex ` set its \<and>
     (\<forall>s. 0 \<le> s \<and> s < first_empty its \<longrightarrow> s \<in> ii_SlotIndex ` set its)"
proof -
  let ?P = "\<lambda>i. i \<notin> ii_SlotIndex ` set its"
  assume "first_empty its \<noteq> - 1"
  then obtain i where i: "find ?P [0..99] = Some i" "first_empty its = i"
    by (auto simp: first_empty_def split: option.splits)
  then obtain n where n: "n < length [0..99::int]" "?P ([0..99] ! n)" "i = [0..99] ! n" "\<forall>j<n. \<not> ?P ([0..99] ! j)"
    by (auto simp: find_Some_iff)
  then have "i = int n" "int n \<le> 99" by auto
  moreover have "s \<in> ii_SlotIndex ` set its" if "0 \<le> s" "s < int n" for s
  proof -
    have "nat s < n" using that by simp
    with n(4) have "[0..99] ! nat s \<in> ii_SlotIndex ` set its" by blast
    moreover have "nat s < length [0..99::int]" using \<open>nat s < n\<close> n(1) by simp
    ultimately show ?thesis using that by simp
  qed
  ultimately show ?thesis using n i(2) by auto
qed

lemma if_if_Inr: "(if A then Inl u else if B then Inl v else Inr p) = Inr q \<longleftrightarrow> \<not> A \<and> \<not> B \<and> p = q"
  by simp

lemma inv_AddItem_cases:
  assumes "inv_AddItem now item d = (r, d')"
  shows "case r of Inl _ \<Rightarrow> db_tables d' = db_tables d
    | Inr stored \<Rightarrow> \<exists>j. marshal_Modifiers (ii_CustomModifiers item) = Inr j \<and>
        stored = item\<lparr>ii_ID := t_inventories_seq (db_tables d) + 1, ii_CreatedAt := now, ii_UpdatedAt := now\<rparr> \<and>
        slot_map (db_tables d) (ii_CharacterID item, ii_SlotIndex item) = None \<and>
        slot_map (db_tables d') = (slot_map (db_tables d))((ii_CharacterID item, ii_SlotIndex item) \<mapsto>
          (ii_ID stored, ii_ItemDefinitionID item, ii_Quantity item, ii_Durability item, j)) \<and>
        (slots_ok (db_tables d) \<longrightarrow> slots_ok (db_tables d'))"
proof (cases r)
  case (Inl e)
  have "err_keeps (db_tables d) (inv_AddItem now item)"
    unfolding inv_AddItem_def by (intro err_keeps_bind reads_return err_keeps_stmt)
  from err_keepsD [OF this assms [unfolded Inl]] Inl show ?thesis by simp
next
  case (Inr stored)
  let ?k = "(ii_CharacterID item, ii_SlotIndex item)"
  let ?row = "\<lambda>t j. \<lparr>iv_id = t_inventories_seq t + 1, iv_character_id = ii_CharacterID item,
     iv_slot_index = ii_SlotIndex item, iv_item_definition_id = ii_ItemDefinitionID item,
     iv_quantity = ii_Quantity item, iv_durability = ii_Durability item, iv_custom_modifiers = j,
     iv_created_at = now, iv_updated_at = now\<rparr>"
  let ?xs = "map (\<lambda>i. (slot_key i, stack_of i)) (t_inventories (db_tables d))"
  from assms Inr obtain j where j: "marshal_Modifiers (ii_CustomModifiers item) = Inr j"
    by (auto simp: inv_AddItem_def elim!: tx_bind_Inr)
  from assms Inr j have "db_stmt (\<lambda>t.
       if ?k \<in> set (map slot_key (t_inventories t)) then Inl unique_violation
       else if map_of (t_characters t) (ii_CharacterID item) = None \<or> map_of (t_items t) (ii_ItemDefinitionID item) = None
       then Inl foreign_key_violation
       else Inr (item\<lparr>ii_ID := t_inventories_seq t + 1, ii_CreatedAt := now, ii_UpdatedAt := now\<rparr>,
           t\<lparr>t_inventories_seq := t_inventories_seq t + 1, t_inventories := t_inventories t @ [?row t j]\<rparr>)) d = (Inr stored, d')"
    unfolding inv_AddItem_def tx_bind_def tx_return_def Let_def by simp
  note row = db_stmt_Inr [OF this, unfolded if_if_Inr prod.inject]
  have fr: "?k \<notin> slot_key ` set (t_inventories (db_tables d))"
    and s: "stored = item\<lparr>ii_ID := t_inventories_seq (db_tables d) + 1, ii_CreatedAt := now, ii_UpdatedAt := now\<rparr>"
    and dt: "db_tables d' = (db_tables d)\<lparr>t_inventories_seq := t_inventories_seq (db_tables d) + 1,
       t_inventories := t_inventories (db_tables d) @ [?row (db_tables d) j]\<rparr>"
    using conjunct1 [OF row] conjunct2 [OF conjunct2 [OF row], THEN conjunct1, symmetric]
      conjunct2 [OF conjunct2 [OF row], THEN conjunct2, symmetric] unfolding set_map by blast+
  have t: "t_inventories (db_tables d') = t_inventories (db_tables d) @ [?row (db_tables d) j]" by (simp add: dt)
  have k: "?k \<notin> set (keys ?xs)" using fr by (force simp: image_iff)
  then have none: "slot_map (db_tables d) ?k = None" unfolding slot_map_def set_keys_iff by blast
  have "slot_map (db_tables d') = (slot_map (db_tables d))(?k \<mapsto>
      (ii_ID stored, ii_ItemDefinitionID item, ii_Quantity item, ii_Durability item, j))"
    unfolding slot_map_def t using map_of_snoc [OF k] by (simp add: s stack_of_def del: map_of_append)
  moreover have "slots_ok (db_tables d) \<Longrightarrow> slots_ok (db_tables d')" using fr by (auto simp: slots_ok_def t)
  ultimately show ?thesis using j s none Inr by auto
qed

lemma svc_AddItem_cases:
  assumes a: "svc_AddItem True now item d tr = (r, d', tr')" and ok: "slots_ok (db_tables d)"
  shows "case r of Inl _ \<Rightarrow> db_tables d' = db_tables d \<and> tr' = tr
    | Inr stored \<Rightarrow> \<exists>s j. 0 \<le> s \<and> s \<le> 99 \<and> slots_ok (db_tables d') \<and>
        slot_map (db_tables d) (ii_CharacterID item, s) = None \<and>
        slot_map (db_tables d') = (slot_map (db_tables d))((ii_CharacterID item, s) \<mapsto>
           (ii_ID stored, ii_ItemDefinitionID item, ii_Quantity item, ii_Durability item, j)) \<and>
        tr' = tr @ [ItemAddedToInventory (ii_CharacterID item) (ii_ItemDefinitionID item) (ii_Quantity item) s] \<and>
        (db_faults d = [] \<and> known_items (db_tables d) \<longrightarrow>
           (\<forall>s'. 0 \<le> s' \<and> s' < s \<longrightarrow> slot_map (db_tables d) (ii_CharacterID item, s') \<noteq> None))"
proof -
  obtain q d1 where l: "inv_ListByCharacter (ii_CharacterID item) d = (q, d1)" by fastforce
  have t1: "db_tables d1 = db_tables d" using readsD [OF reads_ListByCharacter l] .
  show ?thesis
  proof (cases "\<exists>its. q = Inr its \<and> first_empty its \<noteq> - 1")
    case False
    with a l t1 show ?thesis by (auto simp: svc_AddItem_def Let_def split: sum.splits)
  next
    case True
    then obtain its where its: "q = Inr its" "first_empty its \<noteq> - 1" by blast
    let ?it = "item\<lparr>ii_SlotIndex := first_empty its\<rparr>"
    obtain z d2 where ad: "inv_AddItem now ?it d1 = (z, d2)" by fastforce
    have res: "(r, d', tr') = (z, d2, case z of Inl _ \<Rightarrow> tr | Inr stored \<Rightarrow> tr @
       [ItemAddedToInventory (ii_CharacterID stored) (ii_ItemDefinitionID stored) (ii_Quantity stored) (ii_SlotIndex stored)])"
      using a l its ad by (auto simp: svc_AddItem_def Let_def split: sum.splits)
    note c = inv_AddItem_cases [OF ad, unfolded t1]
    note b = first_empty_bounds [OF its(2)]
    show ?thesis
    proof (cases z)
      case (Inl e)
      with res c show ?thesis by simp
    next
      case (Inr stored)
      have low: "\<forall>s'. 0 \<le> s' \<and> s' < first_empty its \<longrightarrow> slot_map (db_tables d) (ii_CharacterID item, s') \<noteq> None"
        if "db_faults d = []" "known_items (db_tables d)"
        using ListByCharacter_slots [OF l [unfolded its(1)] that] b by blast
      from c Inr obtain j where j: "ii_CharacterID stored = ii_CharacterID item" "ii_ItemDefinitionID stored = ii_ItemDefinitionID item"
        "ii_Quantity stored = ii_Quantity item" "ii_SlotIndex stored = first_empty its"
        "slot_map (db_tables d) (ii_CharacterID item, first_empty its) = None"
        "slot_map (db_tables d2) = (slot_map (db_tables d))((ii_CharacterID item, first_empty its) \<mapsto>
           (ii_ID stored, ii_ItemDefinitionID item, ii_Quantity item, ii_Durability item, j))"
        "slots_ok (db_tables d2)" using ok by auto
      have r: "r = Inr stored" "d' = d2" "tr' = tr @ [ItemAddedToInventory (ii_CharacterID item)
          (ii_ItemDefinitionID item) (ii_Quantity item) (first_empty its)]" using res Inr j by auto
      show ?thesis unfolding r(1) sum.case unfolding r(2,3)
        by (rule exI [of _ "first_empty its"], rule exI [of _ j]) (use j b low in blast)
    qed
  qed
qed

text \<open>
  C14: adding an item never overwrites one, whatever driver calls fail (also when the listing of
  the bag is cut short by a failure the code does not see). An error changes no table and
  publishes nothing. On success the item is in a bag slot between 0 and 99 that was empty, no
  other slot has changed, there is still one row per slot and one event tells what was added
  where; if the driver does not fail, it is the lowest empty slot.
\<close>

theorem AddItem_correct:
  assumes a: "svc_AddItem True now item d tr = (r, d', tr')" and ok: "slots_ok (db_tables d)"
  shows "case r of Inl _ \<Rightarrow> db_tables d' = db_tables d \<and> tr' = tr
    | Inr stored \<Rightarrow> \<exists>s j. 0 \<le> s \<and> s \<le> 99 \<and> slots_ok (db_tables d') \<and>
        slot_map (db_tables d) (ii_CharacterID item, s) = None \<and>
        slot_map (db_tables d') = (slot_map (db_tables d))((ii_CharacterID item, s) \<mapsto>
           (ii_ID stored, ii_ItemDefinitionID item, ii_Quantity item, ii_Durability item, j)) \<and>
        tr' = tr @ [ItemAddedToInventory (ii_CharacterID item) (ii_ItemDefinitionID item) (ii_Quantity item) s] \<and>
        (db_faults d = [] \<and> known_items (db_tables d) \<longrightarrow>
           (\<forall>s'. 0 \<le> s' \<and> s' < s \<longrightarrow> slot_map (db_tables d) (ii_CharacterID item, s') \<noteq> None))"
  using svc_AddItem_cases [OF assms] .

theorem AddItem_correct_witness:
  "\<exists>stored d'. svc_AddItem True 5 \<lparr>ii_ID = 0, ii_CharacterID = 1, ii_SlotIndex = 0, ii_ItemDefinitionID = ''potion'',
       ii_Quantity = 2, ii_Durability = 100, ii_CustomModifiers = [], ii_CreatedAt = 0, ii_UpdatedAt = 0,
       ii_ItemDetails = None\<rparr> (demo_bag [demo_row 0 ''sword'']) [] =
      (Inr stored, d', [ItemAddedToInventory 1 ''potion'' 2 1]) \<and> slots_ok (db_tables d')"
proof -
  let ?it = "\<lparr>ii_ID = 0, ii_CharacterID = 1, ii_SlotIndex = 0, ii_ItemDefinitionID = ''potion'',
       ii_Quantity = 2, ii_Durability = 100, ii_CustomModifiers = [], ii_CreatedAt = 0, ii_UpdatedAt = 0,
       ii_ItemDetails = None\<rparr>"
  let ?d = "demo_bag [demo_row 0 ''sword'']"
  obtain r d' tr' where e: "svc_AddItem True 5 ?it ?d [] = (r, d', tr')" by (metis prod_cases3)
  have "case svc_AddItem True 5 ?it ?d [] of (r, _, tr) \<Rightarrow> is_ok r \<and> tr = [ItemAddedToInventory 1 ''potion'' 2 1]"
    by code_simp
  then obtain stored where r: "r = Inr stored" "tr' = [ItemAddedToInventory 1 ''potion'' 2 1]" by (auto simp: e elim: is_okE)
  have ok: "slots_ok (db_tables ?d)" by code_simp
  from AddItem_correct [OF e ok] r e show ?thesis by auto
qed

end
