(* ===== verification/Keyed_Mutex.thy ===== *)
theory Keyed_Mutex
  imports Prelude
begin

section \<open>The per-character lock: keyedMutex of backend/game/inventory/service.go\<close>

text \<open>
  Inventory operations of one character are serialised by a mutex per key, kept in a map, counted
  by reference and evicted when the last goroutine leaves. The mutexes are objects on a heap: a
  goroutine keeps the pointer it got from the map, so the danger is that two goroutines of one key
  end up with two different mutexes. A critical section of the outer mutex \<open>k.mu\<close> is one step, so
  are \<open>m.mu.Lock()\<close> (which blocks while the mutex is held) and \<open>m.mu.Unlock()\<close>; the steps of the
  goroutines interleave in any order.
\<close>

record refMutex =
  rm_mu :: "nat option"
  rm_refs :: int

text \<open>Where a goroutine stands: outside, registered, in the critical section, or past \<open>m.mu.Unlock()\<close>.\<close>

datatype pc = Outside | Registered int nat | Inside int nat | Leaving int nat

record keyedMutex =
  km_locks :: "int \<rightharpoonup> nat"
  km_heap :: "nat \<Rightarrow> refMutex"
  km_next :: nat
  km_pc :: "nat \<Rightarrow> pc"

definition newKeyedMutex :: keyedMutex where
  "newKeyedMutex = \<lparr>km_locks = Map.empty, km_heap = (\<lambda>_. \<lparr>rm_mu = None, rm_refs = 0\<rparr>), km_next = 0, km_pc = (\<lambda>_. Outside)\<rparr>"

text \<open>The section of \<open>lock\<close> under \<open>k.mu\<close>: find or allocate the mutex, count the reference.\<close>

definition lock_register :: "nat \<Rightarrow> int \<Rightarrow> keyedMutex \<Rightarrow> keyedMutex" where
  "lock_register i key k =
     (let (m, k1) = (case km_locks k key of
            Some m \<Rightarrow> (m, k)
          | None \<Rightarrow> (km_next k, k\<lparr>km_locks := (km_locks k)(key \<mapsto> km_next k),
              km_heap := (km_heap k)(km_next k := \<lparr>rm_mu = None, rm_refs = 0\<rparr>), km_next := km_next k + 1\<rparr>)) in
      k1\<lparr>km_heap := (km_heap k1)(m := (km_heap k1 m)\<lparr>rm_refs := rm_refs (km_heap k1 m) + 1\<rparr>),
         km_pc := (km_pc k1)(i := Registered key m)\<rparr>)"

text \<open>\<open>m.mu.Lock()\<close> when the mutex is free, and \<open>m.mu.Unlock()\<close>.\<close>

definition lock_acquire :: "nat \<Rightarrow> int \<Rightarrow> nat \<Rightarrow> keyedMutex \<Rightarrow> keyedMutex" where
  "lock_acquire i key m k = k\<lparr>km_heap := (km_heap k)(m := (km_heap k m)\<lparr>rm_mu := Some i\<rparr>),
     km_pc := (km_pc k)(i := Inside key m)\<rparr>"

definition unlock_release :: "nat \<Rightarrow> int \<Rightarrow> nat \<Rightarrow> keyedMutex \<Rightarrow> keyedMutex" where
  "unlock_release i key m k = k\<lparr>km_heap := (km_heap k)(m := (km_heap k m)\<lparr>rm_mu := None\<rparr>),
     km_pc := (km_pc k)(i := Leaving key m)\<rparr>"

text \<open>The rest of the unlock function, under \<open>k.mu\<close>.\<close>

definition unlock_leave :: "nat \<Rightarrow> int \<Rightarrow> nat \<Rightarrow> keyedMutex \<Rightarrow> keyedMutex" where
  "unlock_leave i key m k =
     (let refs = rm_refs (km_heap k m) - 1 in
      k\<lparr>km_heap := (km_heap k)(m := (km_heap k m)\<lparr>rm_refs := refs\<rparr>),
        km_locks := (if refs = 0 then (km_locks k)(key := None) else km_locks k),
        km_pc := (km_pc k)(i := Outside)\<rparr>)"

inductive km_step :: "keyedMutex \<Rightarrow> keyedMutex \<Rightarrow> bool" where
  register: "km_pc k i = Outside \<Longrightarrow> km_step k (lock_register i key k)"
| acquire: "km_pc k i = Registered key m \<Longrightarrow> rm_mu (km_heap k m) = None \<Longrightarrow> km_step k (lock_acquire i key m k)"
| release: "km_pc k i = Inside key m \<Longrightarrow> km_step k (unlock_release i key m k)"
| leave: "km_pc k i = Leaving key m \<Longrightarrow> km_step k (unlock_leave i key m k)"

inductive km_reachable :: "keyedMutex \<Rightarrow> bool" where
  start: "km_reachable newKeyedMutex"
| step: "km_reachable k \<Longrightarrow> km_step k k' \<Longrightarrow> km_reachable k'"

subsection \<open>The invariant\<close>

text \<open>The mutex a goroutine points to, and the goroutines pointing to a mutex.\<close>

fun pc_ref :: "pc \<Rightarrow> (int \<times> nat) option" where
  "pc_ref Outside = None"
| "pc_ref (Registered key m) = Some (key, m)"
| "pc_ref (Inside key m) = Some (key, m)"
| "pc_ref (Leaving key m) = Some (key, m)"

definition users :: "keyedMutex \<Rightarrow> nat \<Rightarrow> nat set" where
  "users k m = {i. \<exists>key. pc_ref (km_pc k i) = Some (key, m)}"

text \<open>
  A goroutine's mutex is the one in the map; a mutex in the map is allocated and belongs to one
  key; its count is the number of its goroutines, which is not zero; it is held exactly by the
  goroutine inside.
\<close>

definition km_inv :: "keyedMutex \<Rightarrow> bool" where
  "km_inv k \<longleftrightarrow>
     (\<forall>i key m. pc_ref (km_pc k i) = Some (key, m) \<longrightarrow> km_locks k key = Some m) \<and>
     (\<forall>key m. km_locks k key = Some m \<longrightarrow> m < km_next k \<and> finite (users k m) \<and> users k m \<noteq> {} \<and>
        rm_refs (km_heap k m) = int (card (users k m))) \<and>
     (\<forall>key key' m. km_locks k key = Some m \<longrightarrow> km_locks k key' = Some m \<longrightarrow> key = key') \<and>
     (\<forall>key m i. km_locks k key = Some m \<longrightarrow> (rm_mu (km_heap k m) = Some i \<longleftrightarrow> km_pc k i = Inside key m))"

lemma km_inv_start: "km_inv newKeyedMutex"
  by (simp add: km_inv_def newKeyedMutex_def)

lemma km_invD:
  assumes "km_inv k"
  shows "pc_ref (km_pc k i) = Some (key, m) \<Longrightarrow> km_locks k key = Some m"
    and "km_locks k key = Some m \<Longrightarrow> m < km_next k"
    and "km_locks k key = Some m \<Longrightarrow> finite (users k m)"
    and "km_locks k key = Some m \<Longrightarrow> users k m \<noteq> {}"
    and "km_locks k key = Some m \<Longrightarrow> rm_refs (km_heap k m) = int (card (users k m))"
    and "km_locks k key = Some m \<Longrightarrow> km_locks k key' = Some m \<Longrightarrow> key = key'"
    and "km_locks k key = Some m \<Longrightarrow> rm_mu (km_heap k m) = Some i \<longleftrightarrow> km_pc k i = Inside key m"
proof -
  note c = assms [unfolded km_inv_def]
  note c2 = c [THEN conjunct2, THEN conjunct1, rule_format] and c3 = c [THEN conjunct2, THEN conjunct2]
  show "pc_ref (km_pc k i) = Some (key, m) \<Longrightarrow> km_locks k key = Some m" by (rule c [THEN conjunct1, rule_format])
  show "km_locks k key = Some m \<Longrightarrow> m < km_next k" by (rule c2 [THEN conjunct1])
  show "km_locks k key = Some m \<Longrightarrow> finite (users k m)" by (rule c2 [THEN conjunct2, THEN conjunct1])
  show "km_locks k key = Some m \<Longrightarrow> users k m \<noteq> {}" by (rule c2 [THEN conjunct2, THEN conjunct2, THEN conjunct1])
  show "km_locks k key = Some m \<Longrightarrow> rm_refs (km_heap k m) = int (card (users k m))"
    by (rule c2 [THEN conjunct2, THEN conjunct2, THEN conjunct2])
  show "km_locks k key = Some m \<Longrightarrow> km_locks k key' = Some m \<Longrightarrow> key = key'" by (rule c3 [THEN conjunct1, rule_format])
  show "km_locks k key = Some m \<Longrightarrow> rm_mu (km_heap k m) = Some i \<longleftrightarrow> km_pc k i = Inside key m"
    by (rule c3 [THEN conjunct2, rule_format])
qed

lemma km_invI:
  assumes "\<And>i key m. pc_ref (km_pc k i) = Some (key, m) \<Longrightarrow> km_locks k key = Some m"
    and "\<And>key m. km_locks k key = Some m \<Longrightarrow> m < km_next k"
    and "\<And>key m. km_locks k key = Some m \<Longrightarrow> finite (users k m) \<and> users k m \<noteq> {} \<and> rm_refs (km_heap k m) = int (card (users k m))"
    and "\<And>key key' m. km_locks k key = Some m \<Longrightarrow> km_locks k key' = Some m \<Longrightarrow> key = key'"
    and "\<And>key m i. km_locks k key = Some m \<Longrightarrow> rm_mu (km_heap k m) = Some i \<longleftrightarrow> km_pc k i = Inside key m"
  shows "km_inv k"
  unfolding km_inv_def using assms by (intro conjI allI impI) simp_all

text \<open>How a step of goroutine \<open>i\<close> changes who uses a mutex.\<close>

lemma users_upd:
  "users (k\<lparr>km_pc := (km_pc k)(i := p)\<rparr>) m =
    (if \<exists>key. pc_ref p = Some (key, m) then insert i (users k m) else users k m - {i})"
  by (auto simp: users_def)

lemma users_cong: "km_pc k = km_pc k' \<Longrightarrow> users k m = users k' m"
  by (simp add: users_def)

text \<open>A step that only moves \<open>i\<close> between two places with the same mutex and sets its holder.\<close>

lemma km_inv_hold:
  assumes inv: "km_inv k" and i: "pc_ref (km_pc k i) = Some (key, m)" and p: "pc_ref p = Some (key, m)"
    and h: "\<And>j. h = Some j \<longleftrightarrow> (if j = i then p = Inside key m else km_pc k j = Inside key m)"
  shows "km_inv (k\<lparr>km_heap := (km_heap k)(m := (km_heap k m)\<lparr>rm_mu := h\<rparr>), km_pc := (km_pc k)(i := p)\<rparr>)"
    (is "km_inv ?k")
proof -
  note D = km_invD [OF inv]
  have u: "users ?k x = users k x" for x
    using i p by (auto simp: users_def)
  have l: "km_locks k key = Some m" using D(1) i .
  show ?thesis
  proof (rule km_invI)
    show "km_locks ?k y = Some x" if "pc_ref (km_pc ?k j) = Some (y, x)" for j y x
      using that D(1) l p by (cases "j = i") auto
    show "x < km_next ?k" if "km_locks ?k y = Some x" for y x using that D(2) by simp
    show "finite (users ?k x) \<and> users ?k x \<noteq> {} \<and> rm_refs (km_heap ?k x) = int (card (users ?k x))"
      if "km_locks ?k y = Some x" for y x
      using that D(3,4,5) [of y x] by (auto simp: u)
    show "y = y'" if "km_locks ?k y = Some x" "km_locks ?k y' = Some x" for y y' x using that D(6) by simp
    show "rm_mu (km_heap ?k x) = Some j \<longleftrightarrow> km_pc ?k j = Inside y x" if "km_locks ?k y = Some x" for y x j
    proof (cases "x = m")
      case True
      then have "y = key" using that D(6) l by simp
      then show ?thesis using True h by simp
    next
      case False
      have "km_pc k i \<noteq> Inside y x" "p \<noteq> Inside y x" using False i p by auto
      then show ?thesis using that False D(7) [of y x j] by (cases "j = i") auto
    qed
  qed
qed

lemma km_inv_acquire:
  assumes "km_inv k" "km_pc k i = Registered key m" "rm_mu (km_heap k m) = None"
  shows "km_inv (lock_acquire i key m k)"
  unfolding lock_acquire_def
proof (rule km_inv_hold [OF assms(1), of i key m])
  have "km_locks k key = Some m" using km_invD(1) [OF assms(1), of i key m] assms(2) by simp
  then show "Some i = Some j \<longleftrightarrow> (if j = i then Inside key m = Inside key m else km_pc k j = Inside key m)" for j
    using km_invD(7) [OF assms(1), of key m j] assms(3) by auto
qed (use assms in auto)

lemma km_inv_release:
  assumes "km_inv k" "km_pc k i = Inside key m"
  shows "km_inv (unlock_release i key m k)"
  unfolding unlock_release_def
proof (rule km_inv_hold [OF assms(1), of i key m])
  have l: "km_locks k key = Some m" using km_invD(1) [OF assms(1), of i key m] assms(2) by simp
  show "None = Some j \<longleftrightarrow> (if j = i then Leaving key m = Inside key m else km_pc k j = Inside key m)" for j
    using km_invD(7) [OF assms(1) l, of j] km_invD(7) [OF assms(1) l, of i] assms(2) by auto
qed (use assms in auto)

lemma km_inv_register:
  assumes inv: "km_inv k" and i: "km_pc k i = Outside"
  shows "km_inv (lock_register i key k)" (is "km_inv ?k")
proof -
  note D = km_invD [OF inv]
  define m where "m = (case km_locks k key of Some m \<Rightarrow> m | None \<Rightarrow> km_next k)"
  have fresh: "users k m = {}" if "km_locks k key = None"
    using that D(1,2) by (force simp: users_def m_def)
  have nu: "i \<notin> users k x" for x using i by (simp add: users_def)
  have locks: "km_locks ?k = (km_locks k)(key \<mapsto> m)" and pc: "km_pc ?k = (km_pc k)(i := Registered key m)"
    and heap: "\<And>x. x \<noteq> m \<Longrightarrow> km_heap ?k x = km_heap k x"
    and hm: "rm_refs (km_heap ?k m) = (if km_locks k key = None then 1 else rm_refs (km_heap k m) + 1)"
      "rm_mu (km_heap ?k m) = (if km_locks k key = None then None else rm_mu (km_heap k m))"
    and nxt: "km_next ?k = (if km_locks k key = None then km_next k + 1 else km_next k)"
    by (auto simp: lock_register_def m_def Let_def fun_eq_iff split: option.splits)
  have u: "users ?k x = (if x = m then insert i (users k x) else users k x)" for x
    using i by (auto simp: users_def pc)
  have other: "x \<noteq> m" if "km_locks k y = Some x" "y \<noteq> key" for y x
    using that D(2,6) by (cases "km_locks k key") (fastforce simp: m_def)+
  have cnt: "finite (users k m) \<and> rm_refs (km_heap ?k m) = int (card (users k m)) + 1"
  proof (cases "km_locks k key")
    case None
    then show ?thesis using fresh by (simp add: hm)
  next
    case (Some x)
    then have "x = m" by (simp add: m_def)
    with Some show ?thesis using D(3,5) [of key m] by (simp add: hm)
  qed
  show ?thesis
  proof (rule km_invI)
    show "km_locks ?k y = Some x" if "pc_ref (km_pc ?k j) = Some (y, x)" for j y x
    proof (cases "j = i")
      case True
      then have "y = key" "x = m" using that by (simp_all add: pc)
      then show ?thesis by (simp add: locks)
    next
      case False
      then have "km_locks k y = Some x" using that D(1) by (simp add: pc)
      then show ?thesis by (auto simp: locks m_def)
    qed
    show "x < km_next ?k" if "km_locks ?k y = Some x" for y x
      using that D(2) [of y x] D(2) [of key x]
      by (auto simp: locks nxt m_def split: if_splits option.splits)
    show "finite (users ?k x) \<and> users ?k x \<noteq> {} \<and> rm_refs (km_heap ?k x) = int (card (users ?k x))"
      if "km_locks ?k y = Some x" for y x
    proof (cases "x = m")
      case True
      then show ?thesis using cnt nu [of m] by (simp add: u)
    next
      case False
      then have "km_locks k y = Some x" using that by (auto simp: locks split: if_splits)
      then show ?thesis using False D(3,4,5) [of y x] by (simp add: u heap)
    qed
    show "y = y'" if "km_locks ?k y = Some x" "km_locks ?k y' = Some x" for y y' x
      using that other [of y x] other [of y' x] D(6) by (auto simp: locks split: if_splits)
    show "rm_mu (km_heap ?k x) = Some j \<longleftrightarrow> km_pc ?k j = Inside y x" if "km_locks ?k y = Some x" for y x j
    proof (cases "x = m")
      case True
      then have y: "y = key" using that other by (auto simp: locks split: if_splits)
      have "km_locks k key = None \<Longrightarrow> km_pc k j \<noteq> Inside key m" using fresh unfolding users_def by (metis (mono_tags, lifting) empty_iff mem_Collect_eq pc_ref.simps(3))
      moreover have "km_locks k key \<noteq> None \<Longrightarrow> km_locks k key = Some m" by (auto simp: m_def)
      ultimately show ?thesis unfolding True y using i D(7) [of key m j]
        by (cases "km_locks k key = None") (simp_all add: pc hm)
    next
      case False
      then have "km_locks k y = Some x" using that by (auto simp: locks split: if_splits)
      then show ?thesis using False i D(7) [of y x j] by (auto simp: pc heap)
    qed
  qed
qed

lemma km_inv_leave:
  assumes inv: "km_inv k" and i: "km_pc k i = Leaving key m"
  shows "km_inv (unlock_leave i key m k)" (is "km_inv ?k")
proof -
  note D = km_invD [OF inv]
  have l: "km_locks k key = Some m" using D(1) [of i key m] i by simp
  have iu: "i \<in> users k m" using i by (simp add: users_def)
  have u: "users ?k x = users k x - {i}" for x
    by (auto simp: users_def unlock_leave_def Let_def)
  have ux: "users k x - {i} = users k x" if "x \<noteq> m" for x using that i by (auto simp: users_def)
  have pc: "km_pc ?k = (km_pc k)(i := Outside)" by (simp add: unlock_leave_def Let_def)
  have refs: "rm_refs (km_heap ?k m) = int (card (users k m - {i}))"
    using D(3,5) [OF l] iu by (simp add: unlock_leave_def Let_def card_Diff_singleton_if of_nat_diff Suc_leI card_gt_0_iff)
      (metis Suc_leI card_gt_0_iff empty_iff of_nat_1 of_nat_diff One_nat_def)
  have mu: "rm_mu (km_heap ?k x) = rm_mu (km_heap k x)" and rest: "x \<noteq> m \<Longrightarrow> km_heap ?k x = km_heap k x" for x
    by (auto simp: unlock_leave_def Let_def)
  have empty: "rm_refs (km_heap ?k m) = 0 \<longleftrightarrow> users k m - {i} = {}"
    unfolding refs using D(3) [OF l] by (simp only: of_nat_eq_0_iff card_eq_0_iff) auto
  have locks: "km_locks ?k y = (if y = key \<and> users k m - {i} = {} then None else km_locks k y)" for y
    using empty by (simp add: unlock_leave_def Let_def)
  have sub: "km_locks k y = Some x" if "km_locks ?k y = Some x" for y x using that by (simp add: locks split: if_splits)
  show ?thesis
  proof (rule km_invI)
    show "km_locks ?k y = Some x" if r: "pc_ref (km_pc ?k j) = Some (y, x)" for j y x
    proof -
      have j: "j \<noteq> i" "pc_ref (km_pc k j) = Some (y, x)" using r by (auto simp: pc split: if_splits)
      have "km_locks k y = Some x" using D(1) j(2) .
      moreover have "y = key \<Longrightarrow> j \<in> users k m - {i}" using j l D(1) [of j y x] by (auto simp: users_def)
      ultimately show ?thesis by (auto simp: locks)
    qed
    show "x < km_next ?k" if "km_locks ?k y = Some x" for y x
      using D(2) [OF sub [OF that]] by (simp add: unlock_leave_def Let_def)
    show "finite (users ?k x) \<and> users ?k x \<noteq> {} \<and> rm_refs (km_heap ?k x) = int (card (users ?k x))"
      if "km_locks ?k y = Some x" for y x
    proof (cases "x = m")
      case True
      then have "y = key" using D(6) [OF sub [OF that]] l by simp
      with that have "users k m - {i} \<noteq> {}" by (auto simp: locks)
      then show ?thesis using True D(3) [OF l] refs by (simp add: u)
    next
      case False
      show ?thesis using D(3-5) [OF sub [OF that]] by (simp add: u ux [OF False] rest [OF False])
    qed
    show "y = y'" if "km_locks ?k y = Some x" "km_locks ?k y' = Some x" for y y' x
      using D(6) [OF sub [OF that(1)] sub [OF that(2)]] .
    show "rm_mu (km_heap ?k x) = Some j \<longleftrightarrow> km_pc ?k j = Inside y x" if "km_locks ?k y = Some x" for y x j
      using D(7) [OF sub [OF that], of j] i by (auto simp: mu pc)
  qed
qed

lemma km_reachable_inv: "km_reachable k \<Longrightarrow> km_inv k"
proof (induction rule: km_reachable.induct)
  case start
  then show ?case by (rule km_inv_start)
next
  case (step k k')
  from step.hyps(2) step.IH show ?case
    by (cases rule: km_step.cases) (simp_all add: km_inv_register km_inv_acquire km_inv_release km_inv_leave)
qed

text \<open>
  C7: the per-character lock. In every reachable state, whatever the interleaving, at most one
  goroutine is inside per key; every goroutine that uses a key points to the mutex the map
  holds for it (no waiter's entry is ever evicted); the map has an entry exactly for the keys
  in use, so it does not grow with the keys ever seen; and no key is stuck: while a goroutine
  uses a key, some goroutine of that key can take a step.
\<close>

theorem keyed_mutex_correct:
  assumes "km_reachable k"
  shows "(\<forall>i j key m m'. km_pc k i = Inside key m \<and> km_pc k j = Inside key m' \<longrightarrow> i = j) \<and>
    (\<forall>i key m. pc_ref (km_pc k i) = Some (key, m) \<longrightarrow> km_locks k key = Some m) \<and>
    dom (km_locks k) = {key. \<exists>i m. pc_ref (km_pc k i) = Some (key, m)} \<and>
    (\<forall>i key m. pc_ref (km_pc k i) = Some (key, m) \<longrightarrow>
       (\<exists>j k'. pc_ref (km_pc k j) = Some (key, m) \<and> km_step k k' \<and> km_pc k' j \<noteq> km_pc k j))"
proof -
  note D = km_invD [OF km_reachable_inv [OF assms]]
  have excl: "i = j" if "km_pc k i = Inside key m" "km_pc k j = Inside key m'" for i j key m m'
  proof -
    have l: "km_locks k key = Some m" "km_locks k key = Some m'"
      using that D(1) [of i key m] D(1) [of j key m'] by auto
    with that have "rm_mu (km_heap k m) = Some i" "rm_mu (km_heap k m) = Some j" using D(7) by auto
    then show ?thesis by simp
  qed
  have dom: "dom (km_locks k) = {key. \<exists>i m. pc_ref (km_pc k i) = Some (key, m)}"
  proof (intro set_eqI iffI)
    fix key
    assume "key \<in> dom (km_locks k)"
    then obtain m where l: "km_locks k key = Some m" by auto
    from D(4) [OF l] obtain i key' where "pc_ref (km_pc k i) = Some (key', m)" by (auto simp: users_def)
    moreover from D(6) [OF l D(1) [OF this]] have "key = key'" .
    ultimately show "key \<in> {key. \<exists>i m. pc_ref (km_pc k i) = Some (key, m)}" by blast
  qed (use D(1) in blast)
  have prog: "\<exists>j k'. pc_ref (km_pc k j) = Some (key, m) \<and> km_step k k' \<and> km_pc k' j \<noteq> km_pc k j"
    if "pc_ref (km_pc k i) = Some (key, m)" for i key m
  proof (cases "rm_mu (km_heap k m)")
    case None
    show ?thesis
    proof (cases "km_pc k i")
      case (Registered key' m')
      then have "km_step k (lock_acquire i key m k)" using that None by (auto intro: km_step.acquire)
      moreover have "km_pc (lock_acquire i key m k) i \<noteq> km_pc k i" using Registered by (simp add: lock_acquire_def)
      ultimately show ?thesis using that by blast
    next
      case (Leaving key' m')
      then have "km_step k (unlock_leave i key m k)" using that by (auto intro: km_step.leave)
      moreover have "km_pc (unlock_leave i key m k) i \<noteq> km_pc k i" using Leaving by (simp add: unlock_leave_def Let_def)
      ultimately show ?thesis using that by blast
    next
      case (Inside key' m')
      then show ?thesis using that None D(7) [OF D(1) [OF that], of i] by simp
    qed (use that in simp)
  next
    case (Some j)
    then have j: "km_pc k j = Inside key m" using D(7) [OF D(1) [OF that]] by simp
    then have "km_step k (unlock_release j key m k)" by (rule km_step.release)
    moreover have "km_pc (unlock_release j key m k) j \<noteq> km_pc k j" using j by (simp add: unlock_release_def)
    ultimately show ?thesis using j by (metis pc_ref.simps(3))
  qed
  from excl dom prog D(1) show ?thesis by blast
qed

theorem keyed_mutex_correct_witness:
  "let k = lock_acquire 1 7 0 (lock_register 2 7 (lock_register 1 7 newKeyedMutex)) in
   km_reachable k \<and> km_pc k 2 = Registered 7 0 \<and> km_locks k 7 = Some 0 \<and> \<not> (\<exists>j m. j \<noteq> 1 \<and> km_pc k j = Inside 7 m)"
proof -
  let ?k2 = "lock_register 2 7 (lock_register 1 7 newKeyedMutex)"
  let ?k = "lock_acquire 1 7 0 ?k2"
  have "km_reachable (lock_register 1 7 newKeyedMutex)"
    by (rule km_reachable.step [OF km_reachable.start], rule km_step.register) (simp add: newKeyedMutex_def)
  then have "km_reachable ?k2"
    by (rule km_reachable.step, intro km_step.register) (simp add: newKeyedMutex_def lock_register_def)
  then have r: "km_reachable ?k"
    by (rule km_reachable.step, intro km_step.acquire) (simp_all add: newKeyedMutex_def lock_register_def Let_def)
  have p: "km_pc ?k 1 = Inside 7 0" "km_pc ?k 2 = Registered 7 0"
    by (simp_all add: newKeyedMutex_def lock_register_def lock_acquire_def Let_def)
  from keyed_mutex_correct [OF r] have "\<And>i key m. pc_ref (km_pc ?k i) = Some (key, m) \<Longrightarrow> km_locks ?k key = Some m"
    "\<And>i j key m m'. km_pc ?k i = Inside key m \<Longrightarrow> km_pc ?k j = Inside key m' \<Longrightarrow> i = j" by blast+
  with r p show ?thesis unfolding Let_def by (metis pc_ref.simps(3))
qed

end
