(* ===== verification/Quests.thy ===== *)
theory Quests
  imports Game_Inventory Quest_Kit
begin

section \<open>Quests: backend/game/quests\<close>

text \<open>
  The quest tables, the repository and the service: accepting a quest, applying a progress event
  to every active quest of a character, and the rewards of a completed one. The service depends
  on two interfaces its package owns, \<open>CharacterGateway\<close> and \<open>InventoryWriter\<close>; the record
  \<open>Gateway\<close> holds them, the locale \<open>quest_gateway\<close> states what the service relies on, and the
  character and inventory services of this development interpret it.
\<close>

subsection \<open>Data\<close>

abbreviation "ErrQuestNotFound \<equiv> Sentinel ''quests.ErrQuestNotFound''"
abbreviation "ErrQuestAlreadyActive \<equiv> Sentinel ''quests.ErrQuestAlreadyActive''"
abbreviation "ErrLevelRequirement \<equiv> Sentinel ''quests.ErrLevelRequirement''"
abbreviation "QuestStatusActive \<equiv> ''ACTIVE''"
abbreviation "QuestStatusCompleted \<equiv> ''COMPLETED''"
abbreviation "HookAccept \<equiv> ''quest.accept''"
abbreviation "HookProgress \<equiv> ''quest.progress''"

record QuestStep =
  st_Type :: string
  st_Target :: string
  st_Count :: int

record RewardItem =
  ri_ItemDefinitionID :: string
  ri_Quantity :: int

record QuestRewards =
  qr_Experience :: int
  qr_Gold :: int
  qr_Items :: "RewardItem list"

record QuestDefinition =
  qd_ID :: string
  qd_Title :: string
  qd_Description :: string
  qd_MinLevel :: int
  qd_Steps :: "QuestStep list"
  qd_Rewards :: QuestRewards
  qd_Metadata :: "(string \<times> json) list option"
  qd_CreatedAt :: int

record CharacterQuest =
  cq_CharacterID :: int
  cq_QuestID :: string
  cq_Status :: string
  cq_CurrentStepIndex :: int
  cq_Progress :: "int list"
  cq_UpdatedAt :: int
  cq_Definition :: "QuestDefinition option"

record QuestAccept =
  qa_CharacterID :: int
  qa_QuestID :: string

record QuestProgressFilter =
  qf_CharacterID :: int
  qf_ActionType :: string
  qf_Target :: string
  qf_Amount :: int

datatype QuestEvent =
    QuestAccepted int string
  | QuestProgressed int string int
  | QuestCompleted int string

record QuestRow =
  qw_title :: string
  qw_description :: string
  qw_min_level :: int
  qw_steps :: json
  qw_rewards :: json
  qw_metadata :: json
  qw_created_at :: int

record CQRow =
  cr_status :: string
  cr_step :: int
  cr_progress :: json
  cr_updated_at :: int

record quest_tables = game_tables +
  t_quests :: "(string \<times> QuestRow) list"
  t_char_quests :: "((int \<times> string) \<times> CQRow) list"

type_synonym 'x questdb = "'x quest_tables_scheme DB"

subsection \<open>JSON columns\<close>

definition marshal_QuestStep :: "QuestStep \<Rightarrow> json" where
  "marshal_QuestStep s = JObj [(''type'', JStr (st_Type s)), (''target'', JStr (st_Target s)), (''count'', JNum (of_int (st_Count s)))]"

definition unmarshal_QuestStep :: "json \<Rightarrow> QuestStep result" where
  "unmarshal_QuestStep j =
     res_bind (json_get ''type'' json_string j) (\<lambda>ty.
     res_bind (json_get ''target'' json_string j) (\<lambda>tg.
     res_bind (json_get ''count'' (json_int in32) j) (\<lambda>n. Inr \<lparr>st_Type = ty, st_Target = tg, st_Count = n\<rparr>)))"

definition marshal_RewardItem :: "RewardItem \<Rightarrow> json" where
  "marshal_RewardItem r = JObj [(''item_definition_id'', JStr (ri_ItemDefinitionID r)), (''quantity'', JNum (of_int (ri_Quantity r)))]"

definition unmarshal_RewardItem :: "json \<Rightarrow> RewardItem result" where
  "unmarshal_RewardItem j =
     res_bind (json_get ''item_definition_id'' json_string j) (\<lambda>i.
     res_bind (json_get ''quantity'' (json_int in32) j) (\<lambda>n. Inr \<lparr>ri_ItemDefinitionID = i, ri_Quantity = n\<rparr>))"

definition marshal_Rewards :: "QuestRewards \<Rightarrow> json" where
  "marshal_Rewards r = JObj [(''experience'', JNum (of_int (qr_Experience r))), (''gold'', JNum (of_int (qr_Gold r))),
     (''items'', JArr (map marshal_RewardItem (qr_Items r)))]"

definition unmarshal_Rewards :: "json \<Rightarrow> QuestRewards result" where
  "unmarshal_Rewards j =
     res_bind (json_get ''experience'' (json_int in64) j) (\<lambda>x.
     res_bind (json_get ''gold'' (json_int in64) j) (\<lambda>g.
     res_bind (json_get ''items'' (json_array unmarshal_RewardItem) j) (\<lambda>is.
       Inr \<lparr>qr_Experience = x, qr_Gold = g, qr_Items = is\<rparr>)))"

definition marshal_progress :: "int list \<Rightarrow> json" where
  "marshal_progress ps = JArr (map (\<lambda>p. JNum (of_int p)) ps)"

definition unmarshal_progress :: "json \<Rightarrow> int list result" where
  "unmarshal_progress = json_array (json_int in32)"

subsection \<open>Repository\<close>

definition quests_CreateDefinition :: "int \<Rightarrow> QuestDefinition \<Rightarrow> 'x questdb \<Rightarrow> QuestDefinition result \<times> 'x questdb" where
  "quests_CreateDefinition now q =
     tx_bind (tx_return (marshal_Metadata (qd_Metadata q))) (\<lambda>metaJSON.
     db_stmt (\<lambda>t. if map_of (t_quests t) (qd_ID q) \<noteq> None then Inl unique_violation
       else Inr (q\<lparr>qd_CreatedAt := now\<rparr>, t\<lparr>t_quests := t_quests t @ [(qd_ID q,
         \<lparr>qw_title = qd_Title q, qw_description = qd_Description q, qw_min_level = qd_MinLevel q,
          qw_steps = JArr (map marshal_QuestStep (qd_Steps q)), qw_rewards = marshal_Rewards (qd_Rewards q),
          qw_metadata = metaJSON, qw_created_at = now\<rparr>)]\<rparr>)))"

definition scan_quest :: "string \<Rightarrow> QuestRow \<Rightarrow> QuestDefinition result" where
  "scan_quest i r =
     res_bind (json_array unmarshal_QuestStep (qw_steps r)) (\<lambda>steps.
     res_bind (unmarshal_Rewards (qw_rewards r)) (\<lambda>rewards.
     res_bind (unmarshal_Metadata (qw_metadata r)) (\<lambda>meta.
     Inr \<lparr>qd_ID = i, qd_Title = qw_title r, qd_Description = qw_description r, qd_MinLevel = qw_min_level r,
       qd_Steps = steps, qd_Rewards = rewards, qd_Metadata = meta, qd_CreatedAt = qw_created_at r\<rparr>)))"

definition quests_GetDefinition :: "string \<Rightarrow> 'x questdb \<Rightarrow> QuestDefinition result \<times> 'x questdb" where
  "quests_GetDefinition i =
     tx_bind (tx_map_err (\<lambda>e. if e = ErrNoRows then ErrQuestNotFound else e) (db_stmt (\<lambda>t.
        case map_of (t_quests t) i of None \<Rightarrow> Inl ErrNoRows | Some r \<Rightarrow> Inr (r, t)))) (\<lambda>r.
     tx_return (scan_quest i r))"

definition quests_ListDefinitions :: "(string \<Rightarrow> 'k :: linorder) \<Rightarrow> int \<Rightarrow> int \<Rightarrow> 'x questdb \<Rightarrow> QuestDefinition list result \<times> 'x questdb" where
  "quests_ListDefinitions col limit offset =
     tx_bind (db_stmt (\<lambda>t. if limit < 0 \<or> offset < 0 then Inl (Formatted [''SQLSTATE 2201W''])
        else Inr (take (nat limit) (drop (nat offset) (sort_key (\<lambda>x. col (fst x)) (t_quests t))), t))) (\<lambda>rows d.
     case fetch_rows rows d of ((got, _), d') \<Rightarrow> (scan_rows (\<lambda>(i, r). scan_quest i r) got, d'))"

definition quests_AcceptQuest :: "int \<Rightarrow> int \<Rightarrow> string \<Rightarrow> int list \<Rightarrow> 'x questdb \<Rightarrow> unit result \<times> 'x questdb" where
  "quests_AcceptQuest now charID questID initialProgress = db_stmt (\<lambda>t.
     if map_of (t_char_quests t) (charID, questID) \<noteq> None then Inl unique_violation
     else if map_of (t_characters t) charID = None \<or> map_of (t_quests t) questID = None then Inl foreign_key_violation
     else Inr ((), t\<lparr>t_char_quests := t_char_quests t @ [((charID, questID),
       \<lparr>cr_status = QuestStatusActive, cr_step = 0, cr_progress = marshal_progress initialProgress, cr_updated_at = now\<rparr>)]\<rparr>))"

text \<open>A joined row decoded.\<close>

definition scan_char_quest :: "((int \<times> string) \<times> CQRow) \<times> QuestRow \<Rightarrow> CharacterQuest result" where
  "scan_char_quest = (\<lambda>(((c, q), r), w).
     res_bind (unmarshal_progress (cr_progress r)) (\<lambda>ps.
     res_bind (scan_quest q w) (\<lambda>qd.
     Inr \<lparr>cq_CharacterID = c, cq_QuestID = q, cq_Status = cr_status r, cq_CurrentStepIndex = cr_step r,
       cq_Progress = ps, cq_UpdatedAt = cr_updated_at r, cq_Definition = Some qd\<rparr>)))"

definition quest_join :: "'x quest_tables_scheme \<Rightarrow> (int \<times> string \<Rightarrow> bool) \<Rightarrow> (((int \<times> string) \<times> CQRow) \<times> QuestRow) list" where
  "quest_join t P = List.map_filter (\<lambda>x. if P (fst x) then map_option (Pair x) (map_of (t_quests t) (snd (fst x))) else None)
     (t_char_quests t)"

definition quests_GetCharacterQuest :: "int \<Rightarrow> string \<Rightarrow> 'x questdb \<Rightarrow> CharacterQuest result \<times> 'x questdb" where
  "quests_GetCharacterQuest charID questID =
     tx_bind (tx_map_err (\<lambda>e. if e = ErrNoRows then ErrQuestNotFound else e) (db_stmt (\<lambda>t.
       case quest_join t (\<lambda>k. k = (charID, questID)) of [] \<Rightarrow> Inl ErrNoRows | r # _ \<Rightarrow> Inr (r, t)))) (\<lambda>r.
     tx_return (scan_char_quest r))"

text \<open>Newest first; \<open>rows.Err()\<close> is not consulted.\<close>

definition quests_ListCharacterQuests :: "int \<Rightarrow> 'x questdb \<Rightarrow> CharacterQuest list result \<times> 'x questdb" where
  "quests_ListCharacterQuests charID =
     tx_bind (db_stmt (\<lambda>t. Inr (sort_key (\<lambda>x. - cr_updated_at (snd (fst x))) (quest_join t (\<lambda>k. fst k = charID)), t)))
       (\<lambda>rows d. case fetch_rows rows d of ((got, _), d') \<Rightarrow> (scan_rows scan_char_quest got, d'))"

text \<open>\<open>UPDATE character_quests SET ... WHERE ... AND status = 'ACTIVE'\<close>.\<close>

definition update_active :: "int \<Rightarrow> string \<Rightarrow> (CQRow \<Rightarrow> CQRow) \<Rightarrow> 'x questdb \<Rightarrow> unit result \<times> 'x questdb" where
  "update_active charID questID f =
     tx_bind (db_stmt (\<lambda>t. case map_of (t_char_quests t) (charID, questID) of
        Some r \<Rightarrow> if cr_status r = QuestStatusActive
          then Inr (1 :: nat, t\<lparr>t_char_quests := AList.map_entry (charID, questID) f (t_char_quests t)\<rparr>) else Inr (0, t)
      | None \<Rightarrow> Inr (0, t))) (\<lambda>n.
     tx_return (if n = 0 then Inl ErrQuestNotFound else Inr ()))"

definition quests_UpdateProgress :: "int \<Rightarrow> int \<Rightarrow> string \<Rightarrow> int \<Rightarrow> int list \<Rightarrow> 'x questdb \<Rightarrow> unit result \<times> 'x questdb" where
  "quests_UpdateProgress now charID questID currentStep progress =
     update_active charID questID (\<lambda>r. r\<lparr>cr_step := currentStep, cr_progress := marshal_progress progress, cr_updated_at := now\<rparr>)"

definition quests_CompleteQuest :: "int \<Rightarrow> int \<Rightarrow> string \<Rightarrow> 'x questdb \<Rightarrow> unit result \<times> 'x questdb" where
  "quests_CompleteQuest now charID questID =
     update_active charID questID (\<lambda>r. r\<lparr>cr_status := QuestStatusCompleted, cr_updated_at := now\<rparr>)"

subsection \<open>Service\<close>

text \<open>The interfaces the service depends on, and the service.\<close>

record 'd Gateway =
  gw_GetByID :: "int \<Rightarrow> 'd \<Rightarrow> CharacterWithStats result \<times> 'd"
  gw_AddRewards :: "int \<Rightarrow> int \<Rightarrow> int \<Rightarrow> 'd \<Rightarrow> (bool \<times> int) result \<times> 'd"
  gw_AddItem :: "InventoryItem \<Rightarrow> 'd \<Rightarrow> InventoryItem result \<times> 'd"

record 'd QuestSvc =
  qv_gateway :: "'d Gateway"
  qv_eventBus :: bool
  qv_accept :: "(unit, (QuestAccept, unit) action_any) Hooks option"
  qv_progress :: "(QuestProgressFilter filter_any, unit) Hooks option"

definition quest_publish :: "'d QuestSvc \<Rightarrow> QuestEvent \<Rightarrow> QuestEvent list \<Rightarrow> QuestEvent list" where
  "quest_publish svc ev tr = (if qv_eventBus svc then tr @ [ev] else tr)"

text \<open>The sequence of \<open>AcceptQuest\<close> up to the insertion.\<close>

definition accept_sequence :: "'x questdb QuestSvc \<Rightarrow> int \<Rightarrow> int \<Rightarrow> string \<Rightarrow> 'x questdb \<Rightarrow> unit result \<times> 'x questdb" where
  "accept_sequence svc now charID questID =
     tx_bind (quests_GetDefinition questID) (\<lambda>qd.
     tx_bind (gw_GetByID (qv_gateway svc) charID) (\<lambda>char.
     if ch_Level (cw_Char char) < qd_MinLevel qd then tx_return (Inl ErrLevelRequirement)
     else case DoAction (qv_accept svc) HookAccept \<lparr>qa_CharacterID = charID, qa_QuestID = questID\<rparr> () of
       (Some e, _) \<Rightarrow> tx_return (Inl e)
     | (None, _) \<Rightarrow>
        tx_bind (quests_ListCharacterQuests charID) (\<lambda>activeQuests.
        if list_ex (\<lambda>aq. cq_QuestID aq = questID) activeQuests then tx_return (Inl ErrQuestAlreadyActive)
        else quests_AcceptQuest now charID questID (replicate (length (qd_Steps qd)) 0))))"

definition AcceptQuest :: "'x questdb QuestSvc \<Rightarrow> int \<Rightarrow> int \<Rightarrow> string \<Rightarrow> 'x questdb \<Rightarrow> QuestEvent list \<Rightarrow>
    unit result \<times> 'x questdb \<times> QuestEvent list" where
  "AcceptQuest svc now charID questID d tr = (case accept_sequence svc now charID questID d of
     (Inl e, d') \<Rightarrow> (Inl e, d', tr)
   | (Inr _, d') \<Rightarrow> (Inr (), d', quest_publish svc (QuestAccepted charID questID) tr))"

definition toSteps :: "QuestStep list \<Rightarrow> Step list" where
  "toSteps steps = map (\<lambda>s. \<lparr>qs_Type = st_Type s, qs_Target = st_Target s, qs_Count = st_Count s\<rparr>) steps"

definition reward_item :: "int \<Rightarrow> RewardItem \<Rightarrow> InventoryItem" where
  "reward_item charID ri = \<lparr>ii_ID = 0, ii_CharacterID = charID, ii_SlotIndex = 0,
     ii_ItemDefinitionID = ri_ItemDefinitionID ri, ii_Quantity = ri_Quantity ri, ii_Durability = 100,
     ii_CustomModifiers = [], ii_CreatedAt = 0, ii_UpdatedAt = 0, ii_ItemDetails = None\<rparr>"

text \<open>The rewards: experience and gold, then each item; the outcomes are ignored.\<close>

definition grant_rewards :: "'d Gateway \<Rightarrow> int \<Rightarrow> QuestRewards \<Rightarrow> 'd \<Rightarrow> 'd" where
  "grant_rewards gw charID rewards d =
     fold (\<lambda>ri d. snd (gw_AddItem gw (reward_item charID ri) d)) (qr_Items rewards)
       (snd (gw_AddRewards gw charID (qr_Gold rewards) (qr_Experience rewards) d))"

text \<open>The body of the loop for one quest of the log.\<close>

definition progress_one :: "'x questdb QuestSvc \<Rightarrow> int \<Rightarrow> int \<Rightarrow> string \<Rightarrow> string \<Rightarrow> int \<Rightarrow> CharacterQuest \<Rightarrow>
    'x questdb \<Rightarrow> QuestEvent list \<Rightarrow> error option \<times> 'x questdb \<times> QuestEvent list" where
  "progress_one svc now charID actionType target amount cq d tr =
     (if cq_Status cq \<noteq> QuestStatusActive then (None, d, tr)
      else case cq_Definition cq of None \<Rightarrow> (None, d, tr) | Some qd \<Rightarrow>
        let a = quest_Advance (toSteps (qd_Steps qd)) (cq_CurrentStepIndex cq) (cq_Progress cq) actionType target amount in
        if \<not> adv_matched a then (None, d, tr)
        else if adv_questCompleted a
        then (case quests_CompleteQuest now charID (cq_QuestID cq) d of
            (Inl e, d1) \<Rightarrow> (Some e, d1, tr)
          | (Inr _, d1) \<Rightarrow> (None, grant_rewards (qv_gateway svc) charID (qd_Rewards qd) d1,
              quest_publish svc (QuestCompleted charID (cq_QuestID cq)) tr))
        else (case quests_UpdateProgress now charID (cq_QuestID cq) (adv_step a) (adv_progress a) d of
            (Inl e, d1) \<Rightarrow> (Some e, d1, tr)
          | (Inr _, d1) \<Rightarrow> (None, d1, quest_publish svc (QuestProgressed charID (cq_QuestID cq) (adv_step a)) tr)))"

fun progress_loop :: "'x questdb QuestSvc \<Rightarrow> int \<Rightarrow> int \<Rightarrow> string \<Rightarrow> string \<Rightarrow> int \<Rightarrow> CharacterQuest list \<Rightarrow>
    'x questdb \<Rightarrow> QuestEvent list \<Rightarrow> error option \<times> 'x questdb \<times> QuestEvent list" where
  "progress_loop svc now charID actionType target amount [] d tr = (None, d, tr)"
| "progress_loop svc now charID actionType target amount (cq # cqs) d tr =
     (case progress_one svc now charID actionType target amount cq d tr of
        (Some e, d1, tr1) \<Rightarrow> (Some e, d1, tr1)
      | (None, d1, tr1) \<Rightarrow> progress_loop svc now charID actionType target amount cqs d1 tr1)"

definition UpdateQuestProgress :: "'x questdb QuestSvc \<Rightarrow> int \<Rightarrow> int \<Rightarrow> string \<Rightarrow> string \<Rightarrow> int \<Rightarrow>
    'x questdb \<Rightarrow> QuestEvent list \<Rightarrow> error option \<times> 'x questdb \<times> QuestEvent list" where
  "UpdateQuestProgress svc now charID actionType target amount0 d tr =
     (let amount = qf_Amount (ApplyFilters (qv_progress svc) HookProgress
         \<lparr>qf_CharacterID = charID, qf_ActionType = actionType, qf_Target = target, qf_Amount = amount0\<rparr>) in
      case quests_ListCharacterQuests charID d of
        (Inl e, d1) \<Rightarrow> (Some e, d1, tr)
      | (Inr questsLog, d1) \<Rightarrow> progress_loop svc now charID actionType target amount questsLog d1 tr)"

subsection \<open>What the service relies on\<close>

text \<open>The part of the tables that belongs to quests; the collaborators leave it alone.\<close>

definition quest_part :: "'x quest_tables_scheme \<Rightarrow> (string \<times> QuestRow) list \<times> ((int \<times> string) \<times> CQRow) list \<times> 'x" where
  "quest_part t = (t_quests t, t_char_quests t, quest_tables.more t)"

locale quest_gateway =
  fixes gw :: "'x questdb Gateway"
  assumes gw_GetByID: "frames quest_part (gw_GetByID gw c)"
    and gw_AddRewards: "frames quest_part (gw_AddRewards gw c g x)"
    and gw_AddItem: "frames quest_part (gw_AddItem gw item)"
begin

lemma grant_items_frame:
  "quest_part (db_tables (fold (\<lambda>ri d. snd (gw_AddItem gw (f ri) d)) ris d)) = quest_part (db_tables d)"
proof (induction ris arbitrary: d)
  case (Cons ri ris)
  then show ?case using framesD [OF gw_AddItem, of "f ri" d] by (metis fold_simps(2) prod.collapse)
qed simp

lemma grant_rewards_frame: "quest_part (db_tables (grant_rewards gw c rewards d)) = quest_part (db_tables d)"
  unfolding grant_rewards_def grant_items_frame using framesD [OF gw_AddRewards] by (metis prod.collapse)

end

text \<open>The rows of the quest log.\<close>

definition quest_row :: "'x questdb \<Rightarrow> int \<times> string \<rightharpoonup> CQRow" where
  "quest_row d = map_of (t_char_quests (db_tables d))"

lemma quest_row_cong: "quest_part (db_tables d) = quest_part (db_tables d') \<Longrightarrow> quest_row d = quest_row d'"
  by (simp add: quest_part_def quest_row_def)

lemma update_active_Inr:
  assumes "update_active charID questID f d = (Inr u, d')"
  obtains r where "quest_row d (charID, questID) = Some r" "cr_status r = QuestStatusActive"
    "quest_row d' = (quest_row d)((charID, questID) \<mapsto> f r)" "t_quests (db_tables d') = t_quests (db_tables d)"
proof -
  from assms obtain r where r: "map_of (t_char_quests (db_tables d)) (charID, questID) = Some r" "cr_status r = QuestStatusActive"
    and t: "(db_tables d)\<lparr>t_char_quests := AList.map_entry (charID, questID) f (t_char_quests (db_tables d))\<rparr> = db_tables d'"
    by (auto simp: update_active_def elim!: tx_bind_Inr dest!: db_stmt_Inr split: option.splits if_splits)
  from r show thesis by (intro that [of r]) (simp_all add: quest_row_def t [symmetric] map_of_map_entry)
qed

lemma update_active_Inl:
  assumes "update_active charID questID f d = (Inl e, d')"
  shows "db_tables d' = db_tables d"
  using assms
  by (auto simp: update_active_def tx_bind_def tx_return_def split: prod.splits sum.splits if_splits
      dest: db_stmt_Inl dest!: db_stmt_Inr split: option.splits)

subsection \<open>Completion and its reward happen once\<close>

definition is_completed :: "'x questdb \<Rightarrow> int \<times> string \<Rightarrow> bool" where
  "is_completed d k \<longleftrightarrow> (\<exists>r. quest_row d k = Some r \<and> cr_status r = QuestStatusCompleted)"

text \<open>The events \<open>evs\<close> account for the change of the log from \<open>d\<close> to \<open>d'\<close>.\<close>

definition accounts :: "QuestEvent list \<Rightarrow> 'x questdb \<Rightarrow> 'x questdb \<Rightarrow> bool" where
  "accounts evs d d' \<longleftrightarrow> (\<forall>c q.
     count_list evs (QuestCompleted c q) + of_bool (is_completed d (c, q)) = (of_bool (is_completed d' (c, q)) :: nat) \<and>
     count_list evs (QuestAccepted c q) + of_bool (quest_row d (c, q) \<noteq> None) = (of_bool (quest_row d' (c, q) \<noteq> None) :: nat))"

lemma accounts_same: "quest_row d' = quest_row d \<Longrightarrow> accounts [] d d'"
  by (simp add: accounts_def is_completed_def)

lemma accounts_append:
  assumes "accounts evs1 d d1" "accounts evs2 d1 d2"
  shows "accounts (evs1 @ evs2) d d2"
  unfolding accounts_def
proof (intro allI conjI)
  fix c q
  from assms have
    "count_list evs1 (QuestCompleted c q) + of_bool (is_completed d (c, q)) = (of_bool (is_completed d1 (c, q)) :: nat)"
    "count_list evs2 (QuestCompleted c q) + of_bool (is_completed d1 (c, q)) = (of_bool (is_completed d2 (c, q)) :: nat)"
    "count_list evs1 (QuestAccepted c q) + of_bool (quest_row d (c, q) \<noteq> None) = (of_bool (quest_row d1 (c, q) \<noteq> None) :: nat)"
    "count_list evs2 (QuestAccepted c q) + of_bool (quest_row d1 (c, q) \<noteq> None) = (of_bool (quest_row d2 (c, q) \<noteq> None) :: nat)"
    unfolding accounts_def by blast+
  then show "count_list (evs1 @ evs2) (QuestCompleted c q) + of_bool (is_completed d (c, q)) = (of_bool (is_completed d2 (c, q)) :: nat)"
    "count_list (evs1 @ evs2) (QuestAccepted c q) + of_bool (quest_row d (c, q) \<noteq> None) = (of_bool (quest_row d2 (c, q) \<noteq> None) :: nat)"
    by simp_all
qed

lemma reads_GetDefinition: "reads (quests_GetDefinition q)"
  unfolding quests_GetDefinition_def by (intro reads_bind reads_map_err reads_stmt reads_return) (auto split: option.splits)

lemma reads_ListCharacterQuests: "reads (quests_ListCharacterQuests c)"
  unfolding quests_ListCharacterQuests_def by (intro reads_bind reads_stmt reads_fetch) auto

lemma AcceptQuest_insert:
  assumes "quests_AcceptQuest now c q ps d = (r, d')"
  shows "case r of Inl _ \<Rightarrow> db_tables d' = db_tables d
    | Inr _ \<Rightarrow> quest_row d (c, q) = None \<and> t_quests (db_tables d') = t_quests (db_tables d) \<and>
        quest_row d' = (quest_row d)((c, q) \<mapsto> \<lparr>cr_status = QuestStatusActive, cr_step = 0,
          cr_progress = marshal_progress ps, cr_updated_at = now\<rparr>) \<and>
        (al_ok (t_char_quests (db_tables d)) \<longrightarrow> al_ok (t_char_quests (db_tables d')))"
proof (cases r)
  case (Inl e)
  with assms show ?thesis by (auto simp: quests_AcceptQuest_def dest: db_stmt_Inl)
next
  case (Inr u)
  from db_stmt_Inr [OF assms [unfolded quests_AcceptQuest_def Inr], unfolded if_if_Inr]
  have n: "map_of (t_char_quests (db_tables d)) (c, q) = None"
    and t: "db_tables d' = (db_tables d)\<lparr>t_char_quests := t_char_quests (db_tables d) @ [((c, q),
       \<lparr>cr_status = QuestStatusActive, cr_step = 0, cr_progress = marshal_progress ps, cr_updated_at = now\<rparr>)]\<rparr>" by auto
  from n have k: "(c, q) \<notin> set (keys (t_char_quests (db_tables d)))" unfolding set_keys_iff by blast
  then have "al_ok (t_char_quests (db_tables d)) \<longrightarrow> al_ok (t_char_quests (db_tables d'))" by (simp add: al_ok_def t)
  with map_of_snoc [OF k] n show ?thesis by (simp add: Inr quest_row_def t del: map_of_append)
qed

text \<open>The three outcomes of the loop body: nothing written, a completion, or progress.\<close>

definition advance_cq :: "QuestDefinition \<Rightarrow> CharacterQuest \<Rightarrow> string \<Rightarrow> string \<Rightarrow> int \<Rightarrow> Advanced" where
  "advance_cq qd cq ty tg amt = quest_Advance (toSteps (qd_Steps qd)) (cq_CurrentStepIndex cq) (cq_Progress cq) ty tg amt"

lemma progress_oneE [consumes 1, case_names none complete update]:
  assumes p: "progress_one svc now c ty tg amt cq d tr = (r, d', tr')"
  obtains "tr' = tr" "db_tables d' = db_tables d"
  | qd d1 u where "cq_Status cq = QuestStatusActive" "cq_Definition cq = Some qd" "adv_matched (advance_cq qd cq ty tg amt)"
      "adv_questCompleted (advance_cq qd cq ty tg amt)" "quests_CompleteQuest now c (cq_QuestID cq) d = (Inr u, d1)"
      "d' = grant_rewards (qv_gateway svc) c (qd_Rewards qd) d1"
      "tr' = quest_publish svc (QuestCompleted c (cq_QuestID cq)) tr"
  | qd u where "cq_Status cq = QuestStatusActive" "cq_Definition cq = Some qd" "adv_matched (advance_cq qd cq ty tg amt)"
      "\<not> adv_questCompleted (advance_cq qd cq ty tg amt)"
      "quests_UpdateProgress now c (cq_QuestID cq) (adv_step (advance_cq qd cq ty tg amt)) (adv_progress (advance_cq qd cq ty tg amt)) d = (Inr u, d')"
      "tr' = quest_publish svc (QuestProgressed c (cq_QuestID cq) (adv_step (advance_cq qd cq ty tg amt))) tr"
proof (cases "cq_Status cq = QuestStatusActive \<and> (\<exists>qd. cq_Definition cq = Some qd \<and> adv_matched (advance_cq qd cq ty tg amt))")
  case False
  then have "tr' = tr" "db_tables d' = db_tables d"
    using p by (auto simp: progress_one_def advance_cq_def Let_def split: if_splits option.splits)
  then show thesis by (rule that(1))
next
  case True
  then obtain qd where q: "cq_Status cq = QuestStatusActive" "cq_Definition cq = Some qd" "adv_matched (advance_cq qd cq ty tg amt)"
    by blast
  show thesis
  proof (cases "adv_questCompleted (advance_cq qd cq ty tg amt)")
    case c: True
    obtain z d1 where z: "quests_CompleteQuest now c (cq_QuestID cq) d = (z, d1)" by fastforce
    show thesis
    proof (cases z)
      case (Inl e)
      then have "tr' = tr" "d' = d1" using p q c z by (auto simp: progress_one_def advance_cq_def)
      then show thesis using z Inl update_active_Inl that(1) unfolding quests_CompleteQuest_def by metis
    next
      case (Inr u)
      then show thesis using p q c z that(2) by (auto simp: progress_one_def advance_cq_def)
    qed
  next
    case c: False
    obtain z d1 where z: "quests_UpdateProgress now c (cq_QuestID cq) (adv_step (advance_cq qd cq ty tg amt))
        (adv_progress (advance_cq qd cq ty tg amt)) d = (z, d1)" by fastforce
    show thesis
    proof (cases z)
      case (Inl e)
      then have "tr' = tr" "d' = d1" using p q c z by (auto simp: progress_one_def advance_cq_def)
      then show thesis using z Inl update_active_Inl that(1) unfolding quests_UpdateProgress_def by metis
    next
      case (Inr u)
      then show thesis using p q c z that(3) by (auto simp: progress_one_def advance_cq_def)
    qed
  qed
qed

lemma accounts_accepted:
  assumes "quest_row d k = None" "quest_row d' = (quest_row d)(k \<mapsto> r)" "cr_status r = QuestStatusActive"
  shows "accounts [QuestAccepted (fst k) (snd k)] d d'"
  using assms by (cases k) (auto simp: accounts_def is_completed_def)

lemma accounts_progressed:
  assumes "quest_row d k = Some r" "quest_row d' = (quest_row d)(k \<mapsto> r')" "cr_status r' = cr_status r"
  shows "accounts [QuestProgressed c q s] d d'"
  using assms by (cases k) (auto simp: accounts_def is_completed_def)

lemma accounts_completed:
  assumes "quest_row d k = Some r" "quest_row d' = (quest_row d)(k \<mapsto> r')"
    and "cr_status r = QuestStatusActive" "cr_status r' = QuestStatusCompleted"
  shows "accounts [QuestCompleted (fst k) (snd k)] d d'"
  using assms by (cases k) (auto simp: accounts_def is_completed_def)

context quest_gateway
begin

lemma accept_sequence_cases:
  assumes g: "qv_gateway svc = gw" and a: "accept_sequence svc now c q d = (r, d')"
  shows "case r of Inl _ \<Rightarrow> quest_part (db_tables d') = quest_part (db_tables d)
    | Inr _ \<Rightarrow> quest_row d (c, q) = None \<and> t_quests (db_tables d') = t_quests (db_tables d) \<and>
        (al_ok (t_char_quests (db_tables d)) \<longrightarrow> al_ok (t_char_quests (db_tables d'))) \<and>
        (\<exists>w qd. map_of (t_quests (db_tables d)) q = Some w \<and> scan_quest q w = Inr qd \<and>
           quest_row d' = (quest_row d)((c, q) \<mapsto> \<lparr>cr_status = QuestStatusActive, cr_step = 0,
             cr_progress = marshal_progress (replicate (length (qd_Steps qd)) 0), cr_updated_at = now\<rparr>))"
proof -
  let ?rest = "\<lambda>qd char. if ch_Level (cw_Char char) < qd_MinLevel qd then tx_return (Inl ErrLevelRequirement)
     else case DoAction (qv_accept svc) HookAccept \<lparr>qa_CharacterID = c, qa_QuestID = q\<rparr> () of
       (Some e, _) \<Rightarrow> tx_return (Inl e)
     | (None, _) \<Rightarrow>
        tx_bind (quests_ListCharacterQuests c) (\<lambda>activeQuests.
        if list_ex (\<lambda>aq. cq_QuestID aq = q) activeQuests then tx_return (Inl ErrQuestAlreadyActive)
        else quests_AcceptQuest now c q (replicate (length (qd_Steps qd)) 0))"
  have rest: "case r of Inl _ \<Rightarrow> db_tables d' = db_tables d1
      | Inr _ \<Rightarrow> \<exists>d2. db_tables d2 = db_tables d1 \<and> quests_AcceptQuest now c q (replicate (length (qd_Steps qd)) 0) d2 = (Inr (), d')"
    if "?rest qd char d1 = (r, d')" for qd char d1
  proof (cases "ch_Level (cw_Char char) < qd_MinLevel qd \<or> fst (DoAction (qv_accept svc) HookAccept \<lparr>qa_CharacterID = c, qa_QuestID = q\<rparr> ()) \<noteq> None")
    case True
    with that show ?thesis by (auto simp: tx_return_def split: if_splits prod.splits)
  next
    case False
    with that have b: "tx_bind (quests_ListCharacterQuests c) (\<lambda>activeQuests.
        if list_ex (\<lambda>aq. cq_QuestID aq = q) activeQuests then tx_return (Inl ErrQuestAlreadyActive)
        else quests_AcceptQuest now c q (replicate (length (qd_Steps qd)) 0)) d1 = (r, d')"
      by (auto split: prod.splits)
    from b reads_ListCharacterQuests show ?thesis
    proof (cases rule: tx_bind_readE)
      case (2 act d2)
      show ?thesis
      proof (cases "list_ex (\<lambda>aq. cq_QuestID aq = q) act")
        case True
        with 2 show ?thesis by (auto simp: tx_return_def)
      next
        case False
        with 2 have i: "quests_AcceptQuest now c q (replicate (length (qd_Steps qd)) 0) d2 = (r, d')" by simp
        from AcceptQuest_insert [OF i] i 2(2) show ?thesis by (cases r) auto
      qed
    qed simp
  qed
  from a have seq: "tx_bind (quests_GetDefinition q) (\<lambda>qd. tx_bind (gw_GetByID gw c) (?rest qd)) d = (r, d')"
    by (simp add: accept_sequence_def g)
  from seq reads_GetDefinition show ?thesis
  proof (cases rule: tx_bind_readE)
    case (2 qd d1)
    from 2(1) obtain w where w: "map_of (t_quests (db_tables d)) q = Some w" "scan_quest q w = Inr qd"
      by (auto simp: quests_GetDefinition_def elim!: tx_bind_Inr dest!: db_stmt_Inr split: option.splits)
    obtain z d2 where z: "gw_GetByID gw c d1 = (z, d2)" by fastforce
    have q2: "quest_part (db_tables d2) = quest_part (db_tables d)" using framesD [OF gw_GetByID z] 2(2) by simp
    show ?thesis
    proof (cases z)
      case (Inl e)
      then show ?thesis using 2(3) z q2 by (auto simp: tx_bind_def)
    next
      case (Inr char)
      then have "?rest qd char d2 = (r, d')" using 2(3) z by (simp add: tx_bind_def)
      note rr = rest [OF this]
      show ?thesis
      proof (cases r)
        case (Inl e)
        with rr q2 show ?thesis by simp
      next
        case (Inr u)
        with rr obtain d3 where d3: "db_tables d3 = db_tables d2"
          "quests_AcceptQuest now c q (replicate (length (qd_Steps qd)) 0) d3 = (Inr (), d')" by auto
        have "quest_row d3 = quest_row d" "t_quests (db_tables d3) = t_quests (db_tables d)"
          "t_char_quests (db_tables d3) = t_char_quests (db_tables d)"
          using q2 d3(1) by (auto simp: quest_row_def quest_part_def)
        with AcceptQuest_insert [OF d3(2)] w show ?thesis unfolding Inr by auto
      qed
    qed
  qed simp
qed

lemma AcceptQuest_accounts:
  assumes g: "qv_gateway svc = gw" "qv_eventBus svc" and a: "AcceptQuest svc now c q d tr = (r, d', tr')"
  shows "\<exists>evs. tr' = tr @ evs \<and> accounts evs d d'"
proof -
  obtain z d1 where z: "accept_sequence svc now c q d = (z, d1)" by fastforce
  note cases = accept_sequence_cases [OF g(1) z]
  show ?thesis
  proof (cases z)
    case (Inl e)
    with cases a z have "tr' = tr" "quest_row d' = quest_row d"
      by (auto simp: AcceptQuest_def intro: quest_row_cong)
    then show ?thesis using accounts_same by fastforce
  next
    case (Inr u)
    with a z g(2) have t: "d' = d1" "tr' = tr @ [QuestAccepted c q]" by (auto simp: AcceptQuest_def quest_publish_def)
    from cases Inr obtain row where "quest_row d (c, q) = None" "quest_row d1 = (quest_row d)((c, q) \<mapsto> row)"
      "cr_status row = QuestStatusActive" by auto
    from accounts_accepted [OF this] t show ?thesis by auto
  qed
qed

lemma progress_one_accounts:
  assumes g: "qv_gateway svc = gw" "qv_eventBus svc" and p: "progress_one svc now c ty tg amt cq d tr = (r, d', tr')"
  shows "\<exists>evs. tr' = tr @ evs \<and> accounts evs d d'"
  using p
proof (cases rule: progress_oneE)
  case none
  then show ?thesis using accounts_same [of d' d] by (simp add: quest_row_def)
next
  case (complete qd d1 u)
  from complete(5) obtain row where r: "quest_row d (c, cq_QuestID cq) = Some row" "cr_status row = QuestStatusActive"
    "quest_row d1 = (quest_row d)((c, cq_QuestID cq) \<mapsto> row\<lparr>cr_status := QuestStatusCompleted, cr_updated_at := now\<rparr>)"
    unfolding quests_CompleteQuest_def by (rule update_active_Inr)
  have "quest_row d' = quest_row d1" unfolding complete(6) g(1) by (rule quest_row_cong [OF grant_rewards_frame])
  with r accounts_completed [of d "(c, cq_QuestID cq)" row d'] complete(7) g(2) show ?thesis
    by (auto simp: quest_publish_def)
next
  case (update qd u)
  from update(5) obtain row where r: "quest_row d (c, cq_QuestID cq) = Some row"
    "quest_row d' = (quest_row d)((c, cq_QuestID cq) \<mapsto> row\<lparr>cr_step := adv_step (advance_cq qd cq ty tg amt),
       cr_progress := marshal_progress (adv_progress (advance_cq qd cq ty tg amt)), cr_updated_at := now\<rparr>)"
    unfolding quests_UpdateProgress_def by (rule update_active_Inr)
  from accounts_progressed [OF r] update(6) g(2) show ?thesis by (auto simp: quest_publish_def)
qed

lemma progress_loop_accounts:
  assumes g: "qv_gateway svc = gw" "qv_eventBus svc"
  shows "progress_loop svc now c ty tg amt cqs d tr = (r, d', tr') \<Longrightarrow> \<exists>evs. tr' = tr @ evs \<and> accounts evs d d'"
proof (induction cqs arbitrary: d tr)
  case Nil
  then show ?case using accounts_same by fastforce
next
  case (Cons cq cqs)
  obtain z d1 tr1 where z: "progress_one svc now c ty tg amt cq d tr = (z, d1, tr1)" by (metis prod_cases3)
  from progress_one_accounts [OF g z] obtain evs where e: "tr1 = tr @ evs" "accounts evs d d1" by blast
  show ?case
  proof (cases z)
    case (Some x)
    with Cons.prems z e show ?thesis by auto
  next
    case None
    with Cons.prems z have "progress_loop svc now c ty tg amt cqs d1 tr1 = (r, d', tr')" by simp
    from Cons.IH [OF this] obtain evs' where "tr' = tr1 @ evs'" "accounts evs' d1 d'" by blast
    with e accounts_append show ?thesis by fastforce
  qed
qed

lemma UpdateQuestProgress_accounts:
  assumes g: "qv_gateway svc = gw" "qv_eventBus svc" and u: "UpdateQuestProgress svc now c ty tg amt d tr = (r, d', tr')"
  shows "\<exists>evs. tr' = tr @ evs \<and> accounts evs d d'"
proof -
  obtain z d1 where z: "quests_ListCharacterQuests c d = (z, d1)" by fastforce
  have "quest_row d1 = quest_row d" using readsD [OF reads_ListCharacterQuests z] by (simp add: quest_row_def)
  then have a: "accounts evs d1 x = accounts evs d x" for evs x by (simp add: accounts_def is_completed_def)
  show ?thesis
  proof (cases z)
    case (Inl e)
    then have "d' = d1" "tr' = tr" using u z by (auto simp: UpdateQuestProgress_def Let_def)
    then show ?thesis using accounts_same [of d1 d1] a by auto
  next
    case (Inr log)
    then obtain amt' where "progress_loop svc now c ty tg amt' log d1 tr = (r, d', tr')"
      using u z by (auto simp: UpdateQuestProgress_def Let_def)
    from progress_loop_accounts [OF g this] a show ?thesis by simp
  qed
qed

end

subsection \<open>The character and inventory services as gateway\<close>

definition game_gateway :: "pow \<Rightarrow> 'x quest_tables_ext game_tables_ext CharSvc \<Rightarrow> int \<Rightarrow> 'x questdb Gateway" where
  "game_gateway pow svc now = \<lparr>
     gw_GetByID = character_GetByID,
     gw_AddRewards = (\<lambda>c g x d. case svc_AddRewards pow (svc\<lparr>sv_equip := Some GetEquippedModifiers\<rparr>) now c g x d [] of (r, d', _) \<Rightarrow> (r, d')),
     gw_AddItem = (\<lambda>item d. case svc_AddItem True now item d [] of (r, d', _) \<Rightarrow> (r, d'))\<rparr>"

lemma quest_part_upd [simp]:
  "quest_part (t\<lparr>t_characters := a\<rparr>) = quest_part t" "quest_part (t\<lparr>t_character_stats := b\<rparr>) = quest_part t"
  "quest_part (t\<lparr>t_outbox := o1, t_outbox_seq := n\<rparr>) = quest_part t" "quest_part (t\<lparr>t_event_log := l\<rparr>) = quest_part t"
  "quest_part (t\<lparr>t_inventories_seq := m, t_inventories := i\<rparr>) = quest_part t"
  by (simp_all add: quest_part_def)

lemma frames_outbox_Append: "frames quest_part (outbox_Append name enc ev :: 'x questdb \<Rightarrow> _)"
proof (rule framesI)
  fix d d' :: "'x questdb" and r
  assume "outbox_Append name enc ev d = (r, d')"
  then show "quest_part (db_tables d') = quest_part (db_tables d)"
    by (auto simp: outbox_Append_def quest_part_def split: sum.splits prod.splits dest!: db_stmt_Inl db_stmt_upd)
qed

lemma frames_eventlog_Append: "frames quest_part (eventlog_Append name enc now s ev :: 'x questdb \<Rightarrow> _)"
proof (rule framesI)
  fix d d' :: "'x questdb" and r
  assume "eventlog_Append name enc now s ev d = (r, d')"
  then show "quest_part (db_tables d') = quest_part (db_tables d)"
    by (auto simp: eventlog_Append_def quest_part_def split: sum.splits prod.splits dest!: db_stmt_Inl db_stmt_upd)
qed

lemma frames_append_both: "frames quest_part (append_both now s ev)"
  unfolding append_both_def by (intro frames_bind frames_outbox_Append frames_eventlog_Append)

lemma frames_update_character: "frames quest_part (update_character c f)"
  unfolding update_character_def by (rule frames_stmt) auto

lemma frames_level_up_stats: "frames quest_part (level_up_stats now c n)"
  unfolding level_up_stats_def by (intro frames_intros) (auto split: option.splits)

lemma frames_repo_AddRewards: "frames quest_part (repo_AddRewards pow now c g x)"
proof -
  have "frames quest_part (select_character c)" unfolding select_character_def
    by (rule frames_stmt) (auto split: option.splits)
  then have "frames quest_part (\<lambda>d. repo_AddRewards pow now c g x d)"
    unfolding repo_AddRewards_def reward_writes_def Let_def
    by (intro frames_WithinTx frames_bind frames_map_err)
      (auto intro!: frames_bind frames_return frames_update_character frames_level_up_stats frames_append_both split: prod.splits)
  then show ?thesis by simp
qed

lemma frames_UpdateStats: "frames quest_part (character_UpdateStats now c s)"
  unfolding character_UpdateStats_def by (intro frames_intros) auto

lemma reads_GetEquippedModifiers: "reads (GetEquippedModifiers c)"
  unfolding GetEquippedModifiers_def by (intro reads_bind reads_ListByCharacter reads_return)

lemma svc_RecalculateStats_frame:
  assumes "sv_equip svc = Some GetEquippedModifiers" "svc_RecalculateStats svc now c d tr = (r, d', tr')"
  shows "quest_part (db_tables d') = quest_part (db_tables d)"
proof -
  obtain z1 d1 where 1: "character_GetByID c d = (z1, d1)" by fastforce
  obtain z2 d2 where 2: "GetEquippedModifiers (wrap32 c) d1 = (z2, d2)" by fastforce
  have t: "db_tables d1 = db_tables d" "db_tables d2 = db_tables d"
    using readsD [OF reads_GetByID 1] readsD [OF reads_GetEquippedModifiers 2] by simp_all
  have u: "quest_part (db_tables d3) = quest_part (db_tables d)" if "character_UpdateStats now c s d2 = (z3, d3)" for s z3 d3
    using framesD [OF frames_UpdateStats that] t by simp
  from assms 1 2 t u show ?thesis
    by (auto simp: svc_RecalculateStats_def Let_def split: sum.splits option.splits prod.splits if_splits)
qed

lemma svc_AddRewards_frame:
  assumes "sv_equip svc = Some GetEquippedModifiers" "svc_AddRewards pow svc now c g x d tr = (r, d', tr')"
  shows "quest_part (db_tables d') = quest_part (db_tables d)"
proof -
  let ?y = "ApplyFilters (sv_rewardHooks svc) HookRewards \<lparr>rf_CharacterID = c, rf_Gold = g, rf_Exp = x\<rparr>"
  obtain z d1 where z: "repo_AddRewards pow now c (rf_Gold ?y) (rf_Exp ?y) d = (z, d1)" by fastforce
  have t: "quest_part (db_tables d1) = quest_part (db_tables d)" using framesD [OF frames_repo_AddRewards z] .
  have s: "quest_part (db_tables d2) = quest_part (db_tables d1)" if "svc_RecalculateStats svc now c d1 tr = (q, d2, tr2)" for q d2 tr2
    using svc_RecalculateStats_frame [OF assms(1) that] .
  from assms(2) z t s show ?thesis
    by (auto simp: svc_AddRewards_def Let_def split: sum.splits prod.splits if_splits)
qed

lemma svc_AddItem_frames:
  fixes P :: "'x game_tables_scheme \<Rightarrow> 'p"
  assumes P: "\<And>t m i. P (t\<lparr>t_inventories_seq := m, t_inventories := i\<rparr>) = P t" and run: "svc_AddItem b now item d tr = (r, d', tr')"
  shows "P (db_tables d') = P (db_tables d)"
proof -
  have f: "frames P (inv_AddItem now i)" for i
    unfolding inv_AddItem_def by (intro frames_intros) (auto simp: Let_def P split: if_splits)
  obtain z d1 where z: "inv_ListByCharacter (ii_CharacterID item) d = (z, d1)" by fastforce
  have "db_tables d1 = db_tables d" using readsD [OF reads_ListByCharacter z] .
  with run z show ?thesis
    by (auto simp: svc_AddItem_def Let_def split: sum.splits prod.splits if_splits dest: framesD [OF f])
qed

lemmas svc_AddItem_frame = svc_AddItem_frames [where P = quest_part, OF quest_part_upd(5)]

interpretation game: quest_gateway "game_gateway pow svc now" for pow svc now
proof
  fix c g x item
  show "frames quest_part (gw_GetByID (game_gateway pow svc now) c)"
    using frames_reads [OF reads_GetByID] by (simp add: game_gateway_def)
  show "frames quest_part (gw_AddRewards (game_gateway pow svc now) c g x)"
    by (rule framesI) (auto simp: game_gateway_def split: prod.splits dest: svc_AddRewards_frame [rotated])
  show "frames quest_part (gw_AddItem (game_gateway pow svc now) item)"
    by (rule framesI) (auto simp: game_gateway_def split: prod.splits dest: svc_AddItem_frame)
qed

text \<open>Any sequence of calls to the service, each at its own time.\<close>

datatype QuestOp = DoAccept int int string | DoProgress int int string string int

definition quest_service :: "pow \<Rightarrow> 'x quest_tables_ext game_tables_ext CharSvc \<Rightarrow>
    (unit, (QuestAccept, unit) action_any) Hooks option \<Rightarrow> (QuestProgressFilter filter_any, unit) Hooks option \<Rightarrow> int \<Rightarrow> 'x questdb QuestSvc" where
  "quest_service pow cs acc prog now = \<lparr>qv_gateway = game_gateway pow cs now, qv_eventBus = True, qv_accept = acc, qv_progress = prog\<rparr>"

fun quest_step :: "(int \<Rightarrow> 'x questdb QuestSvc) \<Rightarrow> QuestOp \<Rightarrow> 'x questdb \<times> QuestEvent list \<Rightarrow> 'x questdb \<times> QuestEvent list" where
  "quest_step svc (DoAccept now c q) (d, tr) = snd (AcceptQuest (svc now) now c q d tr)"
| "quest_step svc (DoProgress now c ty tg amt) (d, tr) = snd (UpdateQuestProgress (svc now) now c ty tg amt d tr)"

lemma quest_service_simps [simp]:
  "qv_gateway (quest_service pow cs acc prog now) = game_gateway pow cs now" "qv_eventBus (quest_service pow cs acc prog now)"
  by (simp_all add: quest_service_def)

lemma quest_step_accounts:
  assumes "quest_step (quest_service pow cs acc prog) op (d, tr) = (d', tr')"
  shows "\<exists>evs. tr' = tr @ evs \<and> accounts evs d d'"
proof (cases op)
  case (DoAccept now c q)
  obtain r where "AcceptQuest (quest_service pow cs acc prog now) now c q d tr = (r, d', tr')"
    using assms DoAccept by (metis prod.collapse quest_step.simps(1))
  from game.AcceptQuest_accounts [OF _ _ this] show ?thesis by simp
next
  case (DoProgress now c ty tg amt)
  obtain r where "UpdateQuestProgress (quest_service pow cs acc prog now) now c ty tg amt d tr = (r, d', tr')"
    using assms DoProgress by (metis prod.collapse quest_step.simps(2))
  from game.UpdateQuestProgress_accounts [OF _ _ this] show ?thesis by simp
qed

lemma quest_run_accounts:
  "fold (quest_step (quest_service pow cs acc prog)) ops (d, tr) = (d', tr') \<Longrightarrow> \<exists>evs. tr' = tr @ evs \<and> accounts evs d d'"
proof (induction ops arbitrary: d tr)
  case Nil
  then show ?case using accounts_same by fastforce
next
  case (Cons op ops)
  obtain d1 tr1 where s: "quest_step (quest_service pow cs acc prog) op (d, tr) = (d1, tr1)" by fastforce
  from quest_step_accounts [OF s] obtain evs where e: "tr1 = tr @ evs" "accounts evs d d1" by blast
  from Cons s have "\<exists>evs. tr' = tr1 @ evs \<and> accounts evs d1 d'" by simp
  with e accounts_append show ?case by fastforce
qed

text \<open>
  C6: a quest is accepted at most once and completed at most once. In any sequence of
  \<open>AcceptQuest\<close> and \<open>UpdateQuestProgress\<close> calls on the game's own character and inventory
  services, whatever driver calls fail and whatever hooks are registered, a completion (the only
  place where the rewards are granted) is published for a character and quest exactly when the
  log passes from not completed to completed, which happens at most once and is never undone, and
  an acceptance exactly when the log gets its row.
\<close>

theorem quest_completed_once:
  assumes "fold (quest_step (quest_service pow cs acc prog)) ops (d, []) = (d', tr)"
  shows "count_list tr (QuestCompleted c q) = of_bool (is_completed d' (c, q) \<and> \<not> is_completed d (c, q)) \<and>
    (is_completed d (c, q) \<longrightarrow> is_completed d' (c, q)) \<and>
    count_list tr (QuestAccepted c q) = of_bool (quest_row d' (c, q) \<noteq> None \<and> quest_row d (c, q) = None) \<and>
    (quest_row d (c, q) \<noteq> None \<longrightarrow> quest_row d' (c, q) \<noteq> None)"
proof -
  have "accounts tr d d'" using quest_run_accounts [OF assms] by simp
  then have "count_list tr (QuestCompleted c q) + of_bool (is_completed d (c, q)) = (of_bool (is_completed d' (c, q)) :: nat)"
    "count_list tr (QuestAccepted c q) + of_bool (quest_row d (c, q) \<noteq> None) = (of_bool (quest_row d' (c, q) \<noteq> None) :: nat)"
    unfolding accounts_def by blast+
  then show ?thesis by (simp split: if_splits add: of_bool_def)
qed

definition demo_quest :: QuestRow where
  "demo_quest = \<lparr>qw_title = ''x'', qw_description = [], qw_min_level = 1,
     qw_steps = JArr [JObj [(''type'', JStr ''KILL''), (''target'', JStr ''wolf''), (''count'', JNum 1)]],
     qw_rewards = JObj [(''gold'', JNum 5)], qw_metadata = JNull, qw_created_at = 0\<rparr>"

definition demo_log :: "string \<Rightarrow> quest_tables DB" where
  "demo_log status = \<lparr>db_tables = \<lparr>t_outbox = [], t_outbox_seq = 0, t_event_log = [], t_characters = [], t_characters_seq = 1,
     t_character_stats = [], t_items = [], t_inventories = [], t_inventories_seq = 0, t_quests = [(''wolves'', demo_quest)],
     t_char_quests = [((1, ''wolves''), \<lparr>cr_status = status, cr_step = 0, cr_progress = JArr [JNum 0], cr_updated_at = 0\<rparr>)]\<rparr>,
     db_faults = []\<rparr>"

definition demo_cq :: CharacterQuest where
  "demo_cq = \<lparr>cq_CharacterID = 1, cq_QuestID = ''wolves'', cq_Status = QuestStatusActive, cq_CurrentStepIndex = 0,
     cq_Progress = [0], cq_UpdatedAt = 0, cq_Definition = Some \<lparr>qd_ID = ''wolves'', qd_Title = ''x'', qd_Description = [],
       qd_MinLevel = 1, qd_Steps = [\<lparr>st_Type = ''KILL'', st_Target = ''wolf'', st_Count = 1\<rparr>],
       qd_Rewards = \<lparr>qr_Experience = 0, qr_Gold = 5, qr_Items = []\<rparr>, qd_Metadata = None, qd_CreatedAt = 0\<rparr>\<rparr>"

definition demo_cs :: "unit quest_tables_ext game_tables_ext CharSvc" where
  "demo_cs = \<lparr>sv_classDefs = Map.empty, sv_statClient = None, sv_equip = None, sv_eventBus = False,
     sv_rewardHooks = None, sv_statHooks = None\<rparr>"

theorem quest_completed_once_witness:
  "\<exists>d' tr. fold (quest_step (quest_service pow_id demo_cs None None)) [DoProgress 0 1 ''KILL'' ''wolf'' 1]
      (demo_log QuestStatusActive, []) = (d', tr) \<and> count_list tr (QuestCompleted 1 ''wolves'') = 1"
proof -
  let ?gw = "game_gateway pow_id demo_cs 0"
  let ?d1 = "(demo_log QuestStatusCompleted)"
  let ?d' = "grant_rewards ?gw 1 \<lparr>qr_Experience = 0, qr_Gold = 5, qr_Items = []\<rparr> ?d1"
  have l: "quests_ListCharacterQuests 1 (demo_log QuestStatusActive) = (Inr [demo_cq], demo_log QuestStatusActive)"
    by code_simp
  have c: "quests_CompleteQuest 0 1 ''wolves'' (demo_log QuestStatusActive) = (Inr (), ?d1)" by code_simp
  have a: "let a = quest_Advance (toSteps [\<lparr>st_Type = ''KILL'', st_Target = ''wolf'', st_Count = 1\<rparr>]) 0 [0] ''KILL'' ''wolf'' 1
      in adv_matched a \<and> adv_questCompleted a" by code_simp
  have one: "progress_one (quest_service pow_id demo_cs None None 0) 0 1 ''KILL'' ''wolf'' 1 demo_cq (demo_log QuestStatusActive) [] =
      (None, ?d', [QuestCompleted 1 ''wolves''])"
    using a c by (simp add: progress_one_def demo_cq_def Let_def quest_publish_def)
  have e: "fold (quest_step (quest_service pow_id demo_cs None None)) [DoProgress 0 1 ''KILL'' ''wolf'' 1]
      (demo_log QuestStatusActive, []) = (?d', [QuestCompleted 1 ''wolves''])"
    using l one by (simp add: UpdateQuestProgress_def Let_def quest_service_def ApplyFilters_def)
  have "quest_row ?d' = quest_row ?d1" by (rule quest_row_cong [OF game.grant_rewards_frame])
  then have "is_completed ?d' (1, ''wolves'')" by (simp add: is_completed_def quest_row_def demo_log_def)
  moreover have "\<not> is_completed (demo_log QuestStatusActive) (1, ''wolves'')"
    by (simp add: is_completed_def quest_row_def demo_log_def)
  ultimately have "count_list [QuestCompleted 1 ''wolves''] (QuestCompleted 1 ''wolves'') = 1"
    using quest_completed_once [OF e, of 1 "''wolves''"] by simp
  with e show ?thesis by blast
qed

subsection \<open>The quest log stays consistent\<close>

text \<open>
  The definitions can be decoded, have steps with positive counts, and counts far enough below the
  limit of \<open>int32\<close> for amounts up to \<open>amt\<close>; every active quest has a decodable position that keeps
  the invariant of \<open>quest_Advance\<close>.
\<close>

definition defs_ok :: "int \<Rightarrow> 'x quest_tables_scheme \<Rightarrow> bool" where
  "defs_ok amt t \<longleftrightarrow> (\<forall>q w. map_of (t_quests t) q = Some w \<longrightarrow> (\<exists>qd. scan_quest q w = Inr qd \<and>
     steps_ok (toSteps (qd_Steps qd)) \<and> list_all (\<lambda>s. st_Count s + amt < 2 ^ 31) (qd_Steps qd)))"

definition row_ok :: "'x quest_tables_scheme \<Rightarrow> string \<Rightarrow> CQRow \<Rightarrow> bool" where
  "row_ok t q r \<longleftrightarrow> (\<exists>w qd ps. map_of (t_quests t) q = Some w \<and> scan_quest q w = Inr qd \<and>
     unmarshal_progress (cr_progress r) = Inr ps \<and> quest_inv (toSteps (qd_Steps qd)) (cr_step r, ps))"

definition log_ok :: "'x quest_tables_scheme \<Rightarrow> bool" where
  "log_ok t \<longleftrightarrow> al_ok (t_char_quests t) \<and>
     (\<forall>c q r. map_of (t_char_quests t) (c, q) = Some r \<longrightarrow> cr_status r = QuestStatusActive \<longrightarrow> row_ok t q r)"

lemma progress_roundtrip: "list_all in32 ps \<Longrightarrow> unmarshal_progress (marshal_progress ps) = Inr ps"
  unfolding unmarshal_progress_def marshal_progress_def json_array_def
  by (simp add: list_all_iff, rule json_list_map) simp

text \<open>A quest of the log agrees with its row.\<close>

definition agrees :: "int \<Rightarrow> 'x questdb \<Rightarrow> CharacterQuest \<Rightarrow> bool" where
  "agrees c d cq \<longleftrightarrow> (\<exists>r w qd. quest_row d (c, cq_QuestID cq) = Some r \<and> cq_Status cq = cr_status r \<and>
     cq_CurrentStepIndex cq = cr_step r \<and> unmarshal_progress (cr_progress r) = Inr (cq_Progress cq) \<and>
     map_of (t_quests (db_tables d)) (cq_QuestID cq) = Some w \<and> scan_quest (cq_QuestID cq) w = Inr qd \<and>
     cq_Definition cq = Some qd)"

lemma set_quest_join:
  "((k, r), w) \<in> set (quest_join t P) \<longleftrightarrow> (k, r) \<in> set (t_char_quests t) \<and> P k \<and> map_of (t_quests t) (snd k) = Some w"
  by (force simp: quest_join_def List.map_filter_def split: if_splits)

lemma distinct_quest_join:
  assumes "al_ok (t_char_quests t)"
  shows "distinct (map (fst \<circ> fst) (quest_join t P))"
proof -
  have j: "map (fst \<circ> fst) (List.map_filter (\<lambda>x. if P (fst x) then map_option (Pair x) (map_of qs (snd (fst x))) else None) xs) =
      map fst (filter (\<lambda>x. P (fst x) \<and> map_of qs (snd (fst x)) \<noteq> None) xs)" for qs and xs :: "((int \<times> string) \<times> CQRow) list"
    by (induction xs) (auto simp: List.map_filter_simps)
  show ?thesis unfolding quest_join_def j using assms by (simp add: al_ok_def distinct_map_filter)
qed

lemma scan_rows_Inr: "scan_rows scan rows = Inr as \<Longrightarrow> list_all2 (\<lambda>r a. scan r = Inr a) rows as"
  by (induction rows arbitrary: as) (auto simp: res_bind_def split: sum.splits)

lemma ListCharacterQuests_agrees:
  assumes l: "quests_ListCharacterQuests c d = (Inr qlog, d')" and ok: "al_ok (t_char_quests (db_tables d))"
  shows "distinct (map cq_QuestID qlog) \<and> (\<forall>cq \<in> set qlog. agrees c d cq)"
proof -
  let ?rows = "sort_key (\<lambda>x. - cr_updated_at (snd (fst x))) (quest_join (db_tables d) (\<lambda>k. fst k = c))"
  from l obtain got e d1 where f: "fetch_rows ?rows d1 = ((got, e), d')" and s: "scan_rows scan_char_quest got = Inr qlog"
    by (auto simp: quests_ListCharacterQuests_def elim!: tx_bind_Inr dest!: db_stmt_Inr split: prod.splits)
  from fetch_rows_prefix [OF f] obtain rest where pre: "?rows = got @ rest" by blast
  note all = scan_rows_Inr [OF s]
  have sub: "set got \<subseteq> set (quest_join (db_tables d) (\<lambda>k. fst k = c))"
    using arg_cong [OF pre, of set] by auto
  have dist: "distinct (map (fst \<circ> fst) got)"
  proof -
    have "distinct (map (fst \<circ> fst) ?rows)"
      using distinct_quest_join [OF ok, of "\<lambda>k. fst k = c"] by (simp add: distinct_map)
    then show ?thesis unfolding pre by simp
  qed
  have one: "cq_QuestID cq = snd (fst (fst x)) \<and> agrees c d cq" if x: "x \<in> set got" "scan_char_quest x = Inr cq" for x cq
  proof -
    obtain c' q r w where xe: "x = (((c', q), r), w)" by (metis prod.exhaust)
    with x(1) sub have m: "((c', q), r) \<in> set (t_char_quests (db_tables d))" "c' = c" "map_of (t_quests (db_tables d)) q = Some w"
      using set_quest_join [of "(c', q)" r w "db_tables d"] by auto
    have "quest_row d (c, q) = Some r" using m ok by (auto simp: quest_row_def al_ok_def)
    with x(2) m show ?thesis unfolding xe
      by (auto simp: scan_char_quest_def agrees_def res_bind_def split: sum.splits)
  qed
  have len: "length got = length qlog" and at: "\<And>i. i < length qlog \<Longrightarrow> scan_char_quest (got ! i) = Inr (qlog ! i)"
    using all by (auto simp: list_all2_conv_all_nth)
  have nth: "cq_QuestID (qlog ! i) = snd (fst (fst (got ! i))) \<and> agrees c d (qlog ! i)" if "i < length qlog" for i
    using one [OF _ at [OF that]] that len by simp
  have ids: "map cq_QuestID qlog = map (snd \<circ> (fst \<circ> fst)) got"
    by (rule nth_equalityI) (use len nth in simp_all)
  have "\<forall>x \<in> set got. fst (fst (fst x)) = c"
  proof
    fix x
    assume "x \<in> set got"
    with sub show "fst (fst (fst x)) = c"
      using set_quest_join [of "fst (fst x)" "snd (fst x)" "snd x" "db_tables d"] by auto
  qed
  then have "map (fst \<circ> fst) got = map (Pair c) (map (snd \<circ> (fst \<circ> fst)) got)" by (simp add: prod_eq_iff)
  with dist have "distinct (map (snd \<circ> (fst \<circ> fst)) got)" by (metis distinct_map)
  moreover have "\<forall>cq \<in> set qlog. agrees c d cq" using nth by (metis in_set_conv_nth)
  ultimately show ?thesis unfolding ids by blast
qed

lemma log_ok_cong: "quest_part t = quest_part t' \<Longrightarrow> log_ok t = log_ok t' \<and> defs_ok amt t = defs_ok amt t'"
  by (simp add: quest_part_def log_ok_def row_ok_def defs_ok_def)

lemma agrees_cong: "quest_part (db_tables d) = quest_part (db_tables d') \<Longrightarrow> agrees c d cq = agrees c d' cq"
  by (simp add: quest_part_def agrees_def quest_row_def)

text \<open>Writing one row of the log.\<close>

lemma log_ok_write:
  assumes ok: "log_ok (db_tables d)" and r: "quest_row d' = (quest_row d)((c, q) \<mapsto> r)"
    and q: "t_quests (db_tables d') = t_quests (db_tables d)" and al: "al_ok (t_char_quests (db_tables d'))"
    and new: "cr_status r = QuestStatusActive \<Longrightarrow> row_ok (db_tables d) q r"
  shows "log_ok (db_tables d')"
proof -
  have "row_ok (db_tables d') x y = row_ok (db_tables d) x y" for x y by (simp add: row_ok_def q)
  then show ?thesis using ok new r al unfolding log_ok_def quest_row_def
    by (auto split: if_splits simp: fun_eq_iff)
qed

lemma update_active_al:
  "update_active c q f d = (Inr u, d') \<Longrightarrow> al_ok (t_char_quests (db_tables d)) \<Longrightarrow> al_ok (t_char_quests (db_tables d'))"
proof -
  have keys: "keys (AList.map_entry k f xs) = keys xs" for k and xs :: "((int \<times> string) \<times> CQRow) list"
    by (induction xs) auto
  assume u: "update_active c q f d = (Inr u, d')" and al: "al_ok (t_char_quests (db_tables d))"
  from u have "(db_tables d)\<lparr>t_char_quests := AList.map_entry (c, q) f (t_char_quests (db_tables d))\<rparr> = db_tables d'"
    by (auto simp: update_active_def elim!: tx_bind_Inr dest!: db_stmt_Inr split: option.splits if_splits)
  then have "t_char_quests (db_tables d') = AList.map_entry (c, q) f (t_char_quests (db_tables d))"
    by (metis quest_tables.select_convs(2) quest_tables.surjective quest_tables.update_convs(2))
  then show ?thesis using al by (simp add: al_ok_def keys)
qed

text \<open>One quest advanced, on a database its entry agrees with.\<close>

lemma advance_row_ok:
  assumes ok: "log_ok (db_tables d)" "defs_ok amt (db_tables d)" and ag: "agrees c d cq"
    and act: "cq_Status cq = QuestStatusActive" and qd: "cq_Definition cq = Some qd"
    and am: "0 \<le> a" "a \<le> amt"
    and r: "cr_step r = adv_step (advance_cq qd cq ty tg a)" "cr_progress r = marshal_progress (adv_progress (advance_cq qd cq ty tg a))"
  shows "row_ok (db_tables d) (cq_QuestID cq) r"
proof -
  from ag qd obtain row w where row: "quest_row d (c, cq_QuestID cq) = Some row" "cr_status row = cq_Status cq"
    "cq_CurrentStepIndex cq = cr_step row" "unmarshal_progress (cr_progress row) = Inr (cq_Progress cq)"
    and w: "map_of (t_quests (db_tables d)) (cq_QuestID cq) = Some w" "scan_quest (cq_QuestID cq) w = Inr qd"
    unfolding agrees_def by auto
  let ?steps = "toSteps (qd_Steps qd)" and ?q = "(cq_CurrentStepIndex cq, cq_Progress cq)"
  let ?ev = "\<lparr>ev_type = ty, ev_target = tg, ev_amount = a\<rparr>"
  from ok(1) row act have "row_ok (db_tables d) (cq_QuestID cq) row" by (auto simp: log_ok_def quest_row_def)
  then have inv: "quest_inv ?steps ?q" using w row(3,4) by (auto simp: row_ok_def)
  from ok(2) w have st: "steps_ok ?steps" "list_all (\<lambda>s. st_Count s + amt < 2 ^ 31) (qd_Steps qd)"
    unfolding defs_ok_def by (metis sum.inject(2))+
  have i: "nat (fst ?q) < length (qd_Steps qd)" using inv by (auto simp: quest_inv_def toSteps_def)
  have "0 \<le> snd ?q ! nat (fst ?q)" "snd ?q ! nat (fst ?q) \<le> st_Count (qd_Steps qd ! nat (fst ?q))"
    using inv i by (auto simp: quest_inv_def toSteps_def)
  moreover have "st_Count (qd_Steps qd ! nat (fst ?q)) + amt < 2 ^ 31" using st(2) i by (simp add: list_all_length)
  ultimately have "in32 (snd ?q ! nat (fst ?q) + a)" using am by (simp add: in32_def)
  with quest_inv_adv [OF st(1) inv, of ?ev] am(1)
  have inv': "quest_inv ?steps (adv_step (advance_cq qd cq ty tg a), adv_progress (advance_cq qd cq ty tg a))"
    by (simp add: adv_def advance_cq_def)
  from quest_inv_in32 [OF st(1) inv'] have "unmarshal_progress (cr_progress r) = Inr (adv_progress (advance_cq qd cq ty tg a))"
    unfolding r(2) by (intro progress_roundtrip) simp
  then show ?thesis using inv' w by (auto simp: row_ok_def r(1))
qed

context quest_gateway
begin

lemma progress_one_log_ok:
  assumes g: "qv_gateway svc = gw" and p: "progress_one svc now c ty tg a cq d tr = (r, d', tr')"
    and ok: "log_ok (db_tables d)" "defs_ok amt (db_tables d)" and ag: "agrees c d cq" and am: "0 \<le> a" "a \<le> amt"
  shows "log_ok (db_tables d') \<and> defs_ok amt (db_tables d') \<and>
    (\<forall>cq'. cq_QuestID cq' \<noteq> cq_QuestID cq \<longrightarrow> agrees c d cq' \<longrightarrow> agrees c d' cq')"
  using p
proof (cases rule: progress_oneE)
  case none
  then show ?thesis using ok by (auto simp: agrees_def quest_row_def)
next
  case (complete qd d1 u)
  from complete(5) obtain row where row: "quest_row d1 = (quest_row d)((c, cq_QuestID cq) \<mapsto>
        row\<lparr>cr_status := QuestStatusCompleted, cr_updated_at := now\<rparr>)"
    "t_quests (db_tables d1) = t_quests (db_tables d)"
    unfolding quests_CompleteQuest_def by (rule update_active_Inr)
  have "al_ok (t_char_quests (db_tables d1))"
    using complete(5) ok(1) unfolding quests_CompleteQuest_def log_ok_def by (blast intro: update_active_al)
  from log_ok_write [OF ok(1) row this] have 1: "log_ok (db_tables d1)" by simp
  have f: "quest_part (db_tables d') = quest_part (db_tables d1)" unfolding complete(6) g by (rule grant_rewards_frame)
  have 2: "defs_ok amt (db_tables d1)" using ok(2) row(2) by (simp add: defs_ok_def)
  have 3: "agrees c d1 cq'" if "cq_QuestID cq' \<noteq> cq_QuestID cq" "agrees c d cq'" for cq'
    using that row by (auto simp: agrees_def)
  show ?thesis using 1 2 3 log_ok_cong [OF f] agrees_cong [OF f] by blast
next
  case (update qd u)
  let ?a = "advance_cq qd cq ty tg a"
  from update(5) obtain row where row: "quest_row d' = (quest_row d)((c, cq_QuestID cq) \<mapsto>
      row\<lparr>cr_step := adv_step ?a, cr_progress := marshal_progress (adv_progress ?a), cr_updated_at := now\<rparr>)"
    "t_quests (db_tables d') = t_quests (db_tables d)"
    unfolding quests_UpdateProgress_def by (rule update_active_Inr)
  have al: "al_ok (t_char_quests (db_tables d'))"
    using update(5) ok(1) unfolding quests_UpdateProgress_def log_ok_def by (blast intro: update_active_al)
  have "log_ok (db_tables d')"
    by (rule log_ok_write [OF ok(1) row al], rule advance_row_ok [OF ok ag update(1,2) am]) simp_all
  moreover have "defs_ok amt (db_tables d')" using ok(2) row(2) by (simp add: defs_ok_def)
  moreover have "agrees c d' cq'" if "cq_QuestID cq' \<noteq> cq_QuestID cq" "agrees c d cq'" for cq'
    using that row by (auto simp: agrees_def)
  ultimately show ?thesis by blast
qed

lemma progress_loop_log_ok:
  assumes g: "qv_gateway svc = gw" and am: "0 \<le> a" "a \<le> amt"
  shows "progress_loop svc now c ty tg a cqs d tr = (r, d', tr') \<Longrightarrow> log_ok (db_tables d) \<Longrightarrow> defs_ok amt (db_tables d) \<Longrightarrow>
    distinct (map cq_QuestID cqs) \<Longrightarrow> \<forall>cq \<in> set cqs. agrees c d cq \<Longrightarrow> log_ok (db_tables d') \<and> defs_ok amt (db_tables d')"
proof (induction cqs arbitrary: d tr)
  case (Cons cq cqs)
  obtain z d1 tr1 where z: "progress_one svc now c ty tg a cq d tr = (z, d1, tr1)" by (metis prod_cases3)
  have one: "log_ok (db_tables d1)" "defs_ok amt (db_tables d1)"
    "\<forall>cq'. cq_QuestID cq' \<noteq> cq_QuestID cq \<longrightarrow> agrees c d cq' \<longrightarrow> agrees c d1 cq'"
    using progress_one_log_ok [OF g z Cons.prems(2,3) _ am] Cons.prems(5) by auto
  show ?case
  proof (cases z)
    case (Some e)
    with Cons.prems(1) z one show ?thesis by simp
  next
    case None
    with Cons.prems(1) z have "progress_loop svc now c ty tg a cqs d1 tr1 = (r, d', tr')" by simp
    moreover have "\<forall>cq' \<in> set cqs. agrees c d1 cq'"
    proof
      fix cq'
      assume "cq' \<in> set cqs"
      then have "cq_QuestID cq' \<in> cq_QuestID ` set cqs" "agrees c d cq'" using Cons.prems(5) by simp_all
      moreover have "cq_QuestID cq \<notin> cq_QuestID ` set cqs" using Cons.prems(4) by simp
      ultimately show "agrees c d1 cq'" using one(3) by metis
    qed
    ultimately show ?thesis using Cons.IH one(1,2) Cons.prems(4) by simp
  qed
qed simp

lemma UpdateQuestProgress_log_ok:
  assumes g: "qv_gateway svc = gw" and u: "UpdateQuestProgress svc now c ty tg a0 d tr = (r, d', tr')"
    and ok: "log_ok (db_tables d)" "defs_ok amt (db_tables d)"
    and am: "a = qf_Amount (ApplyFilters (qv_progress svc) HookProgress
       \<lparr>qf_CharacterID = c, qf_ActionType = ty, qf_Target = tg, qf_Amount = a0\<rparr>)" "0 \<le> a" "a \<le> amt"
  shows "log_ok (db_tables d') \<and> defs_ok amt (db_tables d')"
proof -
  obtain z d1 where z: "quests_ListCharacterQuests c d = (z, d1)" by fastforce
  have t: "db_tables d1 = db_tables d" using readsD [OF reads_ListCharacterQuests z] .
  show ?thesis
  proof (cases z)
    case (Inl e)
    then have "d' = d1" using u z by (auto simp: UpdateQuestProgress_def Let_def)
    then show ?thesis using t ok by simp
  next
    case (Inr l)
    then have lp: "progress_loop svc now c ty tg a l d1 tr = (r, d', tr')"
      using u z by (auto simp: UpdateQuestProgress_def Let_def am(1))
    have ag: "agrees c d1 cq = agrees c d cq" for cq by (rule agrees_cong) (simp add: t)
    from ListCharacterQuests_agrees [OF z [unfolded Inr]] ok(1) have "distinct (map cq_QuestID l)" "\<forall>cq \<in> set l. agrees c d1 cq"
      unfolding log_ok_def ag by blast+
    from progress_loop_log_ok [OF g am(2,3) lp _ _ this] ok t show ?thesis by simp
  qed
qed

lemma AcceptQuest_log_ok:
  assumes g: "qv_gateway svc = gw" and a: "AcceptQuest svc now c q d tr = (r, d', tr')"
    and ok: "log_ok (db_tables d)" "defs_ok amt (db_tables d)"
  shows "log_ok (db_tables d') \<and> defs_ok amt (db_tables d')"
proof -
  obtain z where z: "accept_sequence svc now c q d = (z, d')"
    using a by (auto simp: AcceptQuest_def split: prod.splits sum.splits)
  note cs = accept_sequence_cases [OF g z]
  show ?thesis
  proof (cases z)
    case (Inl e)
    with cs have "quest_part (db_tables d') = quest_part (db_tables d)" by simp
    from log_ok_cong [OF this] ok show ?thesis by blast
  next
    case (Inr u)
    with cs obtain w qd where n: "quest_row d (c, q) = None" and tq: "t_quests (db_tables d') = t_quests (db_tables d)"
      and w: "map_of (t_quests (db_tables d)) q = Some w" "scan_quest q w = Inr qd"
      and row: "quest_row d' = (quest_row d)((c, q) \<mapsto> \<lparr>cr_status = QuestStatusActive, cr_step = 0,
             cr_progress = marshal_progress (replicate (length (qd_Steps qd)) 0), cr_updated_at = now\<rparr>)" by auto
    from ok(2) w have st: "steps_ok (toSteps (qd_Steps qd))" unfolding defs_ok_def by (metis sum.inject(2))
    from quest_inv_start [OF st] have inv: "quest_inv (toSteps (qd_Steps qd)) (0, replicate (length (qd_Steps qd)) 0)"
      by (simp add: toSteps_def)
    have "unmarshal_progress (marshal_progress (replicate (length (qd_Steps qd)) 0)) = Inr (replicate (length (qd_Steps qd)) 0)"
      by (rule progress_roundtrip) (simp add: list_all_length in32_def)
    then have new: "row_ok (db_tables d) q \<lparr>cr_status = QuestStatusActive, cr_step = 0,
        cr_progress = marshal_progress (replicate (length (qd_Steps qd)) 0), cr_updated_at = now\<rparr>"
      using inv w by (auto simp: row_ok_def)
    have "al_ok (t_char_quests (db_tables d'))" using cs Inr ok(1) by (auto simp: log_ok_def)
    from log_ok_write [OF ok(1) row tq this new] ok(2) tq show ?thesis by (simp add: defs_ok_def)
  qed
qed

end

definition op_amount_ok :: "(QuestProgressFilter filter_any, unit) Hooks option \<Rightarrow> int \<Rightarrow> QuestOp \<Rightarrow> bool" where
  "op_amount_ok prog amt op = (case op of DoAccept _ _ _ \<Rightarrow> True
     | DoProgress now c ty tg a0 \<Rightarrow>
         (let a = qf_Amount (ApplyFilters prog HookProgress
            \<lparr>qf_CharacterID = c, qf_ActionType = ty, qf_Target = tg, qf_Amount = a0\<rparr>) in 0 \<le> a \<and> a \<le> amt))"

lemma quest_step_log_ok:
  assumes s: "quest_step (quest_service pow cs acc prog) op (d, tr) = (d', tr')" and am: "op_amount_ok prog amt op"
    and ok: "log_ok (db_tables d)" "defs_ok amt (db_tables d)"
  shows "log_ok (db_tables d') \<and> defs_ok amt (db_tables d')"
proof (cases op)
  case (DoAccept now c q)
  obtain r where "AcceptQuest (quest_service pow cs acc prog now) now c q d tr = (r, d', tr')"
    using s DoAccept by (metis prod.collapse quest_step.simps(1))
  from game.AcceptQuest_log_ok [OF _ this ok] show ?thesis by simp
next
  case (DoProgress now c ty tg a0)
  obtain r where u: "UpdateQuestProgress (quest_service pow cs acc prog now) now c ty tg a0 d tr = (r, d', tr')"
    using s DoProgress by (metis prod.collapse quest_step.simps(2))
  show ?thesis
    by (rule game.UpdateQuestProgress_log_ok [OF _ u ok refl])
      (use am DoProgress in \<open>auto simp: op_amount_ok_def Let_def quest_service_def\<close>)
qed



end
