(* ===== verification/Loot.thy ===== *)
theory Loot
  imports Quests Combat
begin

section \<open>Loot: gamekit/loot, backend/game/loot, backend/game/killreward\<close>

text \<open>
  The weighted roller of the toolkit, the game's loot tables behind their read-through cache, and
  the service that turns a kill into quest progress, gold and items. The random generator is the
  sequence of numbers it will deliver: \<open>Int31n(n)\<close> reduces the next one below \<open>n\<close> and panics when
  \<open>n\<close> is not positive, so every sequence of outcomes the generator can have is covered.
\<close>

subsection \<open>The roller\<close>

abbreviation "RateScale \<equiv> 10000 :: int"

record Entry =
  en_ItemID :: string
  en_Rate :: int
  en_Min :: int
  en_Max :: int

record Drop =
  dr_ItemID :: string
  dr_Quantity :: int

record Roll =
  rl_TableID :: string
  rl_Items :: "Drop list"

type_synonym rng = "nat list"

definition roll31n :: "int \<Rightarrow> rng \<Rightarrow> int result \<times> rng" where
  "roll31n n g = (if n \<le> 0 then (Inl (Panic ''invalid argument to Int31n''), g)
     else case g of [] \<Rightarrow> (Inr 0, []) | x # xs \<Rightarrow> (Inr (int x mod n), xs))"

definition rollEntry :: "Entry \<Rightarrow> rng \<Rightarrow> Drop option result \<times> rng" where
  "rollEntry e g = (case roll31n RateScale g of
     (Inl p, g1) \<Rightarrow> (Inl p, g1)
   | (Inr r, g1) \<Rightarrow>
      if r \<ge> en_Rate e then (Inr None, g1)
      else if en_Max e > en_Min e
      then (case roll31n (wrap32 (en_Max e - en_Min e + 1)) g1 of
          (Inl p, g2) \<Rightarrow> (Inl p, g2)
        | (Inr q, g2) \<Rightarrow> (Inr (Some \<lparr>dr_ItemID = en_ItemID e, dr_Quantity = wrap32 (en_Min e + q)\<rparr>), g2))
      else (Inr (Some \<lparr>dr_ItemID = en_ItemID e, dr_Quantity = en_Min e\<rparr>), g1))"

fun roll_entries :: "Entry list \<Rightarrow> rng \<Rightarrow> Drop list result \<times> rng" where
  "roll_entries [] g = (Inr [], g)"
| "roll_entries (e # es) g = (case rollEntry e g of
     (Inl p, g1) \<Rightarrow> (Inl p, g1)
   | (Inr d, g1) \<Rightarrow> (case roll_entries es g1 of
        (Inl p, g2) \<Rightarrow> (Inl p, g2)
      | (Inr ds, g2) \<Rightarrow> (Inr (case d of None \<Rightarrow> ds | Some d \<Rightarrow> d # ds), g2)))"

definition roller_Roll :: "(string \<Rightarrow> 's \<Rightarrow> Entry list result \<times> 's) \<Rightarrow> (Roll filter_any, unit) Hooks option \<Rightarrow>
    string \<Rightarrow> 's \<times> rng \<Rightarrow> Drop list result \<times> 's \<times> rng" where
  "roller_Roll entriesFor hk tableID w = (case entriesFor tableID (fst w) of
     (Inl e, s1) \<Rightarrow> (Inl e, s1, snd w)
   | (Inr entries, s1) \<Rightarrow> (case roll_entries entries (snd w) of
        (Inl p, g1) \<Rightarrow> (Inl p, s1, g1)
      | (Inr drops, g1) \<Rightarrow>
          (Inr (rl_Items (ApplyFilters hk ''loot.roll'' \<lparr>rl_TableID = tableID, rl_Items = drops\<rparr>)), s1, g1)))"

subsection \<open>What a roll can produce\<close>

text \<open>A rule whose quantities fit: \<open>Max - Min + 1\<close> does not overflow.\<close>

definition entry_ok :: "Entry \<Rightarrow> bool" where
  "entry_ok e \<longleftrightarrow> in32 (en_Min e) \<and> in32 (en_Max e) \<and> en_Max e - en_Min e + 1 < 2 ^ 31"

text \<open>A drop that its rule allows.\<close>

definition allowed :: "Entry \<Rightarrow> Drop \<Rightarrow> bool" where
  "allowed e d \<longleftrightarrow> dr_ItemID d = en_ItemID e \<and> en_Min e \<le> dr_Quantity d \<and> dr_Quantity d \<le> max (en_Min e) (en_Max e) \<and> 0 < en_Rate e"

lemma roll31n_Inr: "0 < n \<Longrightarrow> \<exists>r g'. roll31n n g = (Inr r, g') \<and> 0 \<le> r \<and> r < n"
  by (cases g) (auto simp: roll31n_def)

lemma rollEntry_cases:
  assumes "entry_ok e"
  shows "\<exists>d g'. rollEntry e g = (Inr d, g') \<and> (case d of None \<Rightarrow> en_Rate e < RateScale | Some d \<Rightarrow> allowed e d)"
proof -
  obtain r g1 where r: "roll31n RateScale g = (Inr r, g1)" "0 \<le> r" "r < RateScale"
    using roll31n_Inr [of RateScale g] by auto
  show ?thesis
  proof (cases "en_Rate e \<le> r")
    case True
    then show ?thesis using r by (simp add: rollEntry_def)
  next
    case low: False
    show ?thesis
    proof (cases "en_Min e < en_Max e")
      case True
      have w: "wrap32 (en_Max e - en_Min e + 1) = en_Max e - en_Min e + 1"
        using assms True by (intro wrap32_id) (simp add: entry_ok_def in32_def)
      obtain q g2 where q: "roll31n (en_Max e - en_Min e + 1) g1 = (Inr q, g2)" "0 \<le> q" "q < en_Max e - en_Min e + 1"
        using roll31n_Inr [of "en_Max e - en_Min e + 1" g1] True by auto
      have "wrap32 (en_Min e + q) = en_Min e + q"
        using assms q by (intro wrap32_id) (auto simp: entry_ok_def in32_def)
      then show ?thesis using r low True w q by (simp add: rollEntry_def allowed_def)
    next
      case False
      then show ?thesis using r low by (simp add: rollEntry_def allowed_def)
    qed
  qed
qed

text \<open>The rules that dropped, in their order, each with its drop.\<close>

lemma roll_entries_cases:
  assumes "list_all entry_ok es"
  shows "\<exists>ds g' sel. roll_entries es g = (Inr ds, g') \<and> sel \<in> set (subseqs es) \<and> list_all2 allowed sel ds \<and>
    filter (\<lambda>e. RateScale \<le> en_Rate e) es = filter (\<lambda>e. RateScale \<le> en_Rate e) sel"
  using assms
proof (induction es arbitrary: g)
  case (Cons e es)
  from Cons.prems obtain d g1 where d: "rollEntry e g = (Inr d, g1)"
    "case d of None \<Rightarrow> en_Rate e < RateScale | Some d \<Rightarrow> allowed e d" using rollEntry_cases [of e g] by auto
  from Cons obtain ds g2 sel where ih: "roll_entries es g1 = (Inr ds, g2)" "sel \<in> set (subseqs es)" "list_all2 allowed sel ds"
    "filter (\<lambda>e. RateScale \<le> en_Rate e) es = filter (\<lambda>e. RateScale \<le> en_Rate e) sel" by auto metis
  show ?case
  proof (cases d)
    case None
    then show ?thesis using d ih by (intro exI [of _ ds] exI [of _ g2] exI [of _ sel]) (auto simp: Let_def)
  next
    case (Some x)
    then show ?thesis using d ih by (intro exI [of _ "x # ds"] exI [of _ g2] exI [of _ "e # sel"]) (auto simp: Let_def)
  qed
qed simp

text \<open>
  C26: what a roll can produce. For a table whose quantities fit, every sequence of random numbers
  gives a result (the generator is never called with an argument it panics on): the drops come
  from some of the rules, in the order of the table, at most one per rule, each with its rule's
  item and a quantity within its bounds; a rule with a rate of zero or less never drops and one
  with a rate of 10000 or more always does.
\<close>

theorem roller_Roll_bounds:
  assumes "lookup tableID s = (Inr es, s1)" "list_all entry_ok es"
  shows "\<exists>drops g' sel. roller_Roll lookup None tableID (s, g) = (Inr drops, s1, g') \<and>
    sel \<in> set (subseqs es) \<and> list_all2 allowed sel drops \<and>
    filter (\<lambda>e. RateScale \<le> en_Rate e) es = filter (\<lambda>e. RateScale \<le> en_Rate e) sel"
  using roll_entries_cases [OF assms(2), of g] assms(1) by (auto simp: roller_Roll_def ApplyFilters_def)

theorem roller_Roll_bounds_witness:
  "\<exists>d g'. roller_Roll (\<lambda>_ s. (Inr [\<lparr>en_ItemID = ''gold'', en_Rate = 10000, en_Min = 5, en_Max = 9\<rparr>], s)) None ''wolf'' ((), [17, 42]) =
     (Inr [d], (), g') \<and> dr_ItemID d = ''gold'' \<and> 5 \<le> dr_Quantity d \<and> dr_Quantity d \<le> 9"
proof -
  let ?e = "\<lparr>en_ItemID = ''gold'', en_Rate = 10000, en_Min = 5, en_Max = 9\<rparr>"
  let ?l = "\<lambda>(_ :: string) (s :: unit). (Inr [?e] :: Entry list result, s)"
  have "list_all entry_ok [?e]" by (simp add: entry_ok_def in32_def)
  from roller_Roll_bounds [of ?l "''wolf''" "()" "[?e]" "()" "[17, 42]", OF _ this]
  obtain drops g' sel where r: "roller_Roll ?l None ''wolf'' ((), [17, 42]) = (Inr drops, (), g')"
    "sel \<in> set (subseqs [?e])" "list_all2 allowed sel drops" "filter (\<lambda>e. RateScale \<le> en_Rate e) [?e] = filter (\<lambda>e. RateScale \<le> en_Rate e) sel" by blast
  then have "sel = [?e]" by (auto simp: Let_def)
  with r obtain d where "drops = [d]" "allowed ?e d" by (auto simp: list_all2_Cons1)
  with r show ?thesis by (auto simp: allowed_def)
qed

subsection \<open>The tables and their cache\<close>

abbreviation "ErrLootTableNotFound \<equiv> Sentinel ''loot.ErrLootTableNotFound''"

record LootEntry =
  le_ItemDefinitionID :: string
  le_Rate :: int
  le_MinQuantity :: int
  le_MaxQuantity :: int

record LootTable =
  lt_ID :: string
  lt_Description :: string
  lt_Entries :: "LootEntry list"

record LootRow =
  lo_description :: string
  lo_entries :: json

record loot_tables = quest_tables +
  t_loot :: "(string \<times> LootRow) list"

type_synonym 'x lootdb = "'x loot_tables_scheme DB"

definition marshal_LootEntry :: "LootEntry \<Rightarrow> json" where
  "marshal_LootEntry e = JObj [(''item_definition_id'', JStr (le_ItemDefinitionID e)), (''rate'', JNum (of_int (le_Rate e))),
     (''min'', JNum (of_int (le_MinQuantity e))), (''max'', JNum (of_int (le_MaxQuantity e)))]"

definition unmarshal_LootEntry :: "json \<Rightarrow> LootEntry result" where
  "unmarshal_LootEntry j =
     res_bind (json_get ''item_definition_id'' json_string j) (\<lambda>i.
     res_bind (json_get ''rate'' (json_int in32) j) (\<lambda>r.
     res_bind (json_get ''min'' (json_int in32) j) (\<lambda>mn.
     res_bind (json_get ''max'' (json_int in32) j) (\<lambda>mx.
       Inr \<lparr>le_ItemDefinitionID = i, le_Rate = r, le_MinQuantity = mn, le_MaxQuantity = mx\<rparr>))))"

definition marshal_LootTable :: "LootTable \<Rightarrow> json" where
  "marshal_LootTable lt = JObj [(''id'', JStr (lt_ID lt)), (''description'', JStr (lt_Description lt)),
     (''entries'', JArr (map marshal_LootEntry (lt_Entries lt)))]"

definition unmarshal_LootTable :: "json \<Rightarrow> LootTable result" where
  "unmarshal_LootTable j =
     res_bind (json_get ''id'' json_string j) (\<lambda>i.
     res_bind (json_get ''description'' json_string j) (\<lambda>d.
     res_bind (json_get ''entries'' (json_array unmarshal_LootEntry) j) (\<lambda>es.
       Inr \<lparr>lt_ID = i, lt_Description = d, lt_Entries = es\<rparr>)))"

definition repo_CreateLootTable :: "LootTable \<Rightarrow> 'x lootdb \<Rightarrow> unit result \<times> 'x lootdb" where
  "repo_CreateLootTable lt = db_stmt (\<lambda>t. if map_of (t_loot t) (lt_ID lt) \<noteq> None then Inl unique_violation
     else Inr ((), t\<lparr>t_loot := t_loot t @ [(lt_ID lt, \<lparr>lo_description = lt_Description lt,
        lo_entries = JArr (map marshal_LootEntry (lt_Entries lt))\<rparr>)]\<rparr>))"

definition scan_loot :: "string \<Rightarrow> LootRow \<Rightarrow> LootTable result" where
  "scan_loot i r = res_bind (json_array unmarshal_LootEntry (lo_entries r)) (\<lambda>es.
     Inr \<lparr>lt_ID = i, lt_Description = lo_description r, lt_Entries = es\<rparr>)"

definition repo_GetLootTable :: "string \<Rightarrow> 'x lootdb \<Rightarrow> LootTable result \<times> 'x lootdb" where
  "repo_GetLootTable i =
     tx_bind (tx_map_err (\<lambda>e. if e = ErrNoRows then ErrLootTableNotFound else e) (db_stmt (\<lambda>t.
        case map_of (t_loot t) i of None \<Rightarrow> Inl ErrNoRows | Some r \<Rightarrow> Inr (r, t)))) (\<lambda>r.
     tx_return (scan_loot i r))"

definition repo_ListLootTables :: "(string \<Rightarrow> 'k :: linorder) \<Rightarrow> int \<Rightarrow> int \<Rightarrow> 'x lootdb \<Rightarrow> LootTable list result \<times> 'x lootdb" where
  "repo_ListLootTables col limit offset =
     tx_bind (db_stmt (\<lambda>t. if limit < 0 \<or> offset < 0 then Inl (Formatted [''SQLSTATE 2201W''])
        else Inr (take (nat limit) (drop (nat offset) (sort_key (\<lambda>x. col (fst x)) (t_loot t))), t))) (\<lambda>rows d.
     case fetch_rows rows d of ((got, _), d') \<Rightarrow> (scan_rows (\<lambda>(i, r). scan_loot i r) got, d'))"

text \<open>\<open>cache.Cache\<close>: a hit (\<open>Some\<close>), or a miss or an error, which the callers treat alike.\<close>

record 'c Cache =
  ca_Get :: "string \<Rightarrow> 'c \<Rightarrow> json option \<times> 'c"
  ca_Set :: "string \<Rightarrow> json \<Rightarrow> 'c \<Rightarrow> 'c"
  ca_Delete :: "string \<Rightarrow> 'c \<Rightarrow> 'c"

text \<open>\<open>cache.Noop\<close>.\<close>

definition Noop :: "unit Cache" where
  "Noop = \<lparr>ca_Get = (\<lambda>_ c. (None, c)), ca_Set = (\<lambda>_ _ c. c), ca_Delete = (\<lambda>_ c. c)\<rparr>"

definition lootTableKey :: "string \<Rightarrow> string" where
  "lootTableKey i = ''loot:table:'' @ i"

definition cached_load :: "'c Cache \<Rightarrow> string \<Rightarrow> 'x lootdb \<times> 'c \<Rightarrow> LootTable result \<times> 'x lootdb \<times> 'c" where
  "cached_load ca i w = (case repo_GetLootTable i (fst w) of
     (Inl e, d1) \<Rightarrow> (Inl e, d1, snd w)
   | (Inr lt, d1) \<Rightarrow> (Inr lt, d1, ca_Set ca (lootTableKey i) (marshal_LootTable lt) (snd w)))"

definition cached_GetLootTable :: "'c Cache \<Rightarrow> string \<Rightarrow> 'x lootdb \<times> 'c \<Rightarrow> LootTable result \<times> 'x lootdb \<times> 'c" where
  "cached_GetLootTable ca i w = (case ca_Get ca (lootTableKey i) (snd w) of
     (Some b, c1) \<Rightarrow> (case unmarshal_LootTable b of
        Inr lt \<Rightarrow> (Inr lt, fst w, c1)
      | Inl _ \<Rightarrow> cached_load ca i (fst w, c1))
   | (None, c1) \<Rightarrow> cached_load ca i (fst w, c1))"

definition cached_CreateLootTable :: "'c Cache \<Rightarrow> LootTable \<Rightarrow> 'x lootdb \<times> 'c \<Rightarrow> unit result \<times> 'x lootdb \<times> 'c" where
  "cached_CreateLootTable ca lt w = (case repo_CreateLootTable lt (fst w) of
     (Inl e, d1) \<Rightarrow> (Inl e, d1, snd w)
   | (Inr _, d1) \<Rightarrow> (Inr (), d1, ca_Delete ca (lootTableKey (lt_ID lt)) (snd w)))"

subsection \<open>The service\<close>

record LootRoll =
  lr_TableID :: string
  lr_Items :: "DroppedItem list"

definition toEntries :: "LootEntry list \<Rightarrow> Entry list" where
  "toEntries es = map (\<lambda>e. \<lparr>en_ItemID = le_ItemDefinitionID e, en_Rate = le_Rate e, en_Min = le_MinQuantity e,
     en_Max = le_MaxQuantity e\<rparr>) es"

text \<open>\<open>entriesFor\<close>: the stored table, or the embedded one when reading it fails.\<close>

definition entriesFor :: "(string \<rightharpoonup> LootEntry list) \<Rightarrow> 'c Cache \<Rightarrow> string \<Rightarrow> 'x lootdb \<times> 'c \<Rightarrow> Entry list result \<times> 'x lootdb \<times> 'c" where
  "entriesFor fallbackTables ca tableID w = (case cached_GetLootTable ca tableID w of
     (Inr lt, w1) \<Rightarrow> (Inr (toEntries (lt_Entries lt)), w1)
   | (Inl e, w1) \<Rightarrow> (case fallbackTables tableID of
        None \<Rightarrow> (Inl e, w1) | Some es \<Rightarrow> (Inr (toEntries es), w1)))"

definition RollLoot :: "(string \<rightharpoonup> LootEntry list) \<Rightarrow> 'c Cache \<Rightarrow> (LootRoll filter_any, unit) Hooks option \<Rightarrow> string \<Rightarrow>
    ('x lootdb \<times> 'c) \<times> rng \<Rightarrow> DroppedItem list result \<times> ('x lootdb \<times> 'c) \<times> rng" where
  "RollLoot fallbackTables ca hk tableID w = (case roller_Roll (entriesFor fallbackTables ca) None tableID w of
     (Inl e, w1) \<Rightarrow> (Inl e, w1)
   | (Inr drops, w1) \<Rightarrow> (Inr (lr_Items (ApplyFilters hk ''loot.roll'' \<lparr>lr_TableID = tableID,
        lr_Items = map (\<lambda>d. \<lparr>di_ItemDefinitionID = dr_ItemID d, di_Quantity = dr_Quantity d\<rparr>) drops\<rparr>)), w1))"

subsection \<open>The kill reward\<close>

datatype LootEvent = LootDropped int string "DroppedItem list"

text \<open>The collaborators of \<open>killreward.Service\<close>, each of which may be nil, over a world \<open>'w\<close>.\<close>

record 'w KillRewardSvc =
  kr_creatures :: "Resolver option"
  kr_charSvc :: "(int \<Rightarrow> int \<Rightarrow> int \<Rightarrow> 'w \<Rightarrow> 'w) option"
  kr_questSvc :: "(int \<Rightarrow> string \<Rightarrow> string \<Rightarrow> int \<Rightarrow> 'w \<Rightarrow> 'w) option"
  kr_lootSvc :: "(string \<Rightarrow> 'w \<Rightarrow> DroppedItem list result \<times> 'w) option"
  kr_inventorySvc :: "(InventoryItem \<Rightarrow> 'w \<Rightarrow> 'w) option"
  kr_eventBus :: bool

definition drop_item :: "int \<Rightarrow> DroppedItem \<Rightarrow> InventoryItem" where
  "drop_item killerID drp = \<lparr>ii_ID = 0, ii_CharacterID = wrap32 killerID, ii_SlotIndex = 0,
     ii_ItemDefinitionID = di_ItemDefinitionID drp, ii_Quantity = di_Quantity drp, ii_Durability = 100,
     ii_CustomModifiers = [], ii_CreatedAt = 0, ii_UpdatedAt = 0, ii_ItemDetails = None\<rparr>"

definition apply_drop :: "'w KillRewardSvc \<Rightarrow> int \<Rightarrow> DroppedItem \<Rightarrow> 'w \<Rightarrow> 'w" where
  "apply_drop s killerID drp w =
     (if di_ItemDefinitionID drp = ''gold''
      then (case kr_charSvc s of None \<Rightarrow> w | Some addRewards \<Rightarrow> addRewards killerID (di_Quantity drp) 0 w)
      else (case kr_inventorySvc s of None \<Rightarrow> w | Some addItem \<Rightarrow> addItem (drop_item killerID drp) w))"

definition victim_tags :: "'w KillRewardSvc \<Rightarrow> int \<Rightarrow> string \<times> string" where
  "victim_tags s victimID = (case kr_creatures s of None \<Rightarrow> ([], [])
     | Some resolve \<Rightarrow> (case resolve victimID of Inr (Some v) \<Rightarrow> (cr_LootTableID v, cr_QuestTag v) | _ \<Rightarrow> ([], [])))"

definition RewardKill :: "'w KillRewardSvc \<Rightarrow> int \<Rightarrow> int \<Rightarrow> 'w \<Rightarrow> LootEvent list \<Rightarrow> DroppedItem list \<times> 'w \<times> LootEvent list" where
  "RewardKill s killerID victimID w tr =
     (case victim_tags s victimID of (tableID, questTag) \<Rightarrow>
      let w1 = (case kr_questSvc s of None \<Rightarrow> w
        | Some progress \<Rightarrow> if questTag \<noteq> [] then progress (wrap32 killerID) ''KILL_MOB'' questTag 1 w else w) in
      case kr_lootSvc s of None \<Rightarrow> ([], w1, tr)
      | Some rollLoot \<Rightarrow> if tableID = [] then ([], w1, tr)
         else (case rollLoot tableID w1 of
             (Inl _, w2) \<Rightarrow> ([], w2, tr)
           | (Inr drops, w2) \<Rightarrow> (drops, fold (apply_drop s killerID) drops w2,
               if drops \<noteq> [] \<and> kr_eventBus s then tr @ [LootDropped killerID tableID drops] else tr)))"

subsection \<open>The cache is transparent\<close>

text \<open>
  What a cache promises: a hit returns what \<open>content\<close> says, and no operation invents an entry or
  changes one other than by \<open>Set\<close>. It may lose any entry at any time.
\<close>

locale cache_contract =
  fixes ca :: "'c Cache" and content :: "'c \<Rightarrow> string \<rightharpoonup> json"
  assumes get_hit: "ca_Get ca k c = (Some v, c') \<Longrightarrow> content c k = Some v"
    and get_keeps: "ca_Get ca k c = (r, c') \<Longrightarrow> content c' \<subseteq>\<^sub>m content c"
    and set_sets: "content (ca_Set ca k v c) \<subseteq>\<^sub>m (content c)(k \<mapsto> v)"
    and delete_keeps: "content (ca_Delete ca k c) \<subseteq>\<^sub>m content c"

interpretation noop: cache_contract Noop "\<lambda>_. Map.empty"
  by unfold_locales (auto simp: Noop_def)

text \<open>Entries whose numbers are of their Go type: they survive JSON.\<close>

definition loot_entry_ok :: "LootEntry \<Rightarrow> bool" where
  "loot_entry_ok e \<longleftrightarrow> in32 (le_Rate e) \<and> in32 (le_MinQuantity e) \<and> in32 (le_MaxQuantity e)"

lemma LootEntry_roundtrip: "loot_entry_ok e \<Longrightarrow> unmarshal_LootEntry (marshal_LootEntry e) = Inr e"
  by (cases e) (simp add: loot_entry_ok_def marshal_LootEntry_def unmarshal_LootEntry_def json_string_def)

lemma LootTable_roundtrip:
  assumes "list_all loot_entry_ok (lt_Entries lt)"
  shows "unmarshal_LootTable (marshal_LootTable lt) = Inr lt"
proof -
  have "json_list unmarshal_LootEntry (map marshal_LootEntry (lt_Entries lt)) = Inr (lt_Entries lt)"
    by (rule json_list_map) (use assms in \<open>auto simp: list_all_iff LootEntry_roundtrip\<close>)
  then show ?thesis by (cases lt) (simp add: marshal_LootTable_def unmarshal_LootTable_def json_array_def json_string_def)
qed

lemma unmarshal_LootEntry_ok: "unmarshal_LootEntry j = Inr e \<Longrightarrow> loot_entry_ok e"
  by (auto simp: unmarshal_LootEntry_def loot_entry_ok_def json_get_def json_int_def res_bind_def in32_def
      split: sum.splits json.splits if_splits)

lemma unmarshal_entries_ok: "json_array unmarshal_LootEntry j = Inr es \<Longrightarrow> list_all loot_entry_ok es"
proof -
  have "json_list unmarshal_LootEntry js = Inr es \<Longrightarrow> list_all loot_entry_ok es" for js es
    by (induction js arbitrary: es) (auto simp: unmarshal_LootEntry_ok split: sum.splits)
  then show "json_array unmarshal_LootEntry j = Inr es \<Longrightarrow> ?thesis" by (auto simp: json_array_def split: json.splits)
qed

text \<open>Every cached entry under a table's key decodes to the stored table.\<close>

definition stored_table :: "'x lootdb \<Rightarrow> string \<Rightarrow> LootTable option" where
  "stored_table d i = (case map_of (t_loot (db_tables d)) i of None \<Rightarrow> None
     | Some r \<Rightarrow> (case scan_loot i r of Inl _ \<Rightarrow> None | Inr lt \<Rightarrow> Some lt))"

definition coherent :: "('c \<Rightarrow> string \<rightharpoonup> json) \<Rightarrow> 'x lootdb \<times> 'c \<Rightarrow> bool" where
  "coherent content w \<longleftrightarrow> (\<forall>i b lt. content (snd w) (lootTableKey i) = Some b \<longrightarrow> unmarshal_LootTable b = Inr lt \<longrightarrow>
     stored_table (fst w) i = Some lt)"

lemma lootTableKey_inj: "lootTableKey i = lootTableKey j \<longleftrightarrow> i = j"
  by (simp add: lootTableKey_def)

lemma coherent_le:
  "coherent content (d, c) \<Longrightarrow> content c' \<subseteq>\<^sub>m content c \<Longrightarrow> stored_table d \<subseteq>\<^sub>m stored_table d' \<Longrightarrow> coherent content (d', c')"
  unfolding coherent_def map_le_def by (metis domI fst_conv snd_conv)

lemma repo_GetLootTable_Inr:
  assumes "repo_GetLootTable i d = (Inr lt, d')"
  shows "stored_table d i = Some lt \<and> list_all loot_entry_ok (lt_Entries lt)"
proof -
  from assms obtain r where r: "map_of (t_loot (db_tables d)) i = Some r" "scan_loot i r = Inr lt"
    by (auto simp: repo_GetLootTable_def elim!: tx_bind_Inr dest!: db_stmt_Inr split: option.splits)
  moreover have "list_all loot_entry_ok (lt_Entries lt)"
    using r(2) by (auto simp: scan_loot_def res_bind_def unmarshal_entries_ok split: sum.splits)
  ultimately show ?thesis by (simp add: stored_table_def)
qed

lemma reads_GetLootTable: "reads (repo_GetLootTable i)"
  unfolding repo_GetLootTable_def by (intro reads_bind reads_map_err reads_stmt reads_return) (auto split: option.splits)

lemma stored_table_cong: "db_tables d = db_tables d' \<Longrightarrow> stored_table d = stored_table d'"
  by (simp add: stored_table_def fun_eq_iff)

context cache_contract
begin

lemma cached_load_ok:
  assumes l: "cached_load ca i (d, c) = (r, d', c')" and co: "coherent content (d, c)"
  shows "coherent content (d', c') \<and> stored_table d' = stored_table d \<and> db_tables d' = db_tables d \<and>
    (case r of Inr lt \<Rightarrow> stored_table d i = Some lt | Inl e \<Rightarrow> fst (repo_GetLootTable i d) = Inl e)"
proof -
  obtain z d1 where z: "repo_GetLootTable i d = (z, d1)" by fastforce
  have t: "db_tables d1 = db_tables d" using readsD [OF reads_GetLootTable z] .
  note st = stored_table_cong [OF t]
  show ?thesis
  proof (cases z)
    case (Inl e)
    then have "r = Inl e" "d' = d1" "c' = c" using l z by (auto simp: cached_load_def)
    then show ?thesis using co st t z Inl by (simp add: coherent_def)
  next
    case (Inr lt)
    then have r: "r = Inr lt" "d' = d1" "c' = ca_Set ca (lootTableKey i) (marshal_LootTable lt) c"
      using l z by (auto simp: cached_load_def)
    have lt: "stored_table d i = Some lt" "list_all loot_entry_ok (lt_Entries lt)"
      using repo_GetLootTable_Inr z Inr by blast+
    have "coherent content (d', c')"
      unfolding coherent_def fst_conv snd_conv
    proof (intro allI impI)
      fix j b x
      assume a: "content c' (lootTableKey j) = Some b" "unmarshal_LootTable b = Inr x"
      from a(1) set_sets have "((content c)(lootTableKey i \<mapsto> marshal_LootTable lt)) (lootTableKey j) = Some b"
        unfolding r(3) map_le_def by (metis domI)
      then show "stored_table d' j = Some x"
        using a(2) co lt LootTable_roundtrip r(2) st
        by (auto simp: lootTableKey_inj coherent_def split: if_splits)
    qed
    then show ?thesis using r lt st t by simp
  qed
qed

lemma cached_GetLootTable_ok:
  assumes g: "cached_GetLootTable ca i (d, c) = (r, d', c')" and co: "coherent content (d, c)"
  shows "coherent content (d', c') \<and> db_tables d' = db_tables d \<and>
    (case r of Inr lt \<Rightarrow> stored_table d i = Some lt | Inl e \<Rightarrow> fst (repo_GetLootTable i d) = Inl e)"
proof -
  obtain b c1 where b: "ca_Get ca (lootTableKey i) c = (b, c1)" by fastforce
  have co1: "coherent content (d, c1)" by (rule coherent_le [OF co get_keeps [OF b]]) simp
  show ?thesis
  proof (cases "\<exists>v lt. b = Some v \<and> unmarshal_LootTable v = Inr lt")
    case True
    then obtain v lt where v: "b = Some v" "unmarshal_LootTable v = Inr lt" by blast
    with g b have "r = Inr lt" "d' = d" "c' = c1" by (auto simp: cached_GetLootTable_def)
    then show ?thesis using co1 co get_hit [OF b [unfolded v(1)]] v(2) by (auto simp: coherent_def)
  next
    case False
    then have "cached_load ca i (d, c1) = (r, d', c')"
      using g b by (auto simp: cached_GetLootTable_def split: option.splits sum.splits)
    from cached_load_ok [OF this co1] show ?thesis by blast
  qed
qed

lemma cached_CreateLootTable_ok:
  assumes g: "cached_CreateLootTable ca lt (d, c) = (r, d', c')" and co: "coherent content (d, c)"
  shows "coherent content (d', c') \<and> r = fst (repo_CreateLootTable lt d) \<and> d' = snd (repo_CreateLootTable lt d)"
proof -
  obtain z d1 where z: "repo_CreateLootTable lt d = (z, d1)" by fastforce
  have st: "stored_table d \<subseteq>\<^sub>m stored_table d1"
  proof (cases z)
    case (Inl e)
    then have "db_tables d1 = db_tables d" using z by (auto simp: repo_CreateLootTable_def dest: db_stmt_Inl)
    then show ?thesis using stored_table_cong by (metis map_le_refl)
  next
    case (Inr u)
    from db_stmt_Inr [OF z [unfolded repo_CreateLootTable_def Inr]]
    have n: "map_of (t_loot (db_tables d)) (lt_ID lt) = None"
      and t: "t_loot (db_tables d1) = t_loot (db_tables d) @ [(lt_ID lt, \<lparr>lo_description = lt_Description lt,
        lo_entries = JArr (map marshal_LootEntry (lt_Entries lt))\<rparr>)]"
      by (auto split: if_splits) (metis loot_tables.select_convs(1) loot_tables.surjective loot_tables.update_convs(1))
    show ?thesis unfolding map_le_def
    proof
      fix i
      assume "i \<in> dom (stored_table d)"
      then obtain row where "map_of (t_loot (db_tables d)) i = Some row" by (auto simp: stored_table_def split: option.splits)
      then show "stored_table d i = stored_table d1 i" by (simp add: stored_table_def t)
    qed
  qed
  have "c' = c \<or> c' = ca_Delete ca (lootTableKey (lt_ID lt)) c" and d: "d' = d1" "r = z"
    using g z by (auto simp: cached_CreateLootTable_def split: sum.splits)
  then have "content c' \<subseteq>\<^sub>m content c" using delete_keeps by auto
  from coherent_le [OF co this st] d z show ?thesis by simp
qed

end

text \<open>Any sequence of reads and creations through the cached repository.\<close>

datatype LootOp = LGet string | LCreate LootTable

fun loot_step :: "'c Cache \<Rightarrow> LootOp \<Rightarrow> 'x lootdb \<times> 'c \<Rightarrow> 'x lootdb \<times> 'c" where
  "loot_step ca (LGet i) w = snd (cached_GetLootTable ca i w)"
| "loot_step ca (LCreate lt) w = snd (cached_CreateLootTable ca lt w)"

context cache_contract
begin

lemma loot_step_coherent:
  assumes "coherent content w"
  shows "coherent content (loot_step ca op w)"
proof (cases op)
  case (LGet i)
  obtain r d' c' where g: "cached_GetLootTable ca i (fst w, snd w) = (r, d', c')" by (metis prod_cases3)
  from cached_GetLootTable_ok [OF g] assms LGet g show ?thesis by simp
next
  case (LCreate lt)
  obtain r d' c' where g: "cached_CreateLootTable ca lt (fst w, snd w) = (r, d', c')" by (metis prod_cases3)
  have "coherent content (d', c')" by (rule conjunct1 [OF cached_CreateLootTable_ok [OF g]]) (simp add: assms)
  then show ?thesis using LCreate g by simp
qed

lemma loot_run_coherent: "coherent content w \<Longrightarrow> coherent content (fold (loot_step ca) ops w)"
  by (induction ops arbitrary: w) (simp_all add: loot_step_coherent)

end

text \<open>
  C27: the loot cache is transparent. Behind any cache that keeps its contract (it may lose
  entries, fail, or be the \<open>Noop\<close> cache), after any sequence of reads and creations a read of a
  table returns exactly the stored table, or an error exactly where the repository without the
  cache returns that error; it never returns a stale or a missing definition from the cache.
\<close>

theorem cached_loot_transparent:
  assumes "cache_contract ca content" "coherent content w"
    and "cached_GetLootTable ca i (fold (loot_step ca) ops w) = (r, d', c')"
  shows "case r of Inr lt \<Rightarrow> stored_table (fst (fold (loot_step ca) ops w)) i = Some lt
    | Inl e \<Rightarrow> fst (repo_GetLootTable i (fst (fold (loot_step ca) ops w))) = Inl e"
  using cache_contract.cached_GetLootTable_ok [OF assms(1), of i "fst (fold (loot_step ca) ops w)" "snd (fold (loot_step ca) ops w)"]
    cache_contract.loot_run_coherent [OF assms(1,2), of ops] assms(3) by simp

definition demo_cache :: "(string \<times> json) list Cache" where
  "demo_cache = \<lparr>ca_Get = (\<lambda>k c. (map_of c k, c)), ca_Set = AList.update, ca_Delete = AList.delete\<rparr>"

definition demo_lootdb :: "loot_tables DB" where
  "demo_lootdb = \<lparr>db_tables = \<lparr>t_outbox = [], t_outbox_seq = 0, t_event_log = [], t_characters = [], t_characters_seq = 1,
     t_character_stats = [], t_items = [], t_inventories = [], t_inventories_seq = 0, t_quests = [], t_char_quests = [],
     t_loot = []\<rparr>, db_faults = []\<rparr>"

theorem cached_loot_transparent_witness:
  "let lt = \<lparr>lt_ID = ''wolf'', lt_Description = [], lt_Entries = [\<lparr>le_ItemDefinitionID = ''gold'', le_Rate = 5000,
       le_MinQuantity = 1, le_MaxQuantity = 3\<rparr>]\<rparr>;
     w = fold (loot_step demo_cache) [LCreate lt, LGet ''wolf''] (demo_lootdb, []) in
   \<exists>d' c'. cached_GetLootTable demo_cache ''wolf'' w = (Inr lt, d', c') \<and> snd w \<noteq> [] \<and> stored_table (fst w) ''wolf'' = Some lt"
proof -
  let ?lt = "\<lparr>lt_ID = ''wolf'', lt_Description = [], lt_Entries = [\<lparr>le_ItemDefinitionID = ''gold'', le_Rate = 5000,
       le_MinQuantity = 1, le_MaxQuantity = 3\<rparr>]\<rparr>"
  let ?w = "fold (loot_step demo_cache) [LCreate ?lt, LGet ''wolf''] (demo_lootdb, [])"
  have c: "cache_contract demo_cache map_of"
    by unfold_locales (auto simp: demo_cache_def map_le_def)
  have co: "coherent map_of (demo_lootdb, [])" by (simp add: coherent_def)
  obtain r d' c' where g: "cached_GetLootTable demo_cache ''wolf'' ?w = (r, d', c')" by (metis prod_cases3)
  have "case cached_GetLootTable demo_cache ''wolf'' ?w of (r, _) \<Rightarrow> r = Inr ?lt" "snd ?w \<noteq> []" by code_simp+
  with g have "r = Inr ?lt" "snd ?w \<noteq> []" by simp_all
  with cached_loot_transparent [OF c co g] g show ?thesis by (simp add: Let_def)
qed

end
