(* ===== verification/Auth.thy ===== *)
theory Auth
  imports Database Go_Strings
begin

section \<open>Accounts and sessions: backend/game/auth\<close>

text \<open>
  The login limiter, the two refresh-token stores, the user repository and the service over them.
  bcrypt, SHA-256 and the JWT library are not part of the repository: the service takes them as
  parameters, and so do the definitions. A call of the service reads the clock at several places;
  \<open>clk k\<close> is its reading number \<open>k\<close>. The random source is the list of outcomes it will
  deliver. Each call of the limiter and of a store runs under one mutex or is one statement.
\<close>

subsection \<open>The login limiter: loginlimiter.go\<close>

text \<open>\<open>lockedUntil\<close> is \<open>None\<close> while it is the zero time, which lies before every reading.\<close>

record loginAttempt =
  la_failures :: int
  la_windowStart :: int
  la_lockedUntil :: "int option"

record loginLimiter =
  ll_entries :: "string \<rightharpoonup> loginAttempt"
  ll_max :: int
  ll_lockout :: int

definition newLoginLimiter :: "int \<Rightarrow> int \<Rightarrow> loginLimiter" where
  "newLoginLimiter maxFailures lockout = \<lparr>ll_entries = Map.empty, ll_max = maxFailures, ll_lockout = lockout\<rparr>"

definition attempt_locked :: "int \<Rightarrow> loginAttempt \<Rightarrow> bool" where
  "attempt_locked now e = (case la_lockedUntil e of None \<Rightarrow> False | Some t \<Rightarrow> now < t)"

definition limiter_locked :: "int \<Rightarrow> string \<Rightarrow> loginLimiter \<Rightarrow> bool" where
  "limiter_locked now key l = (case ll_entries l key of None \<Rightarrow> False | Some e \<Rightarrow> attempt_locked now e)"

definition fresh_attempt :: "int \<Rightarrow> loginAttempt" where
  "fresh_attempt now = \<lparr>la_failures = 1, la_windowStart = now, la_lockedUntil = None\<rparr>"

definition count_failure :: "loginLimiter \<Rightarrow> int \<Rightarrow> loginAttempt \<Rightarrow> loginAttempt" where
  "count_failure l now e0 = (let e = e0\<lparr>la_failures := wrap64 (la_failures e0 + 1)\<rparr> in
     if la_failures e \<ge> ll_max l then e\<lparr>la_lockedUntil := Some (now + ll_lockout l)\<rparr> else e)"

definition limiter_fail :: "int \<Rightarrow> string \<Rightarrow> loginLimiter \<Rightarrow> loginLimiter" where
  "limiter_fail now key l = l\<lparr>ll_entries := (ll_entries l)(key \<mapsto>
     (case ll_entries l key of
        None \<Rightarrow> fresh_attempt now
      | Some e \<Rightarrow> if now - la_windowStart e > ll_lockout l then fresh_attempt now else count_failure l now e))\<rparr>"

definition limiter_success :: "string \<Rightarrow> loginLimiter \<Rightarrow> loginLimiter" where
  "limiter_success key l = l\<lparr>ll_entries := (ll_entries l)(key := None)\<rparr>"

text \<open>One pass of the background loop.\<close>

definition sweep_attempts :: "int \<Rightarrow> loginLimiter \<Rightarrow> loginLimiter" where
  "sweep_attempts now l = l\<lparr>ll_entries := (\<lambda>k. case ll_entries l k of None \<Rightarrow> None
     | Some e \<Rightarrow> if (case la_lockedUntil e of None \<Rightarrow> True | Some t \<Rightarrow> t < now) \<and> now - la_windowStart e > ll_lockout l
               then None else Some e)\<rparr>"

definition defaultLoginMaxFailures :: int where "defaultLoginMaxFailures = 5"

definition defaultLoginLockout :: int where "defaultLoginLockout = 15 * 60 * 10 ^ 9"

subsection \<open>Users and tokens: user.go, repository.go, refresh.go\<close>

abbreviation "ErrUserAlreadyExists \<equiv> Sentinel ''auth.ErrUserAlreadyExists''"
abbreviation "ErrUserNotFound \<equiv> Sentinel ''auth.ErrUserNotFound''"
abbreviation "ErrInvalidCredentials \<equiv> Sentinel ''auth.ErrInvalidCredentials''"
abbreviation "ErrTooManyAttempts \<equiv> Sentinel ''auth.ErrTooManyAttempts''"
abbreviation "ErrInvalidRefreshToken \<equiv> Sentinel ''auth.ErrInvalidRefreshToken''"
abbreviation "UniqueViolation \<equiv> Sentinel ''pgconn.23505''"

abbreviation "RolePlayer \<equiv> ''player''"
abbreviation "RoleAdmin \<equiv> ''admin''"

record User =
  us_ID :: int
  us_Username :: string
  us_Email :: string
  us_PasswordHash :: string
  us_Role :: string
  us_CreatedAt :: int
  us_UpdatedAt :: int

record memRefresh =
  mr_userID :: int
  mr_expiresAt :: int

record auth_tables =
  t_users :: "User list"
  t_users_seq :: int
  t_refresh_tokens :: "(string \<times> memRefresh) list"

type_synonym authdb = "auth_tables DB"

text \<open>The columns \<open>username\<close> and \<open>email\<close> are unique; the role of a new row is the column's default.\<close>

definition users_Create :: "int \<Rightarrow> User \<Rightarrow> authdb \<Rightarrow> User result \<times> authdb" where
  "users_Create now user = tx_map_err (\<lambda>e. if e = UniqueViolation then ErrUserAlreadyExists else e) (db_stmt (\<lambda>t.
     if list_ex (\<lambda>u. us_Username u = us_Username user \<or> us_Email u = us_Email user) (t_users t) then Inl UniqueViolation
     else let i = t_users_seq t + 1; stored = user\<lparr>us_ID := i, us_CreatedAt := now, us_UpdatedAt := now\<rparr> in
       Inr (stored, t\<lparr>t_users_seq := i, t_users := t_users t @ [stored\<lparr>us_Role := RolePlayer\<rparr>]\<rparr>)))"

definition select_user :: "(User \<Rightarrow> bool) \<Rightarrow> authdb \<Rightarrow> User result \<times> authdb" where
  "select_user P = tx_map_err (\<lambda>e. if e = ErrNoRows then ErrUserNotFound else e) (db_stmt (\<lambda>t.
     case find P (t_users t) of None \<Rightarrow> Inl ErrNoRows | Some u \<Rightarrow> Inr (u, t)))"

definition users_GetByUsername :: "string \<Rightarrow> authdb \<Rightarrow> User result \<times> authdb" where
  "users_GetByUsername username = select_user (\<lambda>u. us_Username u = username)"

definition users_GetByID :: "int \<Rightarrow> authdb \<Rightarrow> User result \<times> authdb" where
  "users_GetByID i = select_user (\<lambda>u. us_ID u = i)"

definition users_GetByEmail :: "string \<Rightarrow> authdb \<Rightarrow> User result \<times> authdb" where
  "users_GetByEmail email = select_user (\<lambda>u. us_Email u = email)"

text \<open>What the service works on: its limiter, the tokens of the in-memory store, the database.\<close>

record auth_world =
  aw_limiter :: loginLimiter
  aw_mem :: "string \<rightharpoonup> memRefresh"
  aw_db :: authdb
  aw_rand :: "nat list result list"

definition on_db :: "(authdb \<Rightarrow> 'a \<times> authdb) \<Rightarrow> auth_world \<Rightarrow> 'a \<times> auth_world" where
  "on_db m w = (case m (aw_db w) of (a, d) \<Rightarrow> (a, w\<lparr>aw_db := d\<rparr>))"

record RefreshStore =
  rs_Save :: "string \<Rightarrow> int \<Rightarrow> int \<Rightarrow> auth_world \<Rightarrow> unit result \<times> auth_world"
  rs_Consume :: "int \<Rightarrow> string \<Rightarrow> auth_world \<Rightarrow> int result \<times> auth_world"
  rs_Delete :: "string \<Rightarrow> auth_world \<Rightarrow> unit result \<times> auth_world"

definition tokens_mem_Save :: "string \<Rightarrow> int \<Rightarrow> int \<Rightarrow> auth_world \<Rightarrow> unit result \<times> auth_world" where
  "tokens_mem_Save h userID expiresAt w =
     (Inr (), w\<lparr>aw_mem := (aw_mem w)(h \<mapsto> \<lparr>mr_userID = userID, mr_expiresAt = expiresAt\<rparr>)\<rparr>)"

definition tokens_mem_Consume :: "int \<Rightarrow> string \<Rightarrow> auth_world \<Rightarrow> int result \<times> auth_world" where
  "tokens_mem_Consume now h w = (let w' = w\<lparr>aw_mem := (aw_mem w)(h := None)\<rparr> in
     case aw_mem w h of
       None \<Rightarrow> (Inl ErrInvalidRefreshToken, w')
     | Some t \<Rightarrow> if mr_expiresAt t < now then (Inl ErrInvalidRefreshToken, w') else (Inr (mr_userID t), w'))"

definition tokens_mem_Delete :: "string \<Rightarrow> auth_world \<Rightarrow> unit result \<times> auth_world" where
  "tokens_mem_Delete h w = (Inr (), w\<lparr>aw_mem := (aw_mem w)(h := None)\<rparr>)"

definition memRefreshStore :: RefreshStore where
  "memRefreshStore = \<lparr>rs_Save = tokens_mem_Save, rs_Consume = tokens_mem_Consume, rs_Delete = tokens_mem_Delete\<rparr>"

text \<open>The primary key and the foreign key of the table reject an insertion.\<close>

definition tokens_pg_Save :: "string \<Rightarrow> int \<Rightarrow> int \<Rightarrow> auth_world \<Rightarrow> unit result \<times> auth_world" where
  "tokens_pg_Save h userID expiresAt = on_db (db_stmt (\<lambda>t.
     if map_of (t_refresh_tokens t) h \<noteq> None then Inl UniqueViolation
     else if \<not> list_ex (\<lambda>u. us_ID u = userID) (t_users t) then Inl (Sentinel ''pgconn.23503'')
     else Inr ((), t\<lparr>t_refresh_tokens := AList.update h \<lparr>mr_userID = userID, mr_expiresAt = expiresAt\<rparr> (t_refresh_tokens t)\<rparr>)))"

definition tokens_pg_Consume :: "int \<Rightarrow> string \<Rightarrow> auth_world \<Rightarrow> int result \<times> auth_world" where
  "tokens_pg_Consume now h = on_db (tx_map_err (\<lambda>e. if e = ErrNoRows then ErrInvalidRefreshToken else e) (db_stmt (\<lambda>t.
     case map_of (t_refresh_tokens t) h of
       None \<Rightarrow> Inl ErrNoRows
     | Some r \<Rightarrow> if mr_expiresAt r > now then Inr (mr_userID r, t\<lparr>t_refresh_tokens := AList.delete h (t_refresh_tokens t)\<rparr>)
                else Inl ErrNoRows)))"

definition tokens_pg_Delete :: "string \<Rightarrow> auth_world \<Rightarrow> unit result \<times> auth_world" where
  "tokens_pg_Delete h = on_db (db_stmt (\<lambda>t. Inr ((), t\<lparr>t_refresh_tokens := AList.delete h (t_refresh_tokens t)\<rparr>)))"

definition pgRefreshStore :: RefreshStore where
  "pgRefreshStore = \<lparr>rs_Save = tokens_pg_Save, rs_Consume = tokens_pg_Consume, rs_Delete = tokens_pg_Delete\<rparr>"

subsection \<open>The service: service.go\<close>

record Claims =
  cl_UserID :: int
  cl_Username :: string
  cl_Role :: string
  cl_ExpiresAt :: int
  cl_IssuedAt :: int

record TokenPair =
  tp_AccessToken :: string
  tp_RefreshToken :: string
  tp_ExpiresIn :: int

text \<open>
  The libraries: whether a password matches a bcrypt hash, the signature of claims with a secret,
  the SHA-256 digest.
\<close>

record authService =
  as_Compare :: "string \<Rightarrow> string \<Rightarrow> bool"
  as_Sign :: "string \<Rightarrow> Claims \<Rightarrow> string result"
  as_Sum256 :: "string \<Rightarrow> nat list"
  as_jwtSecret :: string
  as_refresh :: RefreshStore
  as_accessTTL :: int
  as_refreshTTL :: int

definition defaultAccessTTL :: int where "defaultAccessTTL = 15 * 60 * 10 ^ 9"

definition defaultRefreshTTL :: int where "defaultRefreshTTL = 30 * 24 * 3600 * 10 ^ 9"

definition WithRefreshStore :: "RefreshStore \<Rightarrow> authService \<Rightarrow> authService" where
  "WithRefreshStore rs s = s\<lparr>as_refresh := rs\<rparr>"

definition WithTokenTTLs :: "int \<Rightarrow> int \<Rightarrow> authService \<Rightarrow> authService" where
  "WithTokenTTLs access refresh s0 =
     (let s = (if access > 0 then s0\<lparr>as_accessTTL := access\<rparr> else s0) in
      if refresh > 0 then s\<lparr>as_refreshTTL := refresh\<rparr> else s)"

text \<open>The service and the limiter it starts with.\<close>

definition NewAuthService :: "(string \<Rightarrow> string \<Rightarrow> bool) \<Rightarrow> (string \<Rightarrow> Claims \<Rightarrow> string result) \<Rightarrow> (string \<Rightarrow> nat list) \<Rightarrow>
    string \<Rightarrow> (authService \<Rightarrow> authService) list \<Rightarrow> authService \<times> loginLimiter" where
  "NewAuthService cmp sign sum256 jwtSecret opts =
     (fold (\<lambda>opt s. opt s) opts \<lparr>as_Compare = cmp, as_Sign = sign, as_Sum256 = sum256, as_jwtSecret = jwtSecret,
        as_refresh = memRefreshStore, as_accessTTL = defaultAccessTTL, as_refreshTTL = defaultRefreshTTL\<rparr>,
      newLoginLimiter defaultLoginMaxFailures defaultLoginLockout)"

definition hashToken :: "authService \<Rightarrow> string \<Rightarrow> string" where
  "hashToken s raw = EncodeToString (as_Sum256 s raw)"

text \<open>\<open>rand.Read\<close>; a source with nothing left fails.\<close>

definition newRefreshToken :: "authService \<Rightarrow> auth_world \<Rightarrow> (string \<times> string) result \<times> auth_world" where
  "newRefreshToken s w = (case aw_rand w of
     [] \<Rightarrow> (Inl (IOErr 0), w)
   | Inl e # rs \<Rightarrow> (Inl e, w\<lparr>aw_rand := rs\<rparr>)
   | Inr b # rs \<Rightarrow> (let raw = EncodeToString b in (Inr (raw, hashToken s raw), w\<lparr>aw_rand := rs\<rparr>)))"

text \<open>\<open>int64(ttl.Seconds())\<close> is the whole seconds of the lifetime.\<close>

definition issueTokens :: "authService \<Rightarrow> (nat \<Rightarrow> int) \<Rightarrow> User \<Rightarrow> auth_world \<Rightarrow> TokenPair result \<times> auth_world" where
  "issueTokens s clk user w =
     (let role = (if us_Role user = [] then RolePlayer else us_Role user);
          claims = \<lparr>cl_UserID = us_ID user, cl_Username = us_Username user, cl_Role = role,
                    cl_ExpiresAt = clk 2 + as_accessTTL s, cl_IssuedAt = clk 3\<rparr> in
      case as_Sign s (as_jwtSecret s) claims of
        Inl e \<Rightarrow> (Inl e, w)
      | Inr accessToken \<Rightarrow> (case newRefreshToken s w of
          (Inl e, w1) \<Rightarrow> (Inl e, w1)
        | (Inr (rawRefresh, refreshHash), w1) \<Rightarrow>
            (case rs_Save (as_refresh s) refreshHash (us_ID user) (clk 4 + as_refreshTTL s) w1 of
               (Inl e, w2) \<Rightarrow> (Inl e, w2)
             | (Inr _, w2) \<Rightarrow> (Inr \<lparr>tp_AccessToken = accessToken, tp_RefreshToken = rawRefresh,
                                   tp_ExpiresIn = as_accessTTL s div 10 ^ 9\<rparr>, w2))))"

text \<open>\<open>gen\<close> is what \<open>bcrypt.GenerateFromPassword\<close> (which draws a salt) returns for the password.\<close>

definition auth_Register :: "string result \<Rightarrow> int \<Rightarrow> string \<Rightarrow> string \<Rightarrow> auth_world \<Rightarrow> User result \<times> auth_world" where
  "auth_Register gen now username email w = (case gen of
     Inl e \<Rightarrow> (Inl e, w)
   | Inr hashedPassword \<Rightarrow> on_db (users_Create now \<lparr>us_ID = 0, us_Username = username, us_Email = email,
        us_PasswordHash = hashedPassword, us_Role = [], us_CreatedAt = 0, us_UpdatedAt = 0\<rparr>) w)"

definition login_key :: "string \<Rightarrow> string" where
  "login_key username = ToLower (TrimSpace username)"

definition upd_limiter :: "(loginLimiter \<Rightarrow> loginLimiter) \<Rightarrow> auth_world \<Rightarrow> auth_world" where
  "upd_limiter f w = w\<lparr>aw_limiter := f (aw_limiter w)\<rparr>"

definition auth_Login :: "authService \<Rightarrow> (nat \<Rightarrow> int) \<Rightarrow> string \<Rightarrow> string \<Rightarrow> auth_world \<Rightarrow> TokenPair result \<times> auth_world" where
  "auth_Login s clk username password w =
     (let key = login_key username in
      if limiter_locked (clk 0) key (aw_limiter w) then (Inl ErrTooManyAttempts, w)
      else case on_db (users_GetByUsername username) w of
        (Inl e, w1) \<Rightarrow> if e = ErrUserNotFound then (Inl ErrInvalidCredentials, upd_limiter (limiter_fail (clk 1) key) w1)
                      else (Inl e, w1)
      | (Inr user, w1) \<Rightarrow>
          if \<not> as_Compare s (us_PasswordHash user) password
          then (Inl ErrInvalidCredentials, upd_limiter (limiter_fail (clk 1) key) w1)
          else issueTokens s clk user (upd_limiter (limiter_success key) w1))"

definition auth_Refresh :: "authService \<Rightarrow> (nat \<Rightarrow> int) \<Rightarrow> string \<Rightarrow> auth_world \<Rightarrow> TokenPair result \<times> auth_world" where
  "auth_Refresh s clk refreshToken w =
     (case rs_Consume (as_refresh s) (clk 0) (hashToken s refreshToken) w of
        (Inl e, w1) \<Rightarrow> (Inl e, w1)
      | (Inr userID, w1) \<Rightarrow> (case on_db (users_GetByID userID) w1 of
          (Inl e, w2) \<Rightarrow> (Inl (if e = ErrUserNotFound then ErrInvalidRefreshToken else e), w2)
        | (Inr user, w2) \<Rightarrow> issueTokens s clk user w2))"

definition auth_Logout :: "authService \<Rightarrow> string \<Rightarrow> auth_world \<Rightarrow> unit result \<times> auth_world" where
  "auth_Logout s refreshToken w = rs_Delete (as_refresh s) (hashToken s refreshToken) w"

subsection \<open>Runs of the service\<close>

datatype auth_op =
    OpRegister "string result" int string string
  | OpLogin "nat \<Rightarrow> int" string string
  | OpRefresh "nat \<Rightarrow> int" string
  | OpLogout string
  | OpSweep int

datatype auth_outcome =
    Registered "User result"
  | Session "TokenPair result"
  | LoggedOut "unit result"
  | Swept

definition auth_step :: "authService \<Rightarrow> auth_op \<Rightarrow> auth_world \<Rightarrow> auth_outcome \<times> auth_world" where
  "auth_step s op w = (case op of
     OpRegister gen now username email \<Rightarrow> map_prod Registered id (auth_Register gen now username email w)
   | OpLogin clk username password \<Rightarrow> map_prod Session id (auth_Login s clk username password w)
   | OpRefresh clk tok \<Rightarrow> map_prod Session id (auth_Refresh s clk tok w)
   | OpLogout tok \<Rightarrow> map_prod LoggedOut id (auth_Logout s tok w)
   | OpSweep now \<Rightarrow> (Swept, upd_limiter (sweep_attempts now) w))"

fun auth_run :: "authService \<Rightarrow> auth_op list \<Rightarrow> auth_world \<Rightarrow> (auth_op \<times> auth_outcome) list \<times> auth_world" where
  "auth_run s [] w = ([], w)"
| "auth_run s (op # ops) w = (case auth_step s op w of (out, w1) \<Rightarrow>
     (case auth_run s ops w1 of (outs, w2) \<Rightarrow> ((op, out) # outs, w2)))"

text \<open>A step hands out a pair whose refresh token has hash \<open>h\<close>; a step accepts such a token.\<close>

definition issues :: "authService \<Rightarrow> string \<Rightarrow> auth_op \<times> auth_outcome \<Rightarrow> bool" where
  "issues s h x = (case snd x of Session (Inr p) \<Rightarrow> hashToken s (tp_RefreshToken p) = h | _ \<Rightarrow> False)"

definition accepts :: "authService \<Rightarrow> string \<Rightarrow> auth_op \<times> auth_outcome \<Rightarrow> bool" where
  "accepts s h x = (case x of (OpRefresh clk tok, Session (Inr p)) \<Rightarrow> hashToken s tok = h | _ \<Rightarrow> False)"

definition revokes :: "authService \<Rightarrow> string \<Rightarrow> auth_op \<times> auth_outcome \<Rightarrow> bool" where
  "revokes s h x = (case x of (OpLogout tok, LoggedOut (Inr _)) \<Rightarrow> hashToken s tok = h | _ \<Rightarrow> False)"

abbreviation times_issued :: "authService \<Rightarrow> string \<Rightarrow> (auth_op \<times> auth_outcome) list \<Rightarrow> nat" where
  "times_issued s h outs \<equiv> length (filter (issues s h) outs)"

abbreviation times_accepted :: "authService \<Rightarrow> string \<Rightarrow> (auth_op \<times> auth_outcome) list \<Rightarrow> nat" where
  "times_accepted s h outs \<equiv> length (filter (accepts s h) outs)"

subsection \<open>What the service needs of a refresh store\<close>

text \<open>
  \<open>live w\<close> is the abstract content of the store: the owner and the expiry of every token hash it
  would still accept.
\<close>

locale refresh_store =
  fixes rs :: RefreshStore
    and live :: "auth_world \<Rightarrow> string \<rightharpoonup> memRefresh"
  assumes Save_law: "rs_Save rs h u e w = (r, w') \<Longrightarrow>
      live w' = (if is_ok r then (live w)(h \<mapsto> \<lparr>mr_userID = u, mr_expiresAt = e\<rparr>) else live w)"
    and Consume_ok: "rs_Consume rs now h w = (Inr u, w') \<Longrightarrow>
      \<exists>t. live w h = Some t \<and> mr_userID t = u \<and> now \<le> mr_expiresAt t \<and> live w' = (live w)(h := None)"
    and Consume_err: "rs_Consume rs now h w = (Inl x, w') \<Longrightarrow> live w' \<subseteq>\<^sub>m live w"
    and Delete_law: "rs_Delete rs h w = (r, w') \<Longrightarrow> live w' = (if is_ok r then (live w)(h := None) else live w)"
    and limiter_frame: "rs_Save rs h u e w = (r1, w1) \<Longrightarrow> aw_limiter w1 = aw_limiter w"
      "rs_Consume rs now h w = (r2, w2) \<Longrightarrow> aw_limiter w2 = aw_limiter w"
      "rs_Delete rs h w = (r3, w3) \<Longrightarrow> aw_limiter w3 = aw_limiter w"
    and live_frame: "aw_mem w' = aw_mem w \<Longrightarrow>
      t_refresh_tokens (db_tables (aw_db w')) = t_refresh_tokens (db_tables (aw_db w)) \<Longrightarrow> live w' = live w"

lemma users_frames [intro]:
  "frames t_refresh_tokens (users_Create now user)" "frames t_refresh_tokens (select_user P)"
  unfolding users_Create_def select_user_def
  by (auto intro!: frames_intros simp: Let_def split: if_splits option.splits)

lemma users_Get_frames [intro]:
  "frames t_refresh_tokens (users_GetByUsername n)" "frames t_refresh_tokens (users_GetByID i)"
  "frames t_refresh_tokens (users_GetByEmail n)"
  by (auto simp: users_GetByUsername_def users_GetByID_def users_GetByEmail_def)

lemma on_dbE:
  assumes "on_db m w = (r, w')"
  obtains d where "m (aw_db w) = (r, d)" "w' = w\<lparr>aw_db := d\<rparr>"
  using assms by (auto simp: on_db_def split: prod.splits)

lemma on_db_frame:
  assumes "on_db m w = (r, w')" "frames t_refresh_tokens m"
  shows "aw_mem w' = aw_mem w" "aw_limiter w' = aw_limiter w" "aw_rand w' = aw_rand w"
    "t_refresh_tokens (db_tables (aw_db w')) = t_refresh_tokens (db_tables (aw_db w))"
  using assms by (auto elim!: on_dbE dest: framesD)

lemma newRefreshToken_frame:
  "newRefreshToken s w = (r, w') \<Longrightarrow> aw_mem w' = aw_mem w \<and> aw_db w' = aw_db w \<and> aw_limiter w' = aw_limiter w"
  by (auto simp: newRefreshToken_def Let_def split: list.splits sum.splits)

lemma newRefreshToken_hash: "newRefreshToken s w = (Inr (raw, h), w') \<Longrightarrow> h = hashToken s raw"
  by (auto simp: newRefreshToken_def Let_def split: list.splits sum.splits)

lemma upd_limiter_frame [simp]:
  "aw_mem (upd_limiter f w) = aw_mem w" "aw_db (upd_limiter f w) = aw_db w"
  "aw_limiter (upd_limiter f w) = f (aw_limiter w)"
  by (simp_all add: upd_limiter_def)

context refresh_store
begin

lemma issueTokens_live:
  assumes "as_refresh s = rs" "issueTokens s clk user w = (r, w')"
  shows "aw_limiter w' = aw_limiter w \<and>
    (case r of Inl e \<Rightarrow> live w' = live w
     | Inr p \<Rightarrow> live w' = (live w)(hashToken s (tp_RefreshToken p) \<mapsto>
         \<lparr>mr_userID = us_ID user, mr_expiresAt = clk 4 + as_refreshTTL s\<rparr>))"
proof -
  obtain nt w1 where n: "newRefreshToken s w = (nt, w1)" by fastforce
  have l1: "live w1 = live w" "aw_limiter w1 = aw_limiter w"
    using newRefreshToken_frame [OF n] live_frame [of w1 w] by simp_all
  show ?thesis
  proof (cases nt)
    case (Inl e)
    then show ?thesis using assms n l1 by (auto simp: issueTokens_def Let_def split: sum.splits)
  next
    case (Inr a)
    then obtain raw h where a: "nt = Inr (raw, h)" by (cases a) auto
    obtain sv w2 where sv: "rs_Save rs h (us_ID user) (clk 4 + as_refreshTTL s) w1 = (sv, w2)" by fastforce
    note laws = l1 Save_law [OF sv] limiter_frame(1) [OF sv] newRefreshToken_hash [OF n [unfolded a]]
    have i: "issueTokens s clk user w = (case as_Sign s (as_jwtSecret s) \<lparr>cl_UserID = us_ID user,
        cl_Username = us_Username user, cl_Role = (if us_Role user = [] then RolePlayer else us_Role user),
        cl_ExpiresAt = clk 2 + as_accessTTL s, cl_IssuedAt = clk 3\<rparr> of Inl e \<Rightarrow> (Inl e, w)
      | Inr acc \<Rightarrow> (case sv of Inl e \<Rightarrow> (Inl e, w2) | Inr _ \<Rightarrow> (Inr \<lparr>tp_AccessToken = acc, tp_RefreshToken = raw,
          tp_ExpiresIn = as_accessTTL s div 10 ^ 9\<rparr>, w2)))"
      unfolding issueTokens_def Let_def n a assms(1) by (simp add: sv cong: sum.case_cong split: sum.split)
    show ?thesis using assms(2) laws unfolding i
      by (cases sv) (auto split: sum.splits)
  qed
qed

lemma live_on_db: "on_db m w = (r, w') \<Longrightarrow> frames t_refresh_tokens m \<Longrightarrow> live w' = live w"
  by (rule live_frame) (auto dest: on_db_frame)

lemma live_upd_limiter [simp]: "live (upd_limiter f w) = live w"
  by (rule live_frame) simp_all

lemma Login_live:
  assumes "as_refresh s = rs" "auth_Login s clk username password w = (r, w')"
  shows "case r of Inl e \<Rightarrow> live w' = live w
    | Inr p \<Rightarrow> \<exists>t. live w' = (live w)(hashToken s (tp_RefreshToken p) \<mapsto> t)"
proof -
  obtain u w1 where u: "on_db (users_GetByUsername username) w = (u, w1)" by fastforce
  then have l: "live w1 = live w" by (rule live_on_db) blast
  show ?thesis
  proof (cases "limiter_locked (clk 0) (login_key username) (aw_limiter w) \<or>
      (case u of Inl e \<Rightarrow> True | Inr user \<Rightarrow> \<not> as_Compare s (us_PasswordHash user) password)")
    case True
    then show ?thesis using assms(2) u l by (auto simp: auth_Login_def Let_def split: if_splits sum.splits)
  next
    case False
    then obtain user where "u = Inr user"
      "issueTokens s clk user (upd_limiter (limiter_success (login_key username)) w1) = (r, w')"
      using assms(2) u by (auto simp: auth_Login_def Let_def split: sum.splits)
    with issueTokens_live [OF assms(1) this(2)] l show ?thesis by (auto split: sum.splits)
  qed
qed

lemma Refresh_live:
  assumes "as_refresh s = rs" "auth_Refresh s clk tok w = (r, w')"
  shows "case r of Inl e \<Rightarrow> live w' \<subseteq>\<^sub>m live w
    | Inr p \<Rightarrow> \<exists>old t. live w (hashToken s tok) = Some old \<and> clk 0 \<le> mr_expiresAt old \<and>
        live w' = (live w)(hashToken s tok := None, hashToken s (tp_RefreshToken p) \<mapsto> t)"
proof -
  obtain c w1 where c: "rs_Consume rs (clk 0) (hashToken s tok) w = (c, w1)" by fastforce
  show ?thesis
  proof (cases c)
    case (Inl e)
    then show ?thesis using assms c Consume_err by (auto simp: auth_Refresh_def)
  next
    case (Inr uid)
    obtain old where o: "live w (hashToken s tok) = Some old" "clk 0 \<le> mr_expiresAt old"
      "live w1 = (live w)(hashToken s tok := None)"
      using Consume_ok [OF c [unfolded Inr]] by auto
    obtain u w2 where u: "on_db (users_GetByID uid) w1 = (u, w2)" by fastforce
    then have l: "live w2 = live w1" by (rule live_on_db) blast
    show ?thesis
    proof (cases u)
      case (Inl e)
      then show ?thesis using assms c Inr u l o by (auto simp: auth_Refresh_def map_le_def)
    next
      case (Inr user)
      with assms c \<open>c = Inr uid\<close> u have "issueTokens s clk user w2 = (r, w')" by (simp add: auth_Refresh_def)
      from issueTokens_live [OF assms(1) this] l o show ?thesis
        by (auto simp: map_le_def split: sum.splits)
    qed
  qed
qed

text \<open>Tokens are conserved: an acceptance uses up what an earlier issue put there.\<close>

lemma auth_step_tokens:
  assumes "as_refresh s = rs" "auth_step s op w = (out, w')"
  shows "of_bool (accepts s h (op, out)) + of_bool (live w' h \<noteq> None)
    \<le> of_bool (issues s h (op, out)) + (of_bool (live w h \<noteq> None) :: nat)"
proof (cases op)
  case (OpRegister gen now u e)
  then obtain r where "auth_Register gen now u e w = (r, w')" "out = Registered r"
    using assms(2) by (auto simp: auth_step_def map_prod_def split: prod.splits)
  moreover from this have "live w' = live w"
    by (auto simp: auth_Register_def split: sum.splits intro: live_on_db)
  ultimately show ?thesis by (simp add: accepts_def OpRegister)
next
  case (OpLogin clk u p)
  then obtain r where r: "auth_Login s clk u p w = (r, w')" "out = Session r"
    using assms(2) by (auto simp: auth_step_def map_prod_def split: prod.splits)
  from Login_live [OF assms(1) r(1)] show ?thesis
    by (auto simp: accepts_def issues_def OpLogin r(2) split: sum.splits)
next
  case (OpRefresh clk tok)
  then obtain r where r: "auth_Refresh s clk tok w = (r, w')" "out = Session r"
    using assms(2) by (auto simp: auth_step_def map_prod_def split: prod.splits)
  from Refresh_live [OF assms(1) r(1)] show ?thesis
    by (auto simp: accepts_def issues_def OpRefresh r(2) map_le_def dom_def split: sum.splits)
next
  case (OpLogout tok)
  then obtain r where r: "rs_Delete rs (hashToken s tok) w = (r, w')"
    using assms by (auto simp: auth_step_def auth_Logout_def map_prod_def split: prod.splits)
  from Delete_law [OF r] show ?thesis by (auto simp: accepts_def OpLogout split: if_splits)
next
  case (OpSweep now)
  then have "live w' = live w" "\<not> accepts s h (op, out)" using assms(2) by (auto simp: auth_step_def accepts_def)
  then show ?thesis by simp
qed

lemma auth_run_tokens:
  assumes "as_refresh s = rs" "auth_run s ops w = (outs, w')"
  shows "times_accepted s h outs + of_bool (live w' h \<noteq> None) \<le> times_issued s h outs + of_bool (live w h \<noteq> None)"
  using assms(2)
proof (induction ops arbitrary: w outs)
  case (Cons op ops)
  obtain out w1 where st: "auth_step s op w = (out, w1)" by fastforce
  obtain outs1 w2 where rn: "auth_run s ops w1 = (outs1, w2)" by fastforce
  from Cons.prems have "outs = (op, out) # outs1" "w' = w2" using st rn by auto
  with auth_step_tokens [OF assms(1) st, of h] Cons.IH [of w1 outs1] rn show ?case by (auto split: if_splits)
qed auto

lemma auth_run_logout:
  assumes "as_refresh s = rs" "auth_Logout s tok w = (Inr (), w1)" "auth_run s ops w1 = (outs, w')"
  shows "times_accepted s (hashToken s tok) outs \<le> times_issued s (hashToken s tok) outs"
proof -
  have "live w1 (hashToken s tok) = None"
    using Delete_law [of "hashToken s tok" w "Inr ()" w1] assms(1,2) by (simp add: auth_Logout_def)
  with auth_run_tokens [OF assms(1,3), of "hashToken s tok"] show ?thesis by simp
qed

end

text \<open>Both stores keep the contract.\<close>

interpretation mem_refresh: refresh_store memRefreshStore aw_mem
  by unfold_locales
    (auto simp: memRefreshStore_def tokens_mem_Save_def tokens_mem_Consume_def tokens_mem_Delete_def Let_def map_le_def
      split: option.splits if_splits)

definition pg_tokens :: "auth_world \<Rightarrow> string \<rightharpoonup> memRefresh" where
  "pg_tokens w = map_of (t_refresh_tokens (db_tables (aw_db w)))"

interpretation pg_refresh: refresh_store pgRefreshStore pg_tokens
proof
  fix h u e w r w'
  assume "rs_Save pgRefreshStore h u e w = (r, w')"
  then show "pg_tokens w' = (if is_ok r then (pg_tokens w)(h \<mapsto> \<lparr>mr_userID = u, mr_expiresAt = e\<rparr>) else pg_tokens w)"
    by (cases r, simp_all add: pgRefreshStore_def tokens_pg_Save_def pg_tokens_def)
      (auto elim!: on_dbE dest!: db_stmt_Inl db_stmt_Inr split: if_splits, drule sym, simp)
next
  fix now h w u w'
  assume "rs_Consume pgRefreshStore now h w = (Inr u, w')"
  then show "\<exists>t. pg_tokens w h = Some t \<and> mr_userID t = u \<and> now \<le> mr_expiresAt t \<and> pg_tokens w' = (pg_tokens w)(h := None)"
    by (auto simp: pgRefreshStore_def tokens_pg_Consume_def pg_tokens_def elim!: on_dbE dest!: db_stmt_Inr
        split: option.splits if_splits) (drule sym, simp)
next
  fix now h w x w'
  assume "rs_Consume pgRefreshStore now h w = (Inl x, w')"
  then show "pg_tokens w' \<subseteq>\<^sub>m pg_tokens w"
    by (auto simp: pgRefreshStore_def tokens_pg_Consume_def pg_tokens_def tx_map_err_def elim!: on_dbE dest!: db_stmt_Inl split: prod.splits sum.splits)
next
  fix h w r w'
  assume "rs_Delete pgRefreshStore h w = (r, w')"
  then show "pg_tokens w' = (if is_ok r then (pg_tokens w)(h := None) else pg_tokens w)"
    by (cases r, simp_all add: pgRefreshStore_def tokens_pg_Delete_def pg_tokens_def)
      (auto elim!: on_dbE dest!: db_stmt_Inl db_stmt_Inr, drule sym, simp)
qed (auto simp: pgRefreshStore_def tokens_pg_Save_def tokens_pg_Consume_def tokens_pg_Delete_def pg_tokens_def elim!: on_dbE)

definition demo_auth :: authService where
  "demo_auth = \<lparr>as_Compare = (\<lambda>hash p. p \<noteq> [] \<and> hash = p), as_Sign = (\<lambda>k c. Inr k), as_Sum256 = map of_char,
     as_jwtSecret = ''k'', as_refresh = memRefreshStore, as_accessTTL = 1, as_refreshTTL = 10\<rparr>"

definition demo_auth_world :: auth_world where
  "demo_auth_world = \<lparr>aw_limiter = newLoginLimiter defaultLoginMaxFailures defaultLoginLockout, aw_mem = Map.empty,
     aw_db = \<lparr>db_tables = \<lparr>t_users = [\<lparr>us_ID = 1, us_Username = ''ann'', us_Email = ''a'', us_PasswordHash = ''pw'',
       us_Role = ''player'', us_CreatedAt = 0, us_UpdatedAt = 0\<rparr>], t_users_seq = 1, t_refresh_tokens = []\<rparr>, db_faults = []\<rparr>,
     aw_rand = [Inr [1], Inr [2]]\<rparr>"

text \<open>
  C8: a refresh token is single-use and revocable. On either store, over any sequence of
  registrations, logins, refreshes, logouts and sweeps, whatever driver and random-source calls
  fail, a token hash that is not stored at the start is accepted by \<open>Refresh\<close> at most as often as
  a token with that hash was handed out, minus one if it is still stored; in particular a token
  that was handed out once is accepted at most once. After a successful \<open>Logout\<close> the revoked
  token is not accepted unless a token with its hash is handed out again.
\<close>

theorem refresh_single_use:
  assumes "as_refresh s = memRefreshStore \<and> live = aw_mem \<or> as_refresh s = pgRefreshStore \<and> live = pg_tokens"
    and "auth_run s ops w = (outs, w')"
  shows "(live w h = None \<longrightarrow> times_accepted s h outs + of_bool (live w' h \<noteq> None) \<le> times_issued s h outs) \<and>
    (\<forall>tok w0. auth_Logout s tok w0 = (Inr (), w) \<longrightarrow>
       times_accepted s (hashToken s tok) outs \<le> times_issued s (hashToken s tok) outs)"
  using assms mem_refresh.auth_run_tokens [of s ops w outs w' h] pg_refresh.auth_run_tokens [of s ops w outs w' h]
    mem_refresh.auth_run_logout [of s _ _ w ops outs w'] pg_refresh.auth_run_logout [of s _ _ w ops outs w']
  by auto

theorem refresh_single_use_witness:
  "times_accepted demo_auth ''3031'' (fst (auth_run demo_auth
     [OpLogin (\<lambda>_. 5) ''ann'' ''pw'', OpRefresh (\<lambda>_. 6) ''01'', OpRefresh (\<lambda>_. 7) ''01''] demo_auth_world))
   \<le> times_issued demo_auth ''3031'' (fst (auth_run demo_auth
     [OpLogin (\<lambda>_. 5) ''ann'' ''pw'', OpRefresh (\<lambda>_. 6) ''01'', OpRefresh (\<lambda>_. 7) ''01''] demo_auth_world))"
  using refresh_single_use [of demo_auth aw_mem
      "[OpLogin (\<lambda>_. 5) ''ann'' ''pw'', OpRefresh (\<lambda>_. 6) ''01'', OpRefresh (\<lambda>_. 7) ''01'']" demo_auth_world _ _ "''3031''",
      OF _ surjective_pairing]
  by (simp add: demo_auth_def [THEN arg_cong, of as_refresh] demo_auth_world_def [THEN arg_cong, of aw_mem])

subsection \<open>Lockout\<close>

text \<open>
  The limiter's entry for a key after \<open>n\<close> failures in a window that began at \<open>t0\<close> or later.
\<close>

definition limiter_at :: "int \<Rightarrow> string \<Rightarrow> nat \<Rightarrow> loginLimiter \<Rightarrow> bool" where
  "limiter_at t0 key n l \<longleftrightarrow> ll_max l = defaultLoginMaxFailures \<and> ll_lockout l = defaultLoginLockout \<and> n \<le> 5 \<and>
     (case ll_entries l key of None \<Rightarrow> n = 0
      | Some e \<Rightarrow> t0 \<le> la_windowStart e \<and> la_failures e = int n \<and>
          (case la_lockedUntil e of None \<Rightarrow> n < 5 | Some t \<Rightarrow> n = 5 \<and> t0 + defaultLoginLockout \<le> t))"

definition in_window :: "int \<Rightarrow> int \<Rightarrow> bool" where
  "in_window t0 t \<longleftrightarrow> t0 \<le> t \<and> t < t0 + defaultLoginLockout"

lemma limiter_at_locked:
  "limiter_at t0 key n l \<Longrightarrow> in_window t0 now \<Longrightarrow> limiter_locked now key l \<longleftrightarrow> n = 5"
  by (auto simp: limiter_at_def in_window_def limiter_locked_def attempt_locked_def split: option.splits)

lemma limiter_at_fail:
  assumes "limiter_at t0 key n l" "in_window t0 now" "n < 5"
  shows "limiter_at t0 key (Suc n) (limiter_fail now key l)"
proof (cases "ll_entries l key")
  case None
  then show ?thesis using assms by (simp add: limiter_at_def in_window_def limiter_fail_def fresh_attempt_def)
next
  case (Some e)
  have "wrap64 (1 + int n) = 1 + int n" using assms(3) by (intro wrap64_id) (simp add: in64_def)
  with Some assms show ?thesis
    by (auto simp: limiter_at_def in_window_def limiter_fail_def count_failure_def defaultLoginMaxFailures_def
        Let_def algebra_simps split: option.splits if_splits)
qed

lemma limiter_at_other:
  assumes "limiter_at t0 key n l" "key' \<noteq> key"
  shows "limiter_at t0 key n (limiter_fail now key' l)" "limiter_at t0 key n (limiter_success key' l)"
  using assms by (simp_all add: limiter_at_def limiter_fail_def limiter_success_def)

lemma limiter_at_sweep:
  "limiter_at t0 key n l \<Longrightarrow> in_window t0 now \<Longrightarrow> limiter_at t0 key n (sweep_attempts now l)"
  by (auto simp: limiter_at_def in_window_def sweep_attempts_def split: option.splits)

lemma db_stmt_err: "db_stmt stmt d = (Inl e, d') \<Longrightarrow> (\<exists>n. e = IOErr n) \<or> stmt (db_tables d) = Inl e"
  by (cases "db_faults d") (auto simp: db_stmt_def db_call_def split: prod.splits sum.splits option.splits)

lemma select_user_err: "select_user P d = (Inl e, d') \<Longrightarrow> e = ErrUserNotFound \<or> (\<exists>n. e = IOErr n)"
proof -
  assume "select_user P d = (Inl e, d')"
  then obtain e' where "e = (if e' = ErrNoRows then ErrUserNotFound else e')"
    "db_stmt (\<lambda>t. case find P (t_users t) of None \<Rightarrow> Inl ErrNoRows | Some u \<Rightarrow> Inr (u, t)) d = (Inl e', d')"
    by (auto simp: select_user_def tx_map_err_def split: prod.splits sum.splits)
  with db_stmt_err [OF this(2)] show ?thesis by (auto split: option.splits)
qed

text \<open>The passwords tried for \<open>key\<close> match no hash, and the clock stays in the window.\<close>

definition guess_ok :: "authService \<Rightarrow> int \<Rightarrow> string \<Rightarrow> auth_op \<Rightarrow> bool" where
  "guess_ok s t0 key op \<longleftrightarrow> (case op of
     OpLogin clk u p \<Rightarrow> in_window t0 (clk 0) \<and> in_window t0 (clk 1) \<and> (login_key u = key \<longrightarrow> (\<forall>hash. \<not> as_Compare s hash p))
   | OpSweep now \<Rightarrow> in_window t0 now | _ \<Rightarrow> True)"

definition is_login :: "string \<Rightarrow> auth_op \<Rightarrow> bool" where
  "is_login key op \<longleftrightarrow> (case op of OpLogin _ u _ \<Rightarrow> login_key u = key | _ \<Rightarrow> False)"

definition refused :: "string \<Rightarrow> error \<Rightarrow> auth_op \<times> auth_outcome \<Rightarrow> bool" where
  "refused key e x \<longleftrightarrow> is_login key (fst x) \<and> snd x = Session (Inl e)"

lemma Login_wrong:
  assumes "limiter_at t0 (login_key u) n (aw_limiter w)" "in_window t0 (clk 0)" "in_window t0 (clk 1)"
    "\<forall>hash. \<not> as_Compare s hash p" "auth_Login s clk u p w = (r, w')"
  shows "(r = Inl ErrTooManyAttempts \<longleftrightarrow> n = 5) \<and>
    (if r = Inl ErrInvalidCredentials then n < 5 \<and> limiter_at t0 (login_key u) (Suc n) (aw_limiter w')
     else limiter_at t0 (login_key u) n (aw_limiter w'))"
proof (cases "n = 5")
  case True
  then show ?thesis using assms limiter_at_locked [OF assms(1,2)] by (auto simp: auth_Login_def)
next
  case False
  with assms(1) have n: "n < 5" by (simp add: limiter_at_def)
  obtain g w1 where g: "on_db (users_GetByUsername u) w = (g, w1)" by fastforce
  then have l: "aw_limiter w1 = aw_limiter w" by (rule on_db_frame) blast
  have nl: "\<not> limiter_locked (clk 0) (login_key u) (aw_limiter w)"
    using limiter_at_locked [OF assms(1,2)] False by simp
  have f: "limiter_at t0 (login_key u) (Suc n) (limiter_fail (clk 1) (login_key u) (aw_limiter w))"
    by (rule limiter_at_fail [OF assms(1,3) n])
  show ?thesis
  proof (cases g)
    case (Inl e)
    with g have "e = ErrUserNotFound \<or> (\<exists>k. e = IOErr k)"
      by (auto simp: users_GetByUsername_def elim!: on_dbE dest: select_user_err)
    with Inl show ?thesis using assms(1,5) g l nl f n by (auto simp: auth_Login_def)
  next
    case (Inr user)
    then show ?thesis using assms(4,5) g l nl f n by (auto simp: auth_Login_def)
  qed
qed

context refresh_store
begin

lemma Login_other:
  assumes "as_refresh s = rs" "limiter_at t0 key n (aw_limiter w)" "login_key u \<noteq> key" "auth_Login s clk u p w = (r, w')"
  shows "limiter_at t0 key n (aw_limiter w')"
proof -
  obtain g w1 where g: "on_db (users_GetByUsername u) w = (g, w1)" by fastforce
  then have l: "aw_limiter w1 = aw_limiter w" by (rule on_db_frame) blast
  note o = limiter_at_other [OF assms(2,3)]
  show ?thesis
  proof (cases "limiter_locked (clk 0) (login_key u) (aw_limiter w) \<or>
      (case g of Inl e \<Rightarrow> True | Inr user \<Rightarrow> \<not> as_Compare s (us_PasswordHash user) p)")
    case True
    then show ?thesis using assms(2,4) g l o by (auto simp: auth_Login_def Let_def split: if_splits sum.splits)
  next
    case False
    then obtain user where "g = Inr user"
      "issueTokens s clk user (upd_limiter (limiter_success (login_key u)) w1) = (r, w')"
      using assms(4) g by (auto simp: auth_Login_def Let_def split: sum.splits)
    with issueTokens_live [OF assms(1) this(2)] l o show ?thesis by simp
  qed
qed

lemma Refresh_limiter:
  assumes "as_refresh s = rs" "auth_Refresh s clk tok w = (r, w')"
  shows "aw_limiter w' = aw_limiter w"
proof -
  obtain c w1 where c: "rs_Consume rs (clk 0) (hashToken s tok) w = (c, w1)" by fastforce
  note l1 = limiter_frame(2) [OF c]
  obtain u w2 where u: "on_db (users_GetByID (projr c)) w1 = (u, w2)" by fastforce
  then have l2: "aw_limiter w2 = aw_limiter w1" by (rule on_db_frame) blast
  show ?thesis using assms c u l1 l2
    by (cases c; cases u) (auto simp: auth_Refresh_def dest!: issueTokens_live [OF assms(1)])
qed

lemma auth_step_limiter:
  assumes "as_refresh s = rs" "limiter_at t0 key n (aw_limiter w)" "guess_ok s t0 key op" "auth_step s op w = (out, w')"
  shows "limiter_at t0 key (n + of_bool (refused key ErrInvalidCredentials (op, out))) (aw_limiter w') \<and>
    (is_login key op \<longrightarrow> refused key ErrTooManyAttempts (op, out) = (n = 5))"
proof (cases op)
  case (OpRegister gen now u e)
  then obtain r where "auth_Register gen now u e w = (r, w')"
    using assms(4) by (auto simp: auth_step_def map_prod_def split: prod.splits)
  then have "aw_limiter w' = aw_limiter w"
    by (auto simp: auth_Register_def split: sum.splits dest: on_db_frame(2))
  then show ?thesis using assms(2) by (simp add: OpRegister refused_def is_login_def)
next
  case (OpLogin clk u p)
  then obtain r where r: "auth_Login s clk u p w = (r, w')" "out = Session r"
    using assms(4) by (auto simp: auth_step_def map_prod_def split: prod.splits)
  show ?thesis
  proof (cases "login_key u = key")
    case True
    with assms(2,3) OpLogin show ?thesis using Login_wrong [of t0 u n w clk s p r w'] r
      by (auto simp: guess_ok_def refused_def is_login_def split: if_splits)
  next
    case False
    from Login_other [OF assms(1,2) False r(1)] False show ?thesis by (simp add: OpLogin refused_def is_login_def)
  qed
next
  case (OpRefresh clk tok)
  then obtain r where "auth_Refresh s clk tok w = (r, w')"
    using assms(4) by (auto simp: auth_step_def map_prod_def split: prod.splits)
  from Refresh_limiter [OF assms(1) this] assms(2) show ?thesis by (simp add: OpRefresh refused_def is_login_def)
next
  case (OpLogout tok)
  then obtain r where "rs_Delete rs (hashToken s tok) w = (r, w')"
    using assms by (auto simp: auth_step_def auth_Logout_def map_prod_def split: prod.splits)
  from limiter_frame(3) [OF this] assms(2) show ?thesis by (simp add: OpLogout refused_def is_login_def)
next
  case (OpSweep now)
  then show ?thesis using assms limiter_at_sweep by (auto simp: auth_step_def refused_def is_login_def guess_ok_def)
qed

lemma auth_run_lockout:
  assumes "as_refresh s = rs" "limiter_at t0 key n (aw_limiter w)" "list_all (guess_ok s t0 key) ops"
    "auth_run s ops w = (outs, w')"
  shows "n + length (filter (refused key ErrInvalidCredentials) outs) \<le> 5 \<and>
    (\<forall>xs x ys. outs = xs @ x # ys \<longrightarrow> is_login key (fst x) \<longrightarrow>
       refused key ErrTooManyAttempts x = (n + length (filter (refused key ErrInvalidCredentials) xs) = 5))"
  using assms(2-)
proof (induction ops arbitrary: w outs n)
  case Nil
  then show ?case by (simp add: limiter_at_def)
next
  case (Cons op ops)
  obtain out w1 where st: "auth_step s op w = (out, w1)" by fastforce
  obtain outs1 where rn: "auth_run s ops w1 = (outs1, w')" and outs: "outs = (op, out) # outs1"
    using Cons.prems(3) st by (auto split: prod.splits)
  let ?k = "of_bool (refused key ErrInvalidCredentials (op, out)) :: nat"
  from Cons.prems(2) have g: "guess_ok s t0 key op" "list_all (guess_ok s t0 key) ops" by simp_all
  note step = auth_step_limiter [OF assms(1) Cons.prems(1) g(1) st]
  note IH = Cons.IH [OF conjunct1 [OF step] g(2) rn]
  show ?case
  proof (intro conjI allI impI)
    show "n + length (filter (refused key ErrInvalidCredentials) outs) \<le> 5" using IH by (auto simp: outs)
  next
    fix xs x ys
    assume o: "outs = xs @ x # ys" and x: "is_login key (fst x)"
    show "refused key ErrTooManyAttempts x = (n + length (filter (refused key ErrInvalidCredentials) xs) = 5)"
    proof (cases xs)
      case Nil
      with o outs x step show ?thesis by auto
    next
      case (Cons y zs)
      with o outs have "y = (op, out)" "outs1 = zs @ x # ys" by auto
      with IH x have "refused key ErrTooManyAttempts x = (n + ?k + length (filter (refused key ErrInvalidCredentials) zs) = 5)"
        by blast
      with Cons \<open>y = (op, out)\<close> show ?thesis by (auto split: if_splits)
    qed
  qed
qed

end



end
