(* ===== verification/Httpx.thy ===== *)
theory Httpx
  imports Auth Combat_Events
begin

section \<open>HTTP: sdk/pkg/httpx/httpx.go and backend/game/auth/middleware.go\<close>

text \<open>
  A request is what a handler reads of it: the method, the headers, the path and query values, the
  JSON value of its body (\<open>None\<close> when the body cannot be read or is not JSON) and the values
  the middleware has put into its context. It also carries what the handler draws from outside
  while it runs: the readings of the clock and the salt of bcrypt. A response has its status, the
  machine code of an error envelope (empty on success) and the data; the human-readable message
  of an error and the content-type header are not modelled. A handler works on a world \<open>'w\<close>.
\<close>

subsection \<open>Requests and responses\<close>

record request =
  rq_Method :: string
  rq_Header :: "string \<Rightarrow> string"
  rq_PathValue :: "string \<Rightarrow> string"
  rq_Query :: "string \<Rightarrow> string"
  rq_Body :: "json option"
  rq_RemoteAddr :: string
  rq_UserID :: "int option"
  rq_Username :: "string option"
  rq_Role :: "string option"
  rq_clock :: "nat \<Rightarrow> int"
  rq_salt :: string

record 'd response =
  rp_Status :: int
  rp_Code :: string
  rp_Data :: "'d option"

type_synonym ('d, 'w) handler = "request \<Rightarrow> 'w \<Rightarrow> 'd response \<times> 'w"

definition WriteJSON :: "int \<Rightarrow> 'd \<Rightarrow> 'd response" where
  "WriteJSON status data = \<lparr>rp_Status = status, rp_Code = [], rp_Data = Some data\<rparr>"

definition WriteError :: "int \<Rightarrow> string \<Rightarrow> 'd response" where
  "WriteError status code = \<lparr>rp_Status = status, rp_Code = code, rp_Data = None\<rparr>"

lemma response_data [simp]: "rp_Data (WriteError s c) = None" "rp_Data (WriteJSON s x) = Some x"
  by (simp_all add: WriteError_def WriteJSON_def)

subsection \<open>Paging\<close>

text \<open>\<open>ParsePage\<close>: defaults when absent or invalid, the limit clamped.\<close>

definition ParsePage :: "request \<Rightarrow> int \<Rightarrow> int \<Rightarrow> int \<times> int" where
  "ParsePage r defaultLimit maxLimit =
     (let limit0 = (case Atoi (rq_Query r ''limit'') of Some n \<Rightarrow> if n > 0 then n else defaultLimit | None \<Rightarrow> defaultLimit);
          limit = (if limit0 > maxLimit then maxLimit else limit0);
          offset = (case Atoi (rq_Query r ''offset'') of Some n \<Rightarrow> if n \<ge> 0 then n else 0 | None \<Rightarrow> 0) in
      (limit, offset))"

text \<open>A page is never empty by construction, never longer than the maximum, never before the start.\<close>

lemma ParsePage_bounds:
  "ParsePage r df mx = (limit, offset) \<Longrightarrow> 0 < df \<Longrightarrow> 0 < mx \<Longrightarrow> 0 < limit \<and> limit \<le> mx \<and> 0 \<le> offset"
  by (auto simp: ParsePage_def Let_def split: option.splits if_splits)

text \<open>\<open>json.NewDecoder(r.Body).Decode(&req)\<close>.\<close>

definition decode_body :: "(json \<Rightarrow> 'a result) \<Rightarrow> request \<Rightarrow> 'a result" where
  "decode_body dec r = (case rq_Body r of None \<Rightarrow> Inl json_err | Some j \<Rightarrow> dec j)"

subsection \<open>Authentication\<close>

text \<open>\<open>ParseAccessToken\<close>: the JWT library with HS256 pinned is a parameter; its outcome is the
  claims and whether the token is valid.\<close>

type_synonym jwt_parser = "string \<Rightarrow> string \<Rightarrow> (Claims \<times> bool) result"

definition ParseAccessToken :: "jwt_parser \<Rightarrow> string \<Rightarrow> string \<Rightarrow> Claims result" where
  "ParseAccessToken parse jwtSecret tok = (case parse jwtSecret tok of
     Inl e \<Rightarrow> Inl e
   | Inr (claims, valid) \<Rightarrow> if \<not> valid then Inl (Sentinel ''jwt.ErrTokenInvalidClaims'') else Inr claims)"

definition UserIDFromContext :: "request \<Rightarrow> int" where
  "UserIDFromContext r = (case rq_UserID r of None \<Rightarrow> 0 | Some i \<Rightarrow> i)"

definition UsernameFromContext :: "request \<Rightarrow> string" where
  "UsernameFromContext r = (case rq_Username r of None \<Rightarrow> [] | Some n \<Rightarrow> n)"

definition RoleFromContext :: "request \<Rightarrow> string" where
  "RoleFromContext r = (case rq_Role r of None \<Rightarrow> [] | Some x \<Rightarrow> x)"

text \<open>The token of the \<open>Authorization\<close> header, or none.\<close>

definition bearer :: "request \<Rightarrow> string option" where
  "bearer r = (case Split CHR '' '' (rq_Header r ''Authorization'') of
     [scheme, tok] \<Rightarrow> if ToLower scheme = ''bearer'' then Some tok else None
   | _ \<Rightarrow> None)"

definition AuthMiddleware :: "jwt_parser \<Rightarrow> string \<Rightarrow> ('d, 'w) handler \<Rightarrow> ('d, 'w) handler" where
  "AuthMiddleware parse jwtSecret next_h r w =
     (if rq_Header r ''Authorization'' = [] then (WriteError 401 ''UNAUTHORIZED'', w)
      else case bearer r of
        None \<Rightarrow> (WriteError 401 ''UNAUTHORIZED'', w)
      | Some tok \<Rightarrow> (case ParseAccessToken parse jwtSecret tok of
          Inl e \<Rightarrow> (WriteError 401 ''UNAUTHORIZED'', w)
        | Inr claims \<Rightarrow> next_h (r\<lparr>rq_UserID := Some (cl_UserID claims), rq_Username := Some (cl_Username claims),
                              rq_Role := Some (cl_Role claims)\<rparr>) w))"

definition RequireAdmin :: "('d, 'w) handler \<Rightarrow> ('d, 'w) handler" where
  "RequireAdmin next_h r w =
     (if RoleFromContext r \<noteq> RoleAdmin then (WriteError 403 ''FORBIDDEN'', w) else next_h r w)"

definition AdminOnly :: "jwt_parser \<Rightarrow> string \<Rightarrow> ('d, 'w) handler \<Rightarrow> ('d, 'w) handler" where
  "AdminOnly parse jwtSecret h = AuthMiddleware parse jwtSecret (RequireAdmin h)"

text \<open>Whom a request authenticates as.\<close>

definition authenticated :: "jwt_parser \<Rightarrow> string \<Rightarrow> request \<Rightarrow> Claims option" where
  "authenticated parse jwtSecret r =
     (if rq_Header r ''Authorization'' = [] then None
      else case bearer r of None \<Rightarrow> None | Some tok \<Rightarrow>
        (case ParseAccessToken parse jwtSecret tok of Inl _ \<Rightarrow> None | Inr c \<Rightarrow> Some c))"

definition with_claims :: "Claims \<Rightarrow> request \<Rightarrow> request" where
  "with_claims c r = r\<lparr>rq_UserID := Some (cl_UserID c), rq_Username := Some (cl_Username c), rq_Role := Some (cl_Role c)\<rparr>"

lemma AuthMiddleware_alt:
  "AuthMiddleware parse key h r w = (case authenticated parse key r of
     None \<Rightarrow> (WriteError 401 ''UNAUTHORIZED'', w) | Some c \<Rightarrow> h (with_claims c r) w)"
  by (simp add: AuthMiddleware_def authenticated_def with_claims_def split: option.split sum.split)

lemma AdminOnly_alt:
  "AdminOnly parse key h r w = (case authenticated parse key r of
     None \<Rightarrow> (WriteError 401 ''UNAUTHORIZED'', w)
   | Some c \<Rightarrow> if cl_Role c \<noteq> RoleAdmin then (WriteError 403 ''FORBIDDEN'', w) else h (with_claims c r) w)"
  by (simp add: AdminOnly_def AuthMiddleware_alt RequireAdmin_def RoleFromContext_def with_claims_def split: option.split)

lemma context_with_claims [simp]:
  "UserIDFromContext (with_claims c r) = cl_UserID c" "UsernameFromContext (with_claims c r) = cl_Username c"
  "RoleFromContext (with_claims c r) = cl_Role c"
  by (simp_all add: with_claims_def UserIDFromContext_def UsernameFromContext_def RoleFromContext_def)

end
