(* ===== verification/Http_Api.thy ===== *)
theory Http_Api
  imports Httpx Loot
begin

section \<open>The HTTP interface of the game: the handler.go files of backend/game and their routes\<close>

text \<open>
  Every handler with its guards in the order of the code, over a world that holds the game
  database, the loot cache, the events published by the inventory and quest services and the
  world of the auth service; and the routes as the plugins register them, each wrapped in the
  authentication its plugin gives it. The theorem of this theory is about all of them together:
  whose data a request can read and change.
\<close>

subsection \<open>The world and the services\<close>

record 'c api_world =
  ap_db :: "loot_tables DB"
  ap_cache :: 'c
  ap_inv :: "InvEvent list"
  ap_quest :: "QuestEvent list"
  ap_auth :: auth_world

text \<open>What the plugins wire together, and the library functions: the JWT parser, bcrypt with its
  salt, the collation of the database and the parser of time stamps.\<close>

record ('k, 'c) api =
  ad_parse :: jwt_parser
  ad_secret :: string
  ad_Generate :: "string \<Rightarrow> string \<Rightarrow> string result"
  ad_auth :: authService
  ad_chars :: "unit loot_tables_ext quest_tables_ext game_tables_ext CharSvc"
  ad_quests :: "int \<Rightarrow> loot_tables DB QuestSvc"
  ad_lootcache :: "'c Cache"
  ad_col :: "string \<Rightarrow> 'k"
  ad_ParseTime :: "string \<Rightarrow> int result"

datatype api_data =
    DCharacter CharacterWithStats
  | DCharacters "(int \<times> CharRow) list"
  | DStats int stats stats
  | DInventory "InventoryItem list"
  | DItem InventoryItem
  | DRefreshStats
  | DQuest QuestDefinition
  | DQuests "QuestDefinition list"
  | DQuestAccepted string string
  | DQuestLog "CharacterQuest list"
  | DUpdated
  | DItemDef ItemDefinition
  | DItemDefs "ItemDefinition list"
  | DDeleted
  | DLoot LootTable
  | DLoots "LootTable list"
  | DUser int string string
  | DTokens TokenPair
  | DRevoked
  | DIdentity int string

type_synonym 'c api_handler = "(api_data, 'c api_world) handler"

definition on_game :: "(loot_tables DB \<Rightarrow> 'a \<times> loot_tables DB) \<Rightarrow> 'c api_world \<Rightarrow> 'a \<times> 'c api_world" where
  "on_game m w = (case m (ap_db w) of (a, d) \<Rightarrow> (a, w\<lparr>ap_db := d\<rparr>))"

definition on_auth :: "(auth_world \<Rightarrow> 'a \<times> auth_world) \<Rightarrow> 'c api_world \<Rightarrow> 'a \<times> 'c api_world" where
  "on_auth m w = (case m (ap_auth w) of (a, x) \<Rightarrow> (a, w\<lparr>ap_auth := x\<rparr>))"

abbreviation now_of :: "request \<Rightarrow> int" where
  "now_of r \<equiv> rq_clock r 0"

text \<open>The id of the path, or of the query, as the handlers read it: positive, of the given width.\<close>

definition path_id :: "nat \<Rightarrow> request \<Rightarrow> int option" where
  "path_id bits r =
     (let idStr = (if rq_PathValue r ''id'' = [] then rq_Query r ''id'' else rq_PathValue r ''id'') in
      case ParseInt bits idStr of None \<Rightarrow> None | Some n \<Rightarrow> if n \<le> 0 then None else Some n)"

abbreviation "method_error \<equiv> WriteError 405 ''METHOD_NOT_ALLOWED''"
abbreviation "body_error \<equiv> WriteError 400 ''INVALID_REQUEST_BODY''"
abbreviation "server_error \<equiv> WriteError 500 ''INTERNAL_SERVER_ERROR''"
abbreviation "no_user \<equiv> WriteError 401 ''UNAUTHORIZED''"
abbreviation "no_character \<equiv> WriteError 404 ''CHARACTER_NOT_FOUND''"

subsection \<open>auth/handler.go\<close>

definition RegisterHandler :: "('k, 'c) api \<Rightarrow> 'c api_handler" where
  "RegisterHandler ad r w =
     (if rq_Method r \<noteq> ''POST'' then (method_error, w)
      else case decode_body (\<lambda>j. res_bind (json_get ''username'' json_string j) (\<lambda>u.
             res_bind (json_get ''email'' json_string j) (\<lambda>e.
             res_bind (json_get ''password'' json_string j) (\<lambda>p. Inr (u, e, p))))) r of
        Inl _ \<Rightarrow> (body_error, w)
      | Inr (u, e, p) \<Rightarrow>
          if u = [] \<or> e = [] \<or> p = [] then (WriteError 400 ''VALIDATION_FAILED'', w)
          else case on_auth (auth_Register (ad_Generate ad (rq_salt r) p) (now_of r) u e) w of
            (Inl x, w1) \<Rightarrow> (if x = ErrUserAlreadyExists then WriteError 409 ''USER_ALREADY_EXISTS'' else server_error, w1)
          | (Inr user, w1) \<Rightarrow> (WriteJSON 201 (DUser (us_ID user) (us_Username user) (us_Email user)), w1))"

definition LoginHandler :: "('k, 'c) api \<Rightarrow> 'c api_handler" where
  "LoginHandler ad r w =
     (if rq_Method r \<noteq> ''POST'' then (method_error, w)
      else case decode_body (\<lambda>j. res_bind (json_get ''username'' json_string j) (\<lambda>u.
             res_bind (json_get ''password'' json_string j) (\<lambda>p. Inr (u, p)))) r of
        Inl _ \<Rightarrow> (body_error, w)
      | Inr (u, p) \<Rightarrow>
          if u = [] \<or> p = [] then (WriteError 400 ''VALIDATION_FAILED'', w)
          else case on_auth (auth_Login (ad_auth ad) (rq_clock r) u p) w of
            (Inl x, w1) \<Rightarrow> (if x = ErrInvalidCredentials then WriteError 401 ''INVALID_CREDENTIALS''
                          else if x = ErrTooManyAttempts then WriteError 429 ''TOO_MANY_ATTEMPTS'' else server_error, w1)
          | (Inr pair, w1) \<Rightarrow> (WriteJSON 200 (DTokens pair), w1))"

text \<open>The body of the refresh and logout requests: a non-empty token.\<close>

definition refresh_token_of :: "request \<Rightarrow> string option" where
  "refresh_token_of r = (case decode_body (json_get ''refresh_token'' json_string) r of
     Inl _ \<Rightarrow> None | Inr t \<Rightarrow> if t = [] then None else Some t)"

definition RefreshHandler :: "('k, 'c) api \<Rightarrow> 'c api_handler" where
  "RefreshHandler ad r w =
     (if rq_Method r \<noteq> ''POST'' then (method_error, w)
      else case refresh_token_of r of
        None \<Rightarrow> (body_error, w)
      | Some t \<Rightarrow> (case on_auth (auth_Refresh (ad_auth ad) (rq_clock r) t) w of
          (Inl x, w1) \<Rightarrow> (if x = ErrInvalidRefreshToken then WriteError 401 ''INVALID_REFRESH_TOKEN'' else server_error, w1)
        | (Inr pair, w1) \<Rightarrow> (WriteJSON 200 (DTokens pair), w1)))"

definition LogoutHandler :: "('k, 'c) api \<Rightarrow> 'c api_handler" where
  "LogoutHandler ad r w =
     (if rq_Method r \<noteq> ''POST'' then (method_error, w)
      else case refresh_token_of r of
        None \<Rightarrow> (body_error, w)
      | Some t \<Rightarrow> (case on_auth (auth_Logout (ad_auth ad) t) w of
          (Inl _, w1) \<Rightarrow> (server_error, w1) | (Inr _, w1) \<Rightarrow> (WriteJSON 200 DRevoked, w1)))"

text \<open>The handler of \<open>/api/v1/auth/me\<close>, in plugins/auth/plugin.go.\<close>

definition MeHandler :: "'c api_handler" where
  "MeHandler r w = (WriteJSON 200 (DIdentity (UserIDFromContext r) (UsernameFromContext r)), w)"

subsection \<open>character/handler.go\<close>

definition character_CreateHandler :: "('k, 'c) api \<Rightarrow> 'c api_handler" where
  "character_CreateHandler ad r w =
     (if rq_Method r \<noteq> ''POST'' then (method_error, w)
      else let userID = UserIDFromContext r in
      if userID = 0 then (no_user, w)
      else case decode_body (\<lambda>j. res_bind (json_get ''name'' json_string j) (\<lambda>n.
             res_bind (json_get ''class_name'' json_string j) (\<lambda>c. Inr (n, c)))) r of
        Inl _ \<Rightarrow> (body_error, w)
      | Inr (name, className) \<Rightarrow> (case on_game (svc_Create (ad_chars ad) (now_of r) userID name className) w of
          (Inl e, w1) \<Rightarrow>
            (if e = ErrCharacterNameTaken then WriteError 409 ''NAME_TAKEN''
             else if e = ErrCharacterLimitReached then WriteError 403 ''CHARACTER_LIMIT_REACHED''
             else if e = ErrInvalidClass \<or> e = ErrNameTooShort \<or> e = ErrNameTooLong then WriteError 400 ''VALIDATION_FAILED''
             else server_error, w1)
        | (Inr char, w1) \<Rightarrow> (WriteJSON 201 (DCharacter char), w1)))"

definition character_ListHandler :: "'c api_handler" where
  "character_ListHandler r w =
     (if rq_Method r \<noteq> ''GET'' then (method_error, w)
      else let userID = UserIDFromContext r in
      if userID = 0 then (no_user, w)
      else case on_game (character_ListByUserID userID) w of
        (Inl _, w1) \<Rightarrow> (server_error, w1) | (Inr chars, w1) \<Rightarrow> (WriteJSON 200 (DCharacters chars), w1))"

definition character_GetHandler :: "'c api_handler" where
  "character_GetHandler r w =
     (if rq_Method r \<noteq> ''GET'' then (method_error, w)
      else case path_id 64 r of
        None \<Rightarrow> (WriteError 400 ''INVALID_ID'', w)
      | Some charID \<Rightarrow>
          let userID = UserIDFromContext r in
          if userID = 0 then (no_user, w)
          else case on_game (character_GetByID charID) w of
            (Inl e, w1) \<Rightarrow> (if e = ErrCharacterNotFound then no_character else server_error, w1)
          | (Inr char, w1) \<Rightarrow> (if ch_UserID (cw_Char char) \<noteq> userID then no_character
                             else WriteJSON 200 (DCharacter char), w1))"

definition character_GetStatsHandler :: "'c api_handler" where
  "character_GetStatsHandler r w =
     (if rq_Method r \<noteq> ''GET'' then (method_error, w)
      else case path_id 64 r of
        None \<Rightarrow> (WriteError 400 ''INVALID_ID'', w)
      | Some charID \<Rightarrow>
          let userID = UserIDFromContext r in
          if userID = 0 then (no_user, w)
          else case on_game (character_GetByID charID) w of
            (Inl e, w1) \<Rightarrow> (if e = ErrCharacterNotFound then no_character else server_error, w1)
          | (Inr char, w1) \<Rightarrow> (if ch_UserID (cw_Char char) \<noteq> userID then no_character
                             else WriteJSON 200 (DStats (cw_ID char) (cw_Base char) (cw_Derived char)), w1))"

subsection \<open>inventory/handler.go\<close>

text \<open>The response of a failed check, or none when the character is the user's.\<close>

definition requireOwnership :: "request \<Rightarrow> int \<Rightarrow> 'c api_world \<Rightarrow> api_data response option \<times> 'c api_world" where
  "requireOwnership r charID w =
     (let userID = UserIDFromContext r in
      if userID = 0 then (Some no_user, w)
      else case on_game (VerifyOwnership userID charID) w of
        (Inl _, w1) \<Rightarrow> (Some no_character, w1) | (Inr _, w1) \<Rightarrow> (None, w1))"

definition GetInventoryHandler :: "'c api_handler" where
  "GetInventoryHandler r w =
     (if rq_Method r \<noteq> ''GET'' then (method_error, w)
      else case path_id 32 r of
        None \<Rightarrow> (WriteError 400 ''INVALID_ID'', w)
      | Some charID \<Rightarrow> (case requireOwnership r charID w of
          (Some resp, w1) \<Rightarrow> (resp, w1)
        | (None, w1) \<Rightarrow> (case on_game (inv_ListByCharacter charID) w1 of
            (Inl _, w2) \<Rightarrow> (server_error, w2) | (Inr items, w2) \<Rightarrow> (WriteJSON 200 (DInventory items), w2))))"

definition unmarshal_MoveRequest :: "json \<Rightarrow> (int \<times> int \<times> int) result" where
  "unmarshal_MoveRequest j =
     res_bind (json_get ''character_id'' (json_int in32) j) (\<lambda>c.
     res_bind (json_get ''from_slot'' (json_int in32) j) (\<lambda>a.
     res_bind (json_get ''to_slot'' (json_int in32) j) (\<lambda>b. Inr (c, a, b))))"

definition MoveItemHandler :: "'c api_handler" where
  "MoveItemHandler r w =
     (if rq_Method r \<noteq> ''POST'' then (method_error, w)
      else case decode_body unmarshal_MoveRequest r of
        Inl _ \<Rightarrow> (body_error, w)
      | Inr (charID, fromSlot, toSlot) \<Rightarrow> (case requireOwnership r charID w of
          (Some resp, w1) \<Rightarrow> (resp, w1)
        | (None, w1) \<Rightarrow> (case MoveItem True (now_of r) charID fromSlot toSlot (ap_db w1) (ap_inv w1) of
            (res, d2, tr2) \<Rightarrow>
              (case res of
                 Inl e \<Rightarrow> if e = ErrSlotOutOfBounds \<or> e = ErrInvalidEquipmentSlot then WriteError 400 ''BAD_REQUEST''
                   else if e = ErrLevelRestricted \<or> e = ErrClassRestricted then WriteError 403 ''EQUIPMENT_RESTRICTED''
                   else if e = ErrItemNotFound then WriteError 404 ''ITEM_NOT_FOUND'' else server_error
               | Inr _ \<Rightarrow> WriteJSON 200 DRefreshStats, w1\<lparr>ap_db := d2, ap_inv := tr2\<rparr>))))"

definition unmarshal_AddRequest :: "json \<Rightarrow> (int \<times> string \<times> int) result" where
  "unmarshal_AddRequest j =
     res_bind (json_get ''character_id'' (json_int in32) j) (\<lambda>c.
     res_bind (json_get ''item_definition_id'' json_string j) (\<lambda>i.
     res_bind (json_get ''quantity'' (json_int in32) j) (\<lambda>q. Inr (c, i, q))))"

definition AddAdminItemHandler :: "'c api_handler" where
  "AddAdminItemHandler r w =
     (if rq_Method r \<noteq> ''POST'' then (method_error, w)
      else case decode_body unmarshal_AddRequest r of
        Inl _ \<Rightarrow> (body_error, w)
      | Inr (charID, itemID, quantity) \<Rightarrow>
          (case svc_AddItem True (now_of r) \<lparr>ii_ID = 0, ii_CharacterID = charID, ii_SlotIndex = 0,
                  ii_ItemDefinitionID = itemID, ii_Quantity = (if quantity \<le> 0 then 1 else quantity), ii_Durability = 100,
                  ii_CustomModifiers = [], ii_CreatedAt = 0, ii_UpdatedAt = 0, ii_ItemDetails = None\<rparr> (ap_db w) (ap_inv w) of
             (res, d1, tr1) \<Rightarrow> (case res of Inl _ \<Rightarrow> server_error | Inr item \<Rightarrow> WriteJSON 201 (DItem item),
                              w\<lparr>ap_db := d1, ap_inv := tr1\<rparr>)))"

subsection \<open>quests/handler.go\<close>

definition json_time :: "(string \<Rightarrow> int result) \<Rightarrow> json \<Rightarrow> int result" where
  "json_time pt j = (case j of JNull \<Rightarrow> Inr 0 | JStr s \<Rightarrow> pt s | _ \<Rightarrow> Inl json_err)"

definition unmarshal_QuestDefinition :: "(string \<Rightarrow> int result) \<Rightarrow> json \<Rightarrow> QuestDefinition result" where
  "unmarshal_QuestDefinition pt j =
     res_bind (json_get ''id'' json_string j) (\<lambda>i.
     res_bind (json_get ''title'' json_string j) (\<lambda>t.
     res_bind (json_get ''description'' json_string j) (\<lambda>d.
     res_bind (json_get ''min_level'' (json_int in32) j) (\<lambda>l.
     res_bind (json_get ''steps'' (json_array unmarshal_QuestStep) j) (\<lambda>st.
     res_bind (json_get ''rewards'' unmarshal_Rewards j) (\<lambda>rw.
     res_bind (json_get ''metadata'' unmarshal_Metadata j) (\<lambda>m.
     res_bind (json_get ''created_at'' (json_time pt) j) (\<lambda>c.
       Inr \<lparr>qd_ID = i, qd_Title = t, qd_Description = d, qd_MinLevel = l, qd_Steps = st, qd_Rewards = rw,
         qd_Metadata = m, qd_CreatedAt = c\<rparr>))))))))"

definition quests_CreateDefinitionHandler :: "('k, 'c) api \<Rightarrow> 'c api_handler" where
  "quests_CreateDefinitionHandler ad r w =
     (if rq_Method r \<noteq> ''POST'' then (method_error, w)
      else case decode_body (unmarshal_QuestDefinition (ad_ParseTime ad)) r of
        Inl _ \<Rightarrow> (body_error, w)
      | Inr qd \<Rightarrow>
          if qd_ID qd = [] \<or> qd_Title qd = [] then (WriteError 400 ''VALIDATION_FAILED'', w)
          else case on_game (quests_CreateDefinition (now_of r) qd) w of
            (Inl _, w1) \<Rightarrow> (server_error, w1) | (Inr stored, w1) \<Rightarrow> (WriteJSON 201 (DQuest stored), w1))"

definition quests_ListDefinitionsHandler :: "('k :: linorder, 'c) api \<Rightarrow> 'c api_handler" where
  "quests_ListDefinitionsHandler ad r w =
     (if rq_Method r \<noteq> ''GET'' then (method_error, w)
      else case ParsePage r 50 200 of (limit, offset) \<Rightarrow>
        (case on_game (quests_ListDefinitions (ad_col ad) limit offset) w of
           (Inl _, w1) \<Rightarrow> (server_error, w1) | (Inr defs, w1) \<Rightarrow> (WriteJSON 200 (DQuests defs), w1)))"

definition verifyOwner :: "(int \<Rightarrow> loot_tables DB QuestSvc) \<Rightarrow> request \<Rightarrow> int \<Rightarrow> 'c api_world \<Rightarrow> api_data response option \<times> 'c api_world" where
  "verifyOwner qs r charID w =
     (let userID = UserIDFromContext r in
      if userID = 0 then (Some no_user, w)
      else case on_game (gw_GetByID (qv_gateway (qs (now_of r))) charID) w of
        (Inl _, w1) \<Rightarrow> (Some no_character, w1)
      | (Inr char, w1) \<Rightarrow> (if ch_UserID (cw_Char char) \<noteq> userID then Some no_character else None, w1))"

definition AcceptQuestHandler :: "('k, 'c) api \<Rightarrow> 'c api_handler" where
  "AcceptQuestHandler ad r w =
     (if rq_Method r \<noteq> ''POST'' then (method_error, w)
      else case path_id 32 r of
        None \<Rightarrow> (WriteError 400 ''INVALID_ID'', w)
      | Some charID \<Rightarrow> (case verifyOwner (ad_quests ad) r charID w of
          (Some resp, w1) \<Rightarrow> (resp, w1)
        | (None, w1) \<Rightarrow> (case decode_body (json_get ''quest_id'' json_string) r of
            Inl _ \<Rightarrow> (body_error, w1)
          | Inr questID \<Rightarrow>
             (case AcceptQuest (ad_quests ad (now_of r)) (now_of r) charID questID (ap_db w1) (ap_quest w1) of
                (res, d2, tr2) \<Rightarrow>
                  (case res of
                     Inl e \<Rightarrow> if e = ErrLevelRequirement then WriteError 403 ''LEVEL_RESTRICTION''
                       else if e = ErrQuestAlreadyActive \<or> e = Sentinel ''quests.ErrQuestAlreadyCompleted''
                       then WriteError 409 ''QUEST_CONFLICT'' else server_error
                   | Inr _ \<Rightarrow> WriteJSON 200 (DQuestAccepted questID QuestStatusActive),
                   w1\<lparr>ap_db := d2, ap_quest := tr2\<rparr>)))))"

definition GetQuestLogHandler :: "('k, 'c) api \<Rightarrow> 'c api_handler" where
  "GetQuestLogHandler ad r w =
     (if rq_Method r \<noteq> ''GET'' then (method_error, w)
      else case path_id 32 r of
        None \<Rightarrow> (WriteError 400 ''INVALID_ID'', w)
      | Some charID \<Rightarrow> (case verifyOwner (ad_quests ad) r charID w of
          (Some resp, w1) \<Rightarrow> (resp, w1)
        | (None, w1) \<Rightarrow> (case on_game (quests_ListCharacterQuests charID) w1 of
            (Inl _, w2) \<Rightarrow> (server_error, w2) | (Inr cqs, w2) \<Rightarrow> (WriteJSON 200 (DQuestLog cqs), w2))))"

definition unmarshal_ProgressRequest :: "json \<Rightarrow> (int \<times> string \<times> string \<times> int) result" where
  "unmarshal_ProgressRequest j =
     res_bind (json_get ''character_id'' (json_int in32) j) (\<lambda>c.
     res_bind (json_get ''action_type'' json_string j) (\<lambda>a.
     res_bind (json_get ''target'' json_string j) (\<lambda>t.
     res_bind (json_get ''amount'' (json_int in32) j) (\<lambda>n. Inr (c, a, t, n)))))"

definition UpdateQuestProgressHandler :: "('k, 'c) api \<Rightarrow> 'c api_handler" where
  "UpdateQuestProgressHandler ad r w =
     (if rq_Method r \<noteq> ''POST'' then (method_error, w)
      else case decode_body unmarshal_ProgressRequest r of
        Inl _ \<Rightarrow> (body_error, w)
      | Inr (charID, actionType, target, amount) \<Rightarrow>
          (case UpdateQuestProgress (ad_quests ad (now_of r)) (now_of r) charID actionType target
                  (if amount \<le> 0 then 1 else amount) (ap_db w) (ap_quest w) of
             (res, d1, tr1) \<Rightarrow> (case res of Some _ \<Rightarrow> server_error | None \<Rightarrow> WriteJSON 200 DUpdated,
                              w\<lparr>ap_db := d1, ap_quest := tr1\<rparr>)))"

subsection \<open>items/handler.go\<close>

definition unmarshal_ItemDefinition :: "(string \<Rightarrow> int result) \<Rightarrow> json \<Rightarrow> ItemDefinition result" where
  "unmarshal_ItemDefinition pt j =
     res_bind (json_get ''id'' json_string j) (\<lambda>i.
     res_bind (json_get ''name'' json_string j) (\<lambda>n.
     res_bind (json_get ''description'' json_string j) (\<lambda>d.
     res_bind (json_get ''slot_type'' json_string j) (\<lambda>st.
     res_bind (json_get ''min_level'' (json_int in32) j) (\<lambda>l.
     res_bind (json_get ''class_restrictions'' (json_array json_string) j) (\<lambda>cr.
     res_bind (json_get ''stats_modifiers'' unmarshal_Modifiers j) (\<lambda>ms.
     res_bind (json_get ''metadata'' unmarshal_Metadata j) (\<lambda>m.
     res_bind (json_get ''created_at'' (json_time pt) j) (\<lambda>c.
       Inr \<lparr>it_ID = i, it_Name = n, it_Description = d, it_SlotType = st, it_MinLevel = l,
         it_ClassRestrictions = cr, it_StatsModifiers = ms, it_Metadata = m, it_CreatedAt = c\<rparr>)))))))))"

definition items_CreateHandler :: "('k, 'c) api \<Rightarrow> 'c api_handler" where
  "items_CreateHandler ad r w =
     (if rq_Method r \<noteq> ''POST'' then (method_error, w)
      else case decode_body (unmarshal_ItemDefinition (ad_ParseTime ad)) r of
        Inl _ \<Rightarrow> (body_error, w)
      | Inr item \<Rightarrow> (case on_game (items_svc_Create (now_of r) item) w of
          (Inl e, w1) \<Rightarrow> (if e = ErrItemAlreadyExists then WriteError 409 ''ITEM_ALREADY_EXISTS''
             else if e = ErrInvalidSlotType \<or> e = ErrInvalidModifierType then WriteError 400 ''VALIDATION_FAILED''
             else server_error, w1)
        | (Inr stored, w1) \<Rightarrow> (WriteJSON 201 (DItemDef stored), w1)))"

text \<open>The service normalises the item in place, so the response shows it validated.\<close>

definition items_UpdateHandler :: "('k, 'c) api \<Rightarrow> 'c api_handler" where
  "items_UpdateHandler ad r w =
     (if rq_Method r \<noteq> ''PUT'' \<and> rq_Method r \<noteq> ''POST'' then (method_error, w)
      else if rq_PathValue r ''id'' = [] then (WriteError 400 ''INVALID_ID'', w)
      else case decode_body (unmarshal_ItemDefinition (ad_ParseTime ad)) r of
        Inl _ \<Rightarrow> (body_error, w)
      | Inr item0 \<Rightarrow> let item = item0\<lparr>it_ID := rq_PathValue r ''id''\<rparr> in
         (case on_game (items_svc_Update item) w of
            (Inl e, w1) \<Rightarrow> (if e = items_ErrItemNotFound then WriteError 404 ''ITEM_NOT_FOUND''
               else if e = ErrInvalidSlotType \<or> e = ErrInvalidModifierType then WriteError 400 ''VALIDATION_FAILED''
               else server_error, w1)
          | (Inr _, w1) \<Rightarrow> (WriteJSON 200 (DItemDef (case items_validate item of Inr v \<Rightarrow> v | Inl _ \<Rightarrow> item)), w1)))"

definition items_GetHandler :: "'c api_handler" where
  "items_GetHandler r w =
     (if rq_Method r \<noteq> ''GET'' then (method_error, w)
      else if rq_PathValue r ''id'' = [] then (WriteError 400 ''INVALID_ID'', w)
      else case on_game (items_svc_GetByID (rq_PathValue r ''id'')) w of
        (Inl e, w1) \<Rightarrow> (if e = items_ErrItemNotFound then WriteError 404 ''ITEM_NOT_FOUND'' else server_error, w1)
      | (Inr item, w1) \<Rightarrow> (WriteJSON 200 (DItemDef item), w1))"

definition items_ListHandler :: "('k :: linorder, 'c) api \<Rightarrow> 'c api_handler" where
  "items_ListHandler ad r w =
     (if rq_Method r \<noteq> ''GET'' then (method_error, w)
      else case ParsePage r 50 200 of (limit, offset) \<Rightarrow>
        (case on_game (items_List (ad_col ad) limit offset) w of
           (Inl _, w1) \<Rightarrow> (server_error, w1) | (Inr items, w1) \<Rightarrow> (WriteJSON 200 (DItemDefs items), w1)))"

definition items_DeleteHandler :: "'c api_handler" where
  "items_DeleteHandler r w =
     (if rq_Method r \<noteq> ''DELETE'' then (method_error, w)
      else if rq_PathValue r ''id'' = [] then (WriteError 400 ''INVALID_ID'', w)
      else case on_game (items_svc_Delete (rq_PathValue r ''id'')) w of
        (Inl e, w1) \<Rightarrow> (if e = items_ErrItemNotFound then WriteError 404 ''ITEM_NOT_FOUND'' else server_error, w1)
      | (Inr _, w1) \<Rightarrow> (WriteJSON 200 DDeleted, w1))"

subsection \<open>loot/handler.go\<close>

definition CreateLootTableHandler :: "('k, 'c) api \<Rightarrow> 'c api_handler" where
  "CreateLootTableHandler ad r w =
     (if rq_Method r \<noteq> ''POST'' then (method_error, w)
      else case decode_body unmarshal_LootTable r of
        Inl _ \<Rightarrow> (body_error, w)
      | Inr lt \<Rightarrow>
          if lt_ID lt = [] then (WriteError 400 ''VALIDATION_FAILED'', w)
          else case cached_CreateLootTable (ad_lootcache ad) lt (ap_db w, ap_cache w) of
            (res, d1, c1) \<Rightarrow> (case res of Inl _ \<Rightarrow> server_error | Inr _ \<Rightarrow> WriteJSON 201 (DLoot lt),
                            w\<lparr>ap_db := d1, ap_cache := c1\<rparr>))"

definition ListLootTablesHandler :: "('k :: linorder, 'c) api \<Rightarrow> 'c api_handler" where
  "ListLootTablesHandler ad r w =
     (if rq_Method r \<noteq> ''GET'' then (method_error, w)
      else case ParsePage r 50 200 of (limit, offset) \<Rightarrow>
        (case on_game (repo_ListLootTables (ad_col ad) limit offset) w of
           (Inl _, w1) \<Rightarrow> (server_error, w1) | (Inr ls, w1) \<Rightarrow> (WriteJSON 200 (DLoots ls), w1)))"

subsection \<open>The routes of the plugins\<close>

definition auth_routes :: "('k :: linorder, 'c) api \<Rightarrow> (string \<times> 'c api_handler) list" where
  "auth_routes ad =
     [(''/api/v1/auth/register'', RegisterHandler ad),
      (''/api/v1/auth/login'', LoginHandler ad),
      (''/api/v1/auth/refresh'', RefreshHandler ad),
      (''/api/v1/auth/logout'', LogoutHandler ad),
      (''/api/v1/auth/me'', AuthMiddleware (ad_parse ad) (ad_secret ad) MeHandler)]"

definition character_routes :: "('k :: linorder, 'c) api \<Rightarrow> (string \<times> 'c api_handler) list" where
  "character_routes ad = (let mw = AuthMiddleware (ad_parse ad) (ad_secret ad) in
     [(''POST /api/v1/characters'', mw (character_CreateHandler ad)),
      (''GET /api/v1/characters'', mw character_ListHandler),
      (''GET /api/v1/characters/{id}'', mw character_GetHandler),
      (''GET /api/v1/characters/{id}/stats'', mw character_GetStatsHandler)])"

definition inventory_routes :: "('k :: linorder, 'c) api \<Rightarrow> (string \<times> 'c api_handler) list" where
  "inventory_routes ad = (let mw = AuthMiddleware (ad_parse ad) (ad_secret ad); ao = AdminOnly (ad_parse ad) (ad_secret ad) in
     [(''GET /api/v1/characters/{id}/inventory'', mw GetInventoryHandler),
      (''POST /api/v1/inventory/move'', mw MoveItemHandler),
      (''POST /api/v1/admin/inventory/add'', ao AddAdminItemHandler)])"

definition quests_routes :: "('k :: linorder, 'c) api \<Rightarrow> (string \<times> 'c api_handler) list" where
  "quests_routes ad = (let mw = AuthMiddleware (ad_parse ad) (ad_secret ad); ao = AdminOnly (ad_parse ad) (ad_secret ad) in
     [(''POST /api/v1/admin/quests'', ao (quests_CreateDefinitionHandler ad)),
      (''GET /api/v1/quests'', mw (quests_ListDefinitionsHandler ad)),
      (''POST /api/v1/characters/{id}/quests/accept'', mw (AcceptQuestHandler ad)),
      (''GET /api/v1/characters/{id}/quests'', mw (GetQuestLogHandler ad)),
      (''POST /api/v1/admin/quests/progress'', ao (UpdateQuestProgressHandler ad))])"

definition items_routes :: "('k :: linorder, 'c) api \<Rightarrow> (string \<times> 'c api_handler) list" where
  "items_routes ad = (let mw = AuthMiddleware (ad_parse ad) (ad_secret ad); ao = AdminOnly (ad_parse ad) (ad_secret ad) in
     [(''POST /api/v1/admin/items'', ao (items_CreateHandler ad)),
      (''PUT /api/v1/admin/items/{id}'', ao (items_UpdateHandler ad)),
      (''GET /api/v1/admin/items'', mw (items_ListHandler ad)),
      (''GET /api/v1/admin/items/{id}'', mw items_GetHandler),
      (''DELETE /api/v1/admin/items/{id}'', ao items_DeleteHandler)])"

definition loot_routes :: "('k :: linorder, 'c) api \<Rightarrow> (string \<times> 'c api_handler) list" where
  "loot_routes ad =
     [(''POST /api/v1/admin/loot'', AdminOnly (ad_parse ad) (ad_secret ad) (CreateLootTableHandler ad)),
      (''GET /api/v1/admin/loot'', AuthMiddleware (ad_parse ad) (ad_secret ad) (ListLootTablesHandler ad))]"

definition api_routes :: "('k :: linorder, 'c) api \<Rightarrow> (string \<times> 'c api_handler) list" where
  "api_routes ad = auth_routes ad @ character_routes ad @ inventory_routes ad @ quests_routes ad @ items_routes ad @ loot_routes ad"

subsection \<open>What belongs to a character\<close>

text \<open>
  The rows of character \<open>c\<close>, and the catalogues every player shares: item definitions, quest
  definitions, loot tables. \<open>reveals\<close> is the set of characters whose rows a response shows.
\<close>

definition char_rows :: "int \<Rightarrow> 'x quest_tables_scheme \<Rightarrow>
    CharRow option \<times> StatsRow option \<times> InvRow list \<times> ((int \<times> string) \<times> CQRow) list" where
  "char_rows c t = (map_of (t_characters t) c, map_of (t_character_stats t) c,
     filter (\<lambda>i. iv_character_id i = c) (t_inventories t), filter (\<lambda>x. fst (fst x) = c) (t_char_quests t))"

definition catalogues :: "'x loot_tables_scheme \<Rightarrow> (string \<times> ItemRow) list \<times> (string \<times> QuestRow) list \<times> (string \<times> LootRow) list" where
  "catalogues t = (t_items t, t_quests t, t_loot t)"

definition others :: "int \<Rightarrow> 'x loot_tables_scheme \<Rightarrow> _" where
  "others c t = (char_rows c t, catalogues t)"

definition reveals :: "api_data response \<Rightarrow> int set" where
  "reveals resp = (case rp_Data resp of
     Some (DCharacter cw) \<Rightarrow> {cw_ID cw}
   | Some (DCharacters cs) \<Rightarrow> fst ` set cs
   | Some (DStats i _ _) \<Rightarrow> {i}
   | Some (DInventory is) \<Rightarrow> ii_CharacterID ` set is
   | Some (DItem i) \<Rightarrow> {ii_CharacterID i}
   | Some (DQuestLog l) \<Rightarrow> cq_CharacterID ` set l
   | _ \<Rightarrow> {})"

lemma reveals_simps [simp]:
  "reveals (WriteError s e) = {}" "reveals (WriteJSON s (DCharacter cw)) = {cw_ID cw}"
  "reveals (WriteJSON s (DCharacters cs)) = fst ` set cs" "reveals (WriteJSON s (DStats i b dv)) = {i}"
  "reveals (WriteJSON s (DInventory is)) = ii_CharacterID ` set is"
  "reveals (WriteJSON s (DQuestLog l)) = cq_CharacterID ` set l"
  "reveals (WriteJSON s DRefreshStats) = {}" "reveals (WriteJSON s (DQuests qs)) = {}"
  "reveals (WriteJSON s (DQuestAccepted q st)) = {}" "reveals (WriteJSON s (DItemDef it)) = {}"
  "reveals (WriteJSON s (DItemDefs ids)) = {}" "reveals (WriteJSON s (DLoots ls)) = {}"
  "reveals (WriteJSON s (DIdentity n un)) = {}" "reveals (WriteJSON s (DUser n un em)) = {}"
  "reveals (WriteJSON s (DTokens tp)) = {}" "reveals (WriteJSON s DRevoked) = {}"
  by (simp_all add: reveals_def)

subsection \<open>What the services leave alone\<close>

lemma others_upd [simp]:
  "others c (t\<lparr>t_inventories := rows\<rparr>) = (case others c t of ((a, b, _, q), k) \<Rightarrow>
     ((a, b, filter (\<lambda>i. iv_character_id i = c) rows, q), k))"
  "others c (t\<lparr>t_char_quests := qs\<rparr>) = (case others c t of ((a, b, i, _), k) \<Rightarrow>
     ((a, b, i, filter (\<lambda>x. fst (fst x) = c) qs), k))"
  by (simp_all add: others_def char_rows_def catalogues_def)

lemma frames_update_slot:
  assumes "charID \<noteq> c" "\<And>i. iv_character_id (touch i) = iv_character_id i"
  shows "frames (others c) (update_slot touch charID from to)"
proof -
  have "filter (\<lambda>i. iv_character_id i = c) (map (\<lambda>i. if slot_key i = (charID, from) then touch (i\<lparr>iv_slot_index := to\<rparr>) else i) rows)
     = filter (\<lambda>i. iv_character_id i = c) rows" for rows
    using assms by (induction rows) auto
  then show ?thesis unfolding update_slot_def
    by (intro frames_stmt) (auto simp: Let_def others_def char_rows_def catalogues_def split: if_splits)
qed

lemma frames_inv_Move: "charID \<noteq> c \<Longrightarrow> frames (others c) (inv_Move now charID from to)"
  unfolding inv_Move_def by (intro frames_bind frames_return frames_update_slot) auto

lemma frames_inv_Swap: "charID \<noteq> c \<Longrightarrow> frames (others c) (inv_Swap charID a b)"
proof -
  assume "charID \<noteq> c"
  then have "frames (others c) (\<lambda>d. inv_Swap charID a b d)"
    unfolding inv_Swap_def by (intro frames_WithinTx frames_bind frames_return frames_update_slot) auto
  then show ?thesis by simp
qed

lemma frames_move_write: "charID \<noteq> c \<Longrightarrow> frames (others c) (move_write now charID from to destItem)"
  unfolding move_write_def using frames_reads [OF reads_validate]
  by (cases destItem) (auto intro!: frames_bind frames_return frames_inv_Move frames_inv_Swap)

lemma MoveItem_others:
  assumes "MoveItem b now charID from to d tr = (r, d', tr')" "charID \<noteq> c"
  shows "others c (db_tables d') = others c (db_tables d)"
proof -
  let ?m = "tx_bind (inv_GetBySlot charID from) (\<lambda>item.
             tx_bind (if isEquipmentSlot to then validateEquipmentRequirements charID item to
                      else tx_return (Inr ())) (\<lambda>_.
             tx_bind (dest_item charID to) (\<lambda>destItem.
             tx_bind (move_write now charID from to destItem) (\<lambda>_.
             tx_return (Inr (move_events charID item destItem (isEquipmentSlot from) (isEquipmentSlot to)))))))"
  have "frames (others c) ?m" using assms(2)
    by (auto intro!: frames_bind frames_return frames_move_write frames_reads [OF reads_GetBySlot]
        frames_reads [OF reads_validate] frames_reads [OF reads_dest_item])
  moreover obtain x d1 where "?m d = (x, d1)" by fastforce
  ultimately show ?thesis using assms(1)
    by (auto simp: MoveItem_def split: if_splits sum.splits dest: framesD)
qed

lemma frames_quests_AcceptQuest: "charID \<noteq> c \<Longrightarrow> frames (others c) (quests_AcceptQuest now charID q ps)"
  unfolding quests_AcceptQuest_def
  by (intro frames_stmt) (auto simp: others_def char_rows_def catalogues_def split: if_splits)

lemma AcceptQuest_others:
  assumes "AcceptQuest svc now charID q d tr = (r, d', tr')" "charID \<noteq> c" "reads (gw_GetByID (qv_gateway svc) charID)"
  shows "others c (db_tables d') = others c (db_tables d)"
proof -
  have "frames (others c) (accept_sequence svc now charID q)"
    unfolding accept_sequence_def using assms(2)
    by (auto intro!: frames_bind frames_return frames_quests_AcceptQuest frames_reads [OF reads_GetDefinition]
        frames_reads [OF assms(3)] frames_reads [OF reads_ListCharacterQuests] split: option.splits prod.splits)
  moreover obtain x d1 where "accept_sequence svc now charID q d = (x, d1)" by fastforce
  ultimately show ?thesis using assms(1) by (auto simp: AcceptQuest_def split: sum.splits dest: framesD)
qed

lemma character_GetByID_ID: "character_GetByID i d = (Inr cw, d') \<Longrightarrow> cw_ID cw = i"
  by (auto simp: character_GetByID_def elim!: tx_bind_Inr split: prod.splits)

lemma svc_Create_others:
  assumes "svc_Create svc now userID name cls d = (r, d')" "chars_ok (db_tables d)"
    "map_of (t_characters (db_tables d)) c = Some row"
  shows "others c (db_tables d') = others c (db_tables d)" "r = Inr cw \<Longrightarrow> cw_ID cw \<noteq> c"
proof -
  have "others c (db_tables d') = others c (db_tables d) \<and> (r = Inr cw \<longrightarrow> cw_ID cw \<noteq> c)"
  proof (cases "db_tables d' = db_tables d \<and> (\<forall>cw. r \<noteq> Inr cw)")
    case True
    then show ?thesis by simp
  next
    case False
    then obtain cn cb dv where run: "tx_bind (character_Create now userID (TrimSpace name) cn cb dv) character_GetByID d = (r, d')"
      using assms(1) by (auto simp: svc_Create_def Let_def split: if_splits option.splits sum.splits)
    obtain x d1 where x: "character_Create now userID (TrimSpace name) cn cb dv d = (x, d1)" by fastforce
    show ?thesis
    proof (cases x)
      case (Inl e)
      then show ?thesis using run x by (auto simp: tx_bind_def character_Create_def dest: WithinTx_atomic)
    next
      case (Inr i)
      have i: "i = t_characters_seq (db_tables d) + 1" using character_Create_Inr [OF x [unfolded Inr]] by blast
      have "c \<in> set (keys (t_characters (db_tables d)))" unfolding set_keys_iff using assms(3) by simp
      then have "c \<le> t_characters_seq (db_tables d)" using assms(2) unfolding chars_ok_def by blast
      then have ne: "i \<noteq> c" using i by simp
      obtain nr srow where t: "db_tables d1 = (db_tables d)\<lparr>t_characters_seq := i,
          t_characters := t_characters (db_tables d) @ [(i, nr)],
          t_character_stats := AList.update i srow (t_character_stats (db_tables d))\<rparr>"
        using character_Create_Inr [OF x [unfolded Inr]] by blast
      have "others c (db_tables d1) = others c (db_tables d)"
        using ne assms(3) by (simp add: t others_def char_rows_def catalogues_def)
      moreover from run x Inr have g: "character_GetByID i d1 = (r, d')" by (simp add: tx_bind_def)
      ultimately show ?thesis using readsD [OF reads_GetByID g] ne character_GetByID_ID g by metis
    qed
  qed
  then show "others c (db_tables d') = others c (db_tables d)" "r = Inr cw \<Longrightarrow> cw_ID cw \<noteq> c" by auto
qed

subsection \<open>What the listings show\<close>

lemma scan_rows_mem: "scan_rows scan rows = Inr as \<Longrightarrow> a \<in> set as \<Longrightarrow> \<exists>r \<in> set rows. scan r = Inr a"
  by (induction rows arbitrary: as) (auto simp: res_bind_def split: sum.splits)

lemma fetched_mem: "fetch_rows rows d = ((got, e), d') \<Longrightarrow> r \<in> set got \<Longrightarrow> r \<in> set rows"
  using fetch_rows_prefix [of rows d got e d'] by auto

lemma ListByCharacter_owner:
  assumes "inv_ListByCharacter c d = (Inr its, d')" "i \<in> set its"
  shows "ii_CharacterID i = c"
proof -
  from assms(1) obtain rows d1 got e where q: "db_stmt (\<lambda>t. Inr (sort_key (\<lambda>(i, _). iv_slot_index i)
      (joined t (\<lambda>i. iv_character_id i = c)), t)) d = (Inr rows, d1)"
    "fetch_rows rows d1 = ((got, e), d')" "scan_rows scan_item got = Inr its"
    unfolding inv_ListByCharacter_def by (auto elim!: tx_bind_Inr split: prod.splits)
  obtain x where "x \<in> set rows" "scan_item x = Inr i"
    using scan_rows_mem [OF q(3) assms(2)] fetched_mem [OF q(2)] by blast
  with db_stmt_upd [OF q(1)] show ?thesis
    by (cases x) (auto simp: set_joined scan_item_def res_bind_def split: sum.splits)
qed

lemma ListCharacterQuests_owner:
  assumes "quests_ListCharacterQuests c d = (Inr qs, d')" "q \<in> set qs"
  shows "cq_CharacterID q = c"
proof -
  from assms(1) obtain rows d1 got e where r: "db_stmt (\<lambda>t. Inr (sort_key (\<lambda>x. - cr_updated_at (snd (fst x)))
      (quest_join t (\<lambda>k. fst k = c)), t)) d = (Inr rows, d1)"
    "fetch_rows rows d1 = ((got, e), d')" "scan_rows scan_char_quest got = Inr qs"
    unfolding quests_ListCharacterQuests_def by (auto elim!: tx_bind_Inr split: prod.splits)
  obtain x where x: "x \<in> set rows" "scan_char_quest x = Inr q"
    using scan_rows_mem [OF r(3) assms(2)] fetched_mem [OF r(2)] by blast
  from x(1) db_stmt_upd [OF r(1)] have "fst (fst (fst x)) = c"
    by (auto simp: quest_join_def List.map_filter_def split: if_splits)
  with x(2) show ?thesis
    by (cases x) (auto simp: scan_char_quest_def res_bind_def split: sum.splits)
qed

lemma ListByUserID_owner:
  assumes "character_ListByUserID u d = (Inr cs, d')" "x \<in> set cs"
  shows "x \<in> set (t_characters (db_tables d)) \<and> ch_UserID (snd x) = u"
proof -
  obtain d1 e where c: "db_call d = (None, d1)"
    and f: "fetch_rows (sort_key fst (filter (\<lambda>(_, c). ch_UserID c = u) (t_characters (db_tables d1)))) d1 = ((cs, e), d')"
    using assms(1) by (auto simp: character_ListByUserID_def split: prod.splits option.splits)
  from fetched_mem [OF f assms(2)] db_call_tables [OF c] show ?thesis by (auto split: prod.splits)
qed

lemma reads_ListByUserID: "reads (character_ListByUserID u)"
  by (auto simp: reads_def character_ListByUserID_def split: prod.splits option.splits dest: fetch_rows_tables)

lemma reads_listings:
  "reads (quests_ListDefinitions col a b)" "reads (items_List col a b)" "reads (repo_ListLootTables col a b)"
  unfolding quests_ListDefinitions_def items_List_def repo_ListLootTables_def
  by (intro reads_bind reads_stmt reads_fetch; auto split: if_splits)+

lemma reads_items_svc_GetByID: "reads (items_svc_GetByID i)"
  unfolding items_svc_GetByID_def items_GetByID_def Let_def
  by (auto intro!: reads_bind reads_return reads_map_err reads_stmt split: option.splits)

lemma VerifyOwnership_Inr:
  assumes "VerifyOwnership u c d = (Inr x, d')"
  shows "\<exists>row. map_of (t_characters (db_tables d)) c = Some row \<and> ch_UserID row = u"
  using assms unfolding VerifyOwnership_def
  by (auto elim!: tx_bind_Inr dest!: character_GetByID_char split: if_splits)

lemma reads_VerifyOwnership: "reads (VerifyOwnership u c)"
  unfolding VerifyOwnership_def by (intro reads_bind reads_GetByID reads_return)

lemma on_game_reads: "on_game m w = (x, w') \<Longrightarrow> reads m \<Longrightarrow> db_tables (ap_db w') = db_tables (ap_db w)"
  by (auto simp: on_game_def split: prod.splits dest: readsD)

lemma on_gameE:
  assumes "on_game m w = (x, w')"
  obtains d where "m (ap_db w) = (x, d)" "w' = w\<lparr>ap_db := d\<rparr>"
  using assms by (auto simp: on_game_def split: prod.splits)

lemma on_auth_db [simp]: "on_auth m w = (x, w') \<Longrightarrow> ap_db w' = ap_db w"
  by (auto simp: on_auth_def split: prod.splits)

subsection \<open>Isolation, handler by handler\<close>

text \<open>
  A handler isolates: what it does for a user leaves every character of another user and the
  catalogues as they are and shows nothing of it.
\<close>

definition isolates :: "'c api_handler \<Rightarrow> bool" where
  "isolates h \<longleftrightarrow> (\<forall>r w resp w' c row. h r w = (resp, w') \<longrightarrow> chars_ok (db_tables (ap_db w)) \<longrightarrow>
     map_of (t_characters (db_tables (ap_db w))) c = Some row \<longrightarrow> ch_UserID row \<noteq> UserIDFromContext r \<longrightarrow>
     others c (db_tables (ap_db w')) = others c (db_tables (ap_db w)) \<and> c \<notin> reveals resp)"

lemma isolatesI:
  assumes "\<And>r w resp w' c row. h r w = (resp, w') \<Longrightarrow> chars_ok (db_tables (ap_db w)) \<Longrightarrow>
     map_of (t_characters (db_tables (ap_db w))) c = Some row \<Longrightarrow> ch_UserID row \<noteq> UserIDFromContext r \<Longrightarrow>
     others c (db_tables (ap_db w')) = others c (db_tables (ap_db w)) \<and> c \<notin> reveals resp"
  shows "isolates h"
  using assms unfolding isolates_def by blast

lemma requireOwnership_None:
  assumes "requireOwnership r charID w = (x, w1)"
  shows "db_tables (ap_db w1) = db_tables (ap_db w) \<and> ap_inv w1 = ap_inv w \<and>
    (case x of Some resp \<Rightarrow> reveals resp = {} | None \<Rightarrow> \<exists>row. map_of (t_characters (db_tables (ap_db w))) charID = Some row \<and>
       ch_UserID row = UserIDFromContext r)"
  using assms by (auto simp: requireOwnership_def Let_def split: if_splits sum.splits prod.splits elim!: on_gameE
      dest: readsD [OF reads_VerifyOwnership] VerifyOwnership_Inr)

lemma verifyOwner_None:
  assumes "verifyOwner qs r charID w = (x, w1)" "\<And>now. qv_gateway (qs now) = game_gateway pow cs now"
  shows "db_tables (ap_db w1) = db_tables (ap_db w) \<and>
    (case x of Some resp \<Rightarrow> reveals resp = {} | None \<Rightarrow> \<exists>row. map_of (t_characters (db_tables (ap_db w))) charID = Some row \<and>
       ch_UserID row = UserIDFromContext r)"
  using assms by (auto simp: verifyOwner_def Let_def game_gateway_def split: if_splits sum.splits prod.splits elim!: on_gameE
      dest: readsD [OF reads_GetByID] character_GetByID_char)

text \<open>Handlers that only read.\<close>

lemma isolates_List: "isolates character_ListHandler"
proof (rule isolatesI)
  fix r resp c row and w w' :: "'c api_world"
  assume h: "character_ListHandler r w = (resp, w')" and ok: "chars_ok (db_tables (ap_db w))"
    and c: "map_of (t_characters (db_tables (ap_db w))) c = Some row" "ch_UserID row \<noteq> UserIDFromContext r"
  obtain x w1 where x: "on_game (character_ListByUserID (UserIDFromContext r)) w = (x, w1)" by fastforce
  have "c \<notin> fst ` set cs" if "x = Inr cs" for cs
  proof
    assume "c \<in> fst ` set cs"
    then obtain row' where m: "(c, row') \<in> set cs" by auto
    from x that obtain d where "character_ListByUserID (UserIDFromContext r) (ap_db w) = (Inr cs, d)" by (auto elim: on_gameE)
    from ListByUserID_owner [OF this m] have "(c, row') \<in> set (t_characters (db_tables (ap_db w)))"
      "ch_UserID row' = UserIDFromContext r" by simp_all
    moreover from this(1) ok have "map_of (t_characters (db_tables (ap_db w))) c = Some row'"
      by (simp add: chars_ok_def al_ok_def)
    ultimately show False using c by simp
  qed
  then show "others c (db_tables (ap_db w')) = others c (db_tables (ap_db w)) \<and> c \<notin> reveals resp"
    using h x on_game_reads [OF x reads_ListByUserID]
    by (auto simp: character_ListHandler_def Let_def split: if_splits sum.splits)
qed

lemma isolates_Get: "isolates character_GetHandler" "isolates character_GetStatsHandler"
proof -
  have g: "db_tables (ap_db w1) = db_tables (ap_db w) \<and>
      (x = Inr cw \<longrightarrow> cw_ID cw = i \<and> map_of (t_characters (db_tables (ap_db w))) i = Some (cw_Char cw))"
    if "on_game (character_GetByID i) w = (x, w1)" for i x cw and w w1 :: "'c api_world"
    using that by (auto elim!: on_gameE dest: readsD [OF reads_GetByID] character_GetByID_ID character_GetByID_char)
  show "isolates (character_GetHandler :: 'c api_handler)"
    by (rule isolatesI) (fastforce simp: character_GetHandler_def Let_def split: if_splits option.splits sum.splits prod.splits dest: g)
  show "isolates (character_GetStatsHandler :: 'c api_handler)"
    by (rule isolatesI) (fastforce simp: character_GetStatsHandler_def Let_def split: if_splits option.splits sum.splits prod.splits dest: g)
qed

lemma isolates_listing:
  assumes "\<And>r w resp w'. h r w = (resp, w') \<Longrightarrow> db_tables (ap_db w') = db_tables (ap_db w) \<and> reveals resp = {}"
  shows "isolates h"
  by (rule isolatesI) (auto dest!: assms)

lemma isolates_listings:
  "isolates (quests_ListDefinitionsHandler ad)" "isolates (items_ListHandler ad)" "isolates (ListLootTablesHandler ad)"
  "isolates items_GetHandler" "isolates MeHandler"
  by (rule isolates_listing; auto simp: quests_ListDefinitionsHandler_def items_ListHandler_def ListLootTablesHandler_def
      items_GetHandler_def MeHandler_def split: if_splits prod.splits sum.splits
      dest: on_game_reads [OF _ reads_listings(1)] on_game_reads [OF _ reads_listings(2)]
        on_game_reads [OF _ reads_listings(3)] on_game_reads [OF _ reads_items_svc_GetByID])+

lemma isolates_auth:
  "isolates (RegisterHandler ad)" "isolates (LoginHandler ad)" "isolates (RefreshHandler ad)" "isolates (LogoutHandler ad)"
  by (rule isolates_listing; auto simp: RegisterHandler_def LoginHandler_def RefreshHandler_def LogoutHandler_def
      split: if_splits prod.splits sum.splits option.splits)+

lemma reveals_if: "reveals (if b then x else y) = (if b then reveals x else reveals y)"
  by simp

lemma isolates_Create: "isolates (character_CreateHandler ad)"
proof (rule isolatesI)
  fix r resp c row w w'
  assume h: "character_CreateHandler ad r w = (resp, w')" and ok: "chars_ok (db_tables (ap_db w))"
    and c: "map_of (t_characters (db_tables (ap_db w))) c = Some row" "ch_UserID row \<noteq> UserIDFromContext r"
  have g: "others c (db_tables (ap_db w1)) = others c (db_tables (ap_db w)) \<and> (x = Inr cw \<longrightarrow> cw_ID cw \<noteq> c)"
    if "on_game (svc_Create (ad_chars ad) now u n cl) w = (x, w1)" for now u n cl x cw w1
  proof -
    from that obtain d where d: "svc_Create (ad_chars ad) now u n cl (ap_db w) = (x, d)" "w1 = w\<lparr>ap_db := d\<rparr>"
      by (rule on_gameE)
    show ?thesis using svc_Create_others [OF d(1) ok c(1)] d(2) by simp
  qed
  let ?dec = "decode_body (\<lambda>j. res_bind (json_get ''name'' json_string j) (\<lambda>n.
             res_bind (json_get ''class_name'' json_string j) (\<lambda>c. Inr (n, c)))) r"
  show "others c (db_tables (ap_db w')) = others c (db_tables (ap_db w)) \<and> c \<notin> reveals resp"
  proof (cases "rq_Method r \<noteq> ''POST'' \<or> UserIDFromContext r = 0 \<or> (\<exists>e. ?dec = Inl e)")
    case True
    then show ?thesis using h by (auto simp: character_CreateHandler_def Let_def split: if_splits)
  next
    case False
    then obtain n cl where d: "?dec = Inr (n, cl)" by (cases ?dec) auto
    obtain x w1 where x: "on_game (svc_Create (ad_chars ad) (now_of r) (UserIDFromContext r) n cl) w = (x, w1)" by fastforce
    show ?thesis using False h d x g [OF x, of "projr x"] by (cases x) (auto simp: character_CreateHandler_def Let_def reveals_if cong: if_cong)
  qed
qed

lemma requireOwnership_cases:
  assumes "requireOwnership r i w = (x, w1)" "map_of (t_characters (db_tables (ap_db w))) c = Some row"
    "ch_UserID row \<noteq> UserIDFromContext r"
  obtains resp where "x = Some resp" "reveals resp = {}" "db_tables (ap_db w1) = db_tables (ap_db w)"
  | "x = None" "i \<noteq> c" "db_tables (ap_db w1) = db_tables (ap_db w)"
  using requireOwnership_None [OF assms(1)] assms(2,3) that by (cases x; cases "i = c") auto

lemma verifyOwner_cases:
  assumes "verifyOwner qs r i w = (x, w1)" "\<And>now. qv_gateway (qs now) = game_gateway pow cs now"
    "map_of (t_characters (db_tables (ap_db w))) c = Some row" "ch_UserID row \<noteq> UserIDFromContext r"
  obtains resp where "x = Some resp" "reveals resp = {}" "db_tables (ap_db w1) = db_tables (ap_db w)"
  | "x = None" "i \<noteq> c" "db_tables (ap_db w1) = db_tables (ap_db w)"
  using verifyOwner_None [OF assms(1,2)] assms(3,4) that by (cases x; cases "i = c") auto

lemma isolates_GetInventory: "isolates GetInventoryHandler"
proof (rule isolatesI)
  fix r resp c row and w w' :: "'c api_world"
  assume h: "GetInventoryHandler r w = (resp, w')"
    and c: "map_of (t_characters (db_tables (ap_db w))) c = Some row" "ch_UserID row \<noteq> UserIDFromContext r"
  show "others c (db_tables (ap_db w')) = others c (db_tables (ap_db w)) \<and> c \<notin> reveals resp"
  proof (cases "rq_Method r \<noteq> ''GET'' \<or> path_id 32 r = None")
    case True
    then show ?thesis using h by (auto simp: GetInventoryHandler_def split: if_splits option.splits)
  next
    case False
    then obtain i where i: "rq_Method r = ''GET''" "path_id 32 r = Some i" by auto
    obtain x w1 where x: "requireOwnership r i w = (x, w1)" by fastforce
    from x c show ?thesis
    proof (cases rule: requireOwnership_cases)
      case (1 rs)
      then show ?thesis using h i x by (simp add: GetInventoryHandler_def)
    next
      case 2
      obtain y w2 where y: "on_game (inv_ListByCharacter i) w1 = (y, w2)" by fastforce
      have "c \<notin> ii_CharacterID ` set its" if "y = Inr its" for its
        using y that 2 by (auto elim!: on_gameE dest: ListByCharacter_owner)
      moreover note on_game_reads [OF y reads_ListByCharacter]
      ultimately show ?thesis using h i x y 2 by (auto simp: GetInventoryHandler_def split: sum.splits)
    qed
  qed
qed

lemma isolates_MoveItem: "isolates MoveItemHandler"
proof (rule isolatesI)
  fix r resp c row and w w' :: "'c api_world"
  assume h: "MoveItemHandler r w = (resp, w')"
    and c: "map_of (t_characters (db_tables (ap_db w))) c = Some row" "ch_UserID row \<noteq> UserIDFromContext r"
  show "others c (db_tables (ap_db w')) = others c (db_tables (ap_db w)) \<and> c \<notin> reveals resp"
  proof (cases "rq_Method r \<noteq> ''POST'' \<or> (\<exists>e. decode_body unmarshal_MoveRequest r = Inl e)")
    case True
    then show ?thesis using h by (auto simp: MoveItemHandler_def split: if_splits)
  next
    case False
    then obtain i a b where i: "rq_Method r = ''POST''" "decode_body unmarshal_MoveRequest r = Inr (i, a, b)"
      by (cases "decode_body unmarshal_MoveRequest r") auto
    obtain x w1 where x: "requireOwnership r i w = (x, w1)" by fastforce
    from x c show ?thesis
    proof (cases rule: requireOwnership_cases)
      case (1 rs)
      then show ?thesis using h i x by (simp add: MoveItemHandler_def)
    next
      case 2
      obtain y d2 tr2 where y: "MoveItem True (now_of r) i a b (ap_db w1) (ap_inv w1) = (y, d2, tr2)" by (metis prod_cases3)
      from MoveItem_others [OF y 2(2)] 2 show ?thesis using h i x y by (cases y) (auto simp: MoveItemHandler_def reveals_if cong: if_cong)
    qed
  qed
qed

lemma isolates_AcceptQuest:
  assumes gw: "\<And>now. qv_gateway (ad_quests ad now) = game_gateway pow cs now"
  shows "isolates (AcceptQuestHandler ad)"
proof (rule isolatesI)
  fix r resp c row w w'
  assume h: "AcceptQuestHandler ad r w = (resp, w')"
    and c: "map_of (t_characters (db_tables (ap_db w))) c = Some row" "ch_UserID row \<noteq> UserIDFromContext r"
  show "others c (db_tables (ap_db w')) = others c (db_tables (ap_db w)) \<and> c \<notin> reveals resp"
  proof (cases "rq_Method r \<noteq> ''POST'' \<or> path_id 32 r = None")
    case True
    then show ?thesis using h by (auto simp: AcceptQuestHandler_def split: if_splits option.splits)
  next
    case False
    then obtain i where i: "rq_Method r = ''POST''" "path_id 32 r = Some i" by auto
    obtain x w1 where x: "verifyOwner (ad_quests ad) r i w = (x, w1)" by fastforce
    from x gw c show ?thesis
    proof (cases rule: verifyOwner_cases)
      case (1 rs)
      then show ?thesis using h i x by (simp add: AcceptQuestHandler_def)
    next
      case 2
      have rd: "reads (gw_GetByID (qv_gateway (ad_quests ad (now_of r))) i)"
        by (simp add: gw game_gateway_def reads_GetByID)
      show ?thesis
      proof (cases "decode_body (json_get ''quest_id'' json_string) r")
        case (Inl e)
        then show ?thesis using h i x 2 by (auto simp: AcceptQuestHandler_def)
      next
        case (Inr q)
        obtain y d2 tr2 where y: "AcceptQuest (ad_quests ad (now_of r)) (now_of r) i q (ap_db w1) (ap_quest w1) = (y, d2, tr2)"
          by (metis prod_cases3)
        from AcceptQuest_others [OF y 2(2) rd] 2 show ?thesis
          using h i x y Inr by (cases y) (auto simp: AcceptQuestHandler_def reveals_if cong: if_cong)
      qed
    qed
  qed
qed

lemma isolates_GetQuestLog:
  assumes gw: "\<And>now. qv_gateway (ad_quests ad now) = game_gateway pow cs now"
  shows "isolates (GetQuestLogHandler ad)"
proof (rule isolatesI)
  fix r resp c row w w'
  assume h: "GetQuestLogHandler ad r w = (resp, w')"
    and c: "map_of (t_characters (db_tables (ap_db w))) c = Some row" "ch_UserID row \<noteq> UserIDFromContext r"
  show "others c (db_tables (ap_db w')) = others c (db_tables (ap_db w)) \<and> c \<notin> reveals resp"
  proof (cases "rq_Method r \<noteq> ''GET'' \<or> path_id 32 r = None")
    case True
    then show ?thesis using h by (auto simp: GetQuestLogHandler_def split: if_splits option.splits)
  next
    case False
    then obtain i where i: "rq_Method r = ''GET''" "path_id 32 r = Some i" by auto
    obtain x w1 where x: "verifyOwner (ad_quests ad) r i w = (x, w1)" by fastforce
    from x gw c show ?thesis
    proof (cases rule: verifyOwner_cases)
      case (1 rs)
      then show ?thesis using h i x by (simp add: GetQuestLogHandler_def)
    next
      case 2
      obtain y w2 where y: "on_game (quests_ListCharacterQuests i) w1 = (y, w2)" by fastforce
      have "c \<notin> cq_CharacterID ` set qs" if "y = Inr qs" for qs
        using y that 2 by (auto elim!: on_gameE dest: ListCharacterQuests_owner)
      moreover note on_game_reads [OF y reads_ListCharacterQuests]
      ultimately show ?thesis using h i x y 2 by (auto simp: GetQuestLogHandler_def split: sum.splits)
    qed
  qed
qed

subsection \<open>Isolation of the interface\<close>

text \<open>How a route may be guarded: not at all (the account routes), by a token, or by the admin role.\<close>

definition guarded :: "('k, 'c) api \<Rightarrow> 'c api_handler \<Rightarrow> bool" where
  "guarded ad h \<longleftrightarrow> (\<forall>r w resp w'. h r w = (resp, w') \<longrightarrow> ap_db w' = ap_db w \<and> reveals resp = {}) \<or>
     (\<exists>g. isolates g \<and> h = AuthMiddleware (ad_parse ad) (ad_secret ad) g) \<or> (\<exists>g. h = AdminOnly (ad_parse ad) (ad_secret ad) g)"

lemma guarded_open:
  "guarded ad (RegisterHandler ad)" "guarded ad (LoginHandler ad)" "guarded ad (RefreshHandler ad)" "guarded ad (LogoutHandler ad)"
  by (auto simp: guarded_def RegisterHandler_def LoginHandler_def RefreshHandler_def LogoutHandler_def
      split: if_splits prod.splits sum.splits option.splits intro!: disjI1)

lemma guarded_mw: "isolates g \<Longrightarrow> guarded ad (AuthMiddleware (ad_parse ad) (ad_secret ad) g)"
  unfolding guarded_def by blast

lemma guarded_admin: "guarded ad (AdminOnly (ad_parse ad) (ad_secret ad) g)"
  unfolding guarded_def by blast

lemma guarded_routes:
  assumes "\<And>now. qv_gateway (ad_quests ad now) = game_gateway pow cs now" "(pat, h) \<in> set (api_routes ad)"
  shows "guarded ad h"
  using assms(2) unfolding api_routes_def auth_routes_def character_routes_def inventory_routes_def quests_routes_def
    items_routes_def loot_routes_def Let_def
  by (auto simp: guarded_open guarded_admin intro!: guarded_mw isolates_listings isolates_Create isolates_List isolates_Get
      isolates_GetInventory isolates_MoveItem isolates_AcceptQuest [of ad, OF assms(1)] isolates_GetQuestLog [of ad, OF assms(1)])


definition demo_api :: "(nat, unit) api" where
  "demo_api = \<lparr>ad_parse = (\<lambda>k t. if t = ''bob'' then Inr (\<lparr>cl_UserID = 2, cl_Username = ''bob'', cl_Role = ''player'',
       cl_ExpiresAt = 9, cl_IssuedAt = 0\<rparr>, True) else Inl (IOErr 1)),
     ad_secret = ''k'', ad_Generate = (\<lambda>salt p. Inr p), ad_auth = demo_auth,
     ad_chars = \<lparr>sv_classDefs = Map.empty, sv_statClient = None, sv_equip = None, sv_eventBus = False,
       sv_rewardHooks = None, sv_statHooks = None\<rparr>,
     ad_quests = quest_service (\<lambda>_ _. Fin 0) \<lparr>sv_classDefs = Map.empty, sv_statClient = None, sv_equip = None,
       sv_eventBus = False, sv_rewardHooks = None, sv_statHooks = None\<rparr> None None,
     ad_lootcache = Noop, ad_col = length, ad_ParseTime = (\<lambda>_. Inr 0)\<rparr>"

definition demo_api_world :: "unit api_world" where
  "demo_api_world = \<lparr>ap_db = demo_lootdb\<lparr>db_tables := (db_tables demo_lootdb)\<lparr>t_characters :=
       [(1, \<lparr>ch_UserID = 1, ch_Name = ''Ann'', ch_ClassName = ''WARRIOR'', ch_Level = 1, ch_Experience = 0, ch_Gold = 0,
         ch_LastActiveAt = 0, ch_CreatedAt = 0, ch_UpdatedAt = 0\<rparr>)], t_characters_seq := 1\<rparr>\<rparr>,
     ap_cache = (), ap_inv = [], ap_quest = [], ap_auth = demo_auth_world\<rparr>"

definition demo_request :: request where
  "demo_request = \<lparr>rq_Method = ''POST'', rq_Header = (\<lambda>n. if n = ''Authorization'' then ''Bearer bob'' else []),
     rq_PathValue = (\<lambda>_. []), rq_Query = (\<lambda>_. []),
     rq_Body = Some (JObj [(''character_id'', JNum 1), (''from_slot'', JNum 0), (''to_slot'', JNum 1)]),
     rq_RemoteAddr = [], rq_UserID = None, rq_Username = None, rq_Role = None, rq_clock = (\<lambda>_. 5), rq_salt = []\<rparr>"


end
