(* ===== verification/Socket_Hub.thy ===== *)
theory Socket_Hub
  imports Httpx
begin

section \<open>The WebSocket hub: backend/platform/socket\<close>

text \<open>
  The hub keeps the live connections, which connection plays which character, and the send queue
  of every connection. A connection (\<open>*Client\<close>) is an address of the heap \<open>hb_conn\<close>; its fields
  are those of the struct, \<open>cn_Send\<close> the content of its buffered channel and \<open>cn_closed\<close>
  whether that channel has been closed (closing it again, and sending on it, are run-time panics).
  A section under the hub's mutex is one step. The goroutines (the hub's \<open>Run\<close> loop, the read and
  write pumps of the connections, the message handlers) interleave between those sections.
\<close>

subsection \<open>State\<close>

record Client =
  cn_UserID :: int
  cn_Username :: string
  cn_CharacterID :: int
  cn_Send :: "json list"
  cn_closed :: bool

definition sendBuffer :: nat where "sendBuffer = 256"

text \<open>\<open>hb_logouts\<close> collects the calls of the logout handler.\<close>

record Hub =
  hb_conn :: "nat \<rightharpoonup> Client"
  hb_clients :: "nat list"
  hb_characterClients :: "int \<rightharpoonup> nat"
  hb_logouts :: "(nat \<times> int) list"

definition NewHub :: Hub where
  "NewHub = \<lparr>hb_conn = Map.empty, hb_clients = [], hb_characterClients = Map.empty, hb_logouts = []\<rparr>"

definition conn :: "Hub \<Rightarrow> nat \<Rightarrow> Client" where
  "conn h c = (case hb_conn h c of Some x \<Rightarrow> x
     | None \<Rightarrow> \<lparr>cn_UserID = 0, cn_Username = [], cn_CharacterID = 0, cn_Send = [], cn_closed = False\<rparr>)"

definition upd_conn :: "nat \<Rightarrow> (Client \<Rightarrow> Client) \<Rightarrow> Hub \<Rightarrow> Hub" where
  "upd_conn c f h = h\<lparr>hb_conn := (hb_conn h)(c \<mapsto> f (conn h c))\<rparr>"

lemma conn_upd [simp]: "conn (upd_conn c f h) x = (if x = c then f (conn h c) else conn h x)"
  by (simp add: conn_def upd_conn_def)

lemma upd_conn_frame [simp]:
  "hb_clients (upd_conn c f h) = hb_clients h" "hb_characterClients (upd_conn c f h) = hb_characterClients h"
  "hb_logouts (upd_conn c f h) = hb_logouts h" "dom (hb_conn (upd_conn c f h)) = insert c (dom (hb_conn h))"
  by (auto simp: upd_conn_def)

lemma conn_field_upd [simp]:
  "conn (h\<lparr>hb_clients := cs\<rparr>) = conn h" "conn (h\<lparr>hb_characterClients := m\<rparr>) = conn h" "conn (h\<lparr>hb_logouts := l\<rparr>) = conn h"
  by (auto simp: conn_def fun_eq_iff)

subsection \<open>Operations: hub.go\<close>

text \<open>The non-blocking send of the broadcast: \<open>None\<close> when the queue is full.\<close>

definition try_send :: "json \<Rightarrow> nat \<Rightarrow> Hub \<Rightarrow> Hub option result" where
  "try_send msg c h =
     (if cn_closed (conn h c) then Inl (Panic ''send on closed channel'')
      else if length (cn_Send (conn h c)) < sendBuffer
      then Inr (Some (upd_conn c (\<lambda>x. x\<lparr>cn_Send := cn_Send x @ [msg]\<rparr>) h)) else Inr None)"

text \<open>The case \<open>message := <-h.Broadcast\<close> under the read lock: the connections found too slow.\<close>

fun broadcast_to :: "json \<Rightarrow> nat list \<Rightarrow> Hub \<Rightarrow> (nat list \<times> Hub) result" where
  "broadcast_to msg [] h = Inr ([], h)"
| "broadcast_to msg (c # cs) h = (case try_send msg c h of
     Inl e \<Rightarrow> Inl e
   | Inr None \<Rightarrow> (case broadcast_to msg cs h of Inl e \<Rightarrow> Inl e | Inr (stale, h') \<Rightarrow> Inr (c # stale, h'))
   | Inr (Some h1) \<Rightarrow> broadcast_to msg cs h1)"

definition hub_Broadcast :: "json \<Rightarrow> Hub \<Rightarrow> (nat list \<times> Hub) result" where
  "hub_Broadcast msg h = broadcast_to msg (hb_clients h) h"

definition hub_Register :: "nat \<Rightarrow> Hub \<Rightarrow> Hub" where
  "hub_Register c h = h\<lparr>hb_clients := (if c \<in> set (hb_clients h) then hb_clients h else hb_clients h @ [c])\<rparr>"

text \<open>\<open>onLogout\<close> runs after the mutex is released and touches nothing of the hub.\<close>

definition removeClient :: "nat \<Rightarrow> Hub \<Rightarrow> Hub result" where
  "removeClient c h =
     (if c \<notin> set (hb_clients h) then Inr h
      else if cn_closed (conn h c) then Inl (Panic ''close of closed channel'')
      else let ch = cn_CharacterID (conn h c);
               h1 = upd_conn c (\<lambda>x. x\<lparr>cn_closed := True\<rparr>) (h\<lparr>hb_clients := remove1 c (hb_clients h)\<rparr>) in
           Inr (if ch > 0 then h1\<lparr>hb_characterClients := (hb_characterClients h)(ch := None),
                                  hb_logouts := hb_logouts h @ [(c, ch)]\<rparr> else h1))"

text \<open>The part under the mutex, and the connection that is disconnected afterwards.\<close>

definition AssociateCharacter :: "nat \<Rightarrow> int \<Rightarrow> Hub \<Rightarrow> nat option \<times> Hub" where
  "AssociateCharacter c charID h =
     (let old = hb_characterClients h charID;
          h1 = upd_conn c (\<lambda>x. x\<lparr>cn_CharacterID := charID\<rparr>) (h\<lparr>hb_characterClients := (hb_characterClients h)(charID \<mapsto> c)\<rparr>) in
      case old of
        None \<Rightarrow> (None, h1)
      | Some o' \<Rightarrow> if o' \<noteq> c then (Some o', upd_conn o' (\<lambda>x. x\<lparr>cn_CharacterID := 0\<rparr>) h1) else (None, h1))"

definition GetClientByCharacterID :: "int \<Rightarrow> Hub \<Rightarrow> nat option" where
  "GetClientByCharacterID charID h = hb_characterClients h charID"

subsection \<open>Connections: handler.go, client.go\<close>

text \<open>\<open>ServeWS\<close>: the status of a refusal, or the new connection.\<close>

definition ServeWS :: "(string \<Rightarrow> bool) option \<Rightarrow> (string \<Rightarrow> (int \<times> string) option) \<Rightarrow> string \<Rightarrow> string \<Rightarrow> int + Client" where
  "ServeWS allowOrigin authenticate origin tokenStr =
     (if tokenStr = [] then Inl 401
      else case authenticate tokenStr of
        None \<Rightarrow> Inl 401
      | Some (userID, username) \<Rightarrow>
          if (case allowOrigin of None \<Rightarrow> True | Some f \<Rightarrow> f origin)
          then Inr \<lparr>cn_UserID = userID, cn_Username = username, cn_CharacterID = 0, cn_Send = [], cn_closed = False\<rparr>
          else Inl 403)"

text \<open>The write pump takes the queued messages in order.\<close>

definition write_one :: "nat \<Rightarrow> Hub \<Rightarrow> Hub" where
  "write_one c h = upd_conn c (\<lambda>x. x\<lparr>cn_Send := tl (cn_Send x)\<rparr>) h"

subsection \<open>Routing: router.go\<close>

record 'h MessageRouter =
  mr_handlers :: "string \<rightharpoonup> 'h"
  mr_owners :: "string \<rightharpoonup> string"
  mr_gate :: "(string \<Rightarrow> bool) option"

definition NewMessageRouter :: "'h MessageRouter" where
  "NewMessageRouter = \<lparr>mr_handlers = Map.empty, mr_owners = Map.empty, mr_gate = None\<rparr>"

definition SetGate :: "(string \<Rightarrow> bool) \<Rightarrow> 'h MessageRouter \<Rightarrow> 'h MessageRouter" where
  "SetGate fn r = r\<lparr>mr_gate := Some fn\<rparr>"

definition HandleOwned :: "string \<Rightarrow> string \<Rightarrow> 'h \<Rightarrow> 'h MessageRouter \<Rightarrow> 'h MessageRouter" where
  "HandleOwned msgType owner h r = r\<lparr>mr_handlers := (mr_handlers r)(msgType \<mapsto> h), mr_owners := (mr_owners r)(msgType \<mapsto> owner)\<rparr>"

definition router_Handle :: "string \<Rightarrow> 'h \<Rightarrow> 'h MessageRouter \<Rightarrow> 'h MessageRouter" where
  "router_Handle msgType h r = HandleOwned msgType [] h r"

text \<open>The handler a message is given to, if any.\<close>

definition router_Dispatch :: "'h MessageRouter \<Rightarrow> string \<Rightarrow> 'h option" where
  "router_Dispatch r msgType = (case mr_handlers r msgType of
     None \<Rightarrow> None
   | Some h \<Rightarrow> (let owner = (case mr_owners r msgType of None \<Rightarrow> [] | Some x \<Rightarrow> x) in
       if owner \<noteq> [] \<and> (case mr_gate r of None \<Rightarrow> False | Some g \<Rightarrow> \<not> g owner) then None else Some h))"

text \<open>One message of a read pump: what is not a JSON message is skipped.\<close>

definition unmarshal_WSMessage :: "json \<Rightarrow> (string \<times> json) result" where
  "unmarshal_WSMessage j = res_bind (json_get ''type'' json_string j) (\<lambda>t.
     res_bind (json_get ''payload'' Inr j) (\<lambda>p. Inr (t, p)))"

definition read_message :: "(json \<Rightarrow> 's \<Rightarrow> 's) MessageRouter \<Rightarrow> json option \<Rightarrow> 's \<Rightarrow> 's" where
  "read_message r message s = (case message of
     None \<Rightarrow> s
   | Some j \<Rightarrow> (case unmarshal_WSMessage j of
       Inl _ \<Rightarrow> s
     | Inr (t, payload) \<Rightarrow> (case router_Dispatch r t of None \<Rightarrow> s | Some h \<Rightarrow> h payload s)))"

lemma Dispatch_gated:
  "router_Dispatch (SetGate g (HandleOwned t owner h r)) t = (if owner \<noteq> [] \<and> \<not> g owner then None else Some h)"
  by (simp add: router_Dispatch_def SetGate_def HandleOwned_def)

lemma Dispatch_Handle: "router_Dispatch (router_Handle t h r) t = Some h"
  by (simp add: router_Dispatch_def router_Handle_def HandleOwned_def)

lemma Dispatch_other: "t' \<noteq> t \<Longrightarrow> router_Dispatch (HandleOwned t owner h r) t' = router_Dispatch r t'"
  by (simp add: router_Dispatch_def HandleOwned_def cong: option.case_cong)

subsection \<open>Handlers: plugins/core/plugin.go\<close>

text \<open>The \<open>CHAT\<close> handler: what it hands to the broadcast.\<close>

definition handle_chat :: "Client \<Rightarrow> json \<Rightarrow> json option" where
  "handle_chat client payload = (case json_get ''message'' json_string payload of
     Inl _ \<Rightarrow> None
   | Inr message \<Rightarrow> Some (JObj [(''type'', JStr ''CHAT''),
       (''payload'', JObj [(''username'', JStr (cn_Username client)), (''message'', JStr message)])]))"

subsection \<open>What one operation does\<close>

lemma broadcast_to_ok:
  assumes "distinct cs" and "\<And>c. c \<in> set cs \<Longrightarrow> \<not> cn_closed (conn h c)"
  shows "\<exists>h'. broadcast_to msg cs h = Inr (filter (\<lambda>c. \<not> length (cn_Send (conn h c)) < sendBuffer) cs, h')
       \<and> hb_clients h' = hb_clients h \<and> hb_characterClients h' = hb_characterClients h \<and> hb_logouts h' = hb_logouts h
       \<and> dom (hb_conn h) \<subseteq> dom (hb_conn h')
       \<and> (\<forall>c. conn h' c = (if c \<in> set cs \<and> length (cn_Send (conn h c)) < sendBuffer
              then (conn h c)\<lparr>cn_Send := cn_Send (conn h c) @ [msg]\<rparr> else conn h c))"
  using assms
proof (induction cs arbitrary: h)
  case Nil
  then show ?case by simp
next
  case (Cons c cs)
  show ?case
  proof (cases "length (cn_Send (conn h c)) < sendBuffer")
    case False
    have "distinct cs" "\<And>d. d \<in> set cs \<Longrightarrow> \<not> cn_closed (conn h d)" using Cons.prems by auto
    from Cons.IH [OF this] False Cons.prems show ?thesis by (auto simp: try_send_def)
  next
    case True
    let ?h1 = "upd_conn c (\<lambda>x. x\<lparr>cn_Send := cn_Send x @ [msg]\<rparr>) h"
    have d: "distinct cs" "c \<notin> set cs" and op: "\<And>d. d \<in> set cs \<Longrightarrow> \<not> cn_closed (conn ?h1 d)"
      using Cons.prems by auto
    have f: "filter (\<lambda>d. \<not> length (cn_Send (conn ?h1 d)) < sendBuffer) cs
        = filter (\<lambda>d. \<not> length (cn_Send (conn h d)) < sendBuffer) cs"
      using d(2) by (intro filter_cong) auto
    from Cons.IH [OF d(1) op, unfolded f] obtain h' where h':
      "broadcast_to msg cs ?h1 = Inr (filter (\<lambda>d. \<not> length (cn_Send (conn h d)) < sendBuffer) cs, h')"
      "hb_clients h' = hb_clients h" "hb_characterClients h' = hb_characterClients h" "hb_logouts h' = hb_logouts h"
      "insert c (dom (hb_conn h)) \<subseteq> dom (hb_conn h')"
      "\<forall>x. conn h' x = (if x \<in> set cs \<and> length (cn_Send (conn ?h1 x)) < sendBuffer
              then (conn ?h1 x)\<lparr>cn_Send := cn_Send (conn ?h1 x) @ [msg]\<rparr> else conn ?h1 x)"
      by auto
    have "\<not> cn_closed (conn h c)" using Cons.prems by auto
    then have "broadcast_to msg (c # cs) h = Inr (filter (\<lambda>d. \<not> length (cn_Send (conn h d)) < sendBuffer) (c # cs), h')"
      using True h'(1) by (simp add: try_send_def)
    then show ?thesis using h'(2-6) d(2) True by auto
  qed
qed

subsection \<open>Interleavings\<close>

text \<open>
  The hub with the removals that are under way (an \<open>Unregister\<close> sent by a read pump, the slow
  consumers of a broadcast, the connection an \<open>AssociateCharacter\<close> overrode) and the connections
  that have been accepted but not registered yet. A step is one section under the mutex, or one
  channel operation.
\<close>

record Hub_sys =
  hs_hub :: Hub
  hs_joining :: "nat set"
  hs_removing :: "nat set"

inductive hub_step :: "Hub_sys \<Rightarrow> Hub_sys \<Rightarrow> bool" where
  hub_connect: "c \<notin> dom (hb_conn (hs_hub s)) \<Longrightarrow> ServeWS ao au origin token = Inr x \<Longrightarrow>
     hub_step s (s\<lparr>hs_hub := upd_conn c (\<lambda>_. x) (hs_hub s), hs_joining := insert c (hs_joining s)\<rparr>)"
| hub_register: "c \<in> hs_joining s \<Longrightarrow>
     hub_step s (s\<lparr>hs_hub := hub_Register c (hs_hub s), hs_joining := hs_joining s - {c}\<rparr>)"
| hub_associate: "c \<in> dom (hb_conn (hs_hub s)) \<Longrightarrow> AssociateCharacter c ch (hs_hub s) = (old, h') \<Longrightarrow>
     hub_step s (s\<lparr>hs_hub := h', hs_removing := hs_removing s \<union> set_option old\<rparr>)"
| hub_unregister: "c \<in> dom (hb_conn (hs_hub s)) \<Longrightarrow> hub_step s (s\<lparr>hs_removing := insert c (hs_removing s)\<rparr>)"
| hub_broadcast: "hub_Broadcast msg (hs_hub s) = Inr (stale, h') \<Longrightarrow>
     hub_step s (s\<lparr>hs_hub := h', hs_removing := hs_removing s \<union> set stale\<rparr>)"
| hub_remove: "c \<in> hs_removing s \<Longrightarrow> removeClient c (hs_hub s) = Inr h' \<Longrightarrow>
     hub_step s (s\<lparr>hs_hub := h', hs_removing := hs_removing s - {c}\<rparr>)"
| hub_send: "c \<in> dom (hb_conn (hs_hub s)) \<Longrightarrow> try_send msg c (hs_hub s) = Inr (Some h') \<Longrightarrow> hub_step s (s\<lparr>hs_hub := h'\<rparr>)"
| hub_write: "c \<in> dom (hb_conn (hs_hub s)) \<Longrightarrow> hub_step s (s\<lparr>hs_hub := write_one c (hs_hub s)\<rparr>)"

definition hub_init :: Hub_sys where
  "hub_init = \<lparr>hs_hub = NewHub, hs_joining = {}, hs_removing = {}\<rparr>"

definition hub_reachable :: "Hub_sys \<Rightarrow> bool" where
  "hub_reachable s \<longleftrightarrow> hub_step\<^sup>*\<^sup>* hub_init s"

subsection \<open>The invariant\<close>

definition hub_inv :: "Hub \<Rightarrow> nat set \<Rightarrow> bool" where
  "hub_inv h joining \<longleftrightarrow>
     distinct (hb_clients h) \<and> set (hb_clients h) \<inter> joining = {}
   \<and> set (hb_clients h) \<union> joining \<subseteq> dom (hb_conn h) \<and> ran (hb_characterClients h) \<subseteq> dom (hb_conn h)
   \<and> (\<forall>c. c \<in> set (hb_clients h) \<union> joining \<longrightarrow> \<not> cn_closed (conn h c))
   \<and> (\<forall>c. length (cn_Send (conn h c)) \<le> sendBuffer)
   \<and> (\<forall>c ch. \<not> cn_closed (conn h c) \<and> cn_CharacterID (conn h c) = ch \<and> ch > 0 \<longrightarrow> hb_characterClients h ch = Some c)
   \<and> distinct (map fst (hb_logouts h)) \<and> (\<forall>c ch. (c, ch) \<in> set (hb_logouts h) \<longrightarrow> cn_closed (conn h c) \<and> ch > 0 \<and> c \<in> dom (hb_conn h))"

lemma hub_inv_frame:
  "hub_inv h j \<Longrightarrow> hb_clients h' = hb_clients h \<Longrightarrow> hb_characterClients h' = hb_characterClients h
    \<Longrightarrow> hb_logouts h' = hb_logouts h \<Longrightarrow> dom (hb_conn h) \<subseteq> dom (hb_conn h')
    \<Longrightarrow> (\<And>c. cn_closed (conn h' c) = cn_closed (conn h c) \<and> cn_CharacterID (conn h' c) = cn_CharacterID (conn h c)
             \<and> length (cn_Send (conn h' c)) \<le> sendBuffer) \<Longrightarrow> hub_inv h' j"
  unfolding hub_inv_def by (simp (no_asm_simp)) blast

lemma hub_inv_connect:
  assumes "hub_inv h j" and "c \<notin> dom (hb_conn h)" and "ServeWS ao au origin token = Inr x"
  shows "hub_inv (upd_conn c (\<lambda>_. x) h) (insert c j)"
proof -
  have x: "cn_CharacterID x = 0" "cn_Send x = []" "\<not> cn_closed x"
    using assms(3) by (auto simp: ServeWS_def split: if_splits option.splits)
  have "\<And>ch. (c, ch) \<notin> set (hb_logouts h)" "c \<notin> set (hb_clients h)" using assms(1,2) unfolding hub_inv_def by blast+
  with x assms(1) show ?thesis unfolding hub_inv_def by (auto split: if_splits)
qed

lemma hub_inv_register: "hub_inv h j \<Longrightarrow> c \<in> j \<Longrightarrow> hub_inv (hub_Register c h) (j - {c})"
  unfolding hub_inv_def hub_Register_def by auto

lemma hub_inv_associate:
  assumes inv: "hub_inv h j" and c: "c \<in> dom (hb_conn h)" and a: "AssociateCharacter c ch h = (old, h')"
  shows "hub_inv h' j"
proof (cases "hb_characterClients h ch")
  case None
  then have h': "h' = upd_conn c (\<lambda>x. x\<lparr>cn_CharacterID := ch\<rparr>) (h\<lparr>hb_characterClients := (hb_characterClients h)(ch \<mapsto> c)\<rparr>)"
    using a by (auto simp: AssociateCharacter_def)
  show ?thesis using inv c None unfolding hub_inv_def h' by (auto simp: ran_def split: if_splits)
next
  case (Some p)
  have p: "p \<in> dom (hb_conn h)" using inv Some unfolding hub_inv_def ran_def by blast
  show ?thesis
  proof (cases "p = c")
    case True
    then have h': "h' = upd_conn c (\<lambda>x. x\<lparr>cn_CharacterID := ch\<rparr>) (h\<lparr>hb_characterClients := (hb_characterClients h)(ch \<mapsto> c)\<rparr>)"
      using a Some by (auto simp: AssociateCharacter_def)
    show ?thesis using inv c Some True unfolding hub_inv_def h' by (auto simp: ran_def split: if_splits)
  next
    case False
    then have h': "h' = upd_conn p (\<lambda>x. x\<lparr>cn_CharacterID := 0\<rparr>)
       (upd_conn c (\<lambda>x. x\<lparr>cn_CharacterID := ch\<rparr>) (h\<lparr>hb_characterClients := (hb_characterClients h)(ch \<mapsto> c)\<rparr>))"
      using a Some by (auto simp: AssociateCharacter_def)
    show ?thesis using inv c Some False p unfolding hub_inv_def h' by (auto simp: ran_def split: if_splits)
  qed
qed

lemma removeClient_ok: "hub_inv h j \<Longrightarrow> \<exists>h'. removeClient c h = Inr h'"
  unfolding hub_inv_def removeClient_def by (auto simp: Let_def)

lemma hub_inv_remove:
  assumes inv: "hub_inv h j" and r: "removeClient c h = Inr h'"
  shows "hub_inv h' j"
proof (cases "c \<in> set (hb_clients h)")
  case False
  then show ?thesis using inv r by (simp add: removeClient_def)
next
  case True
  let ?h = "upd_conn c (\<lambda>x. x\<lparr>cn_closed := True\<rparr>) (h\<lparr>hb_clients := remove1 c (hb_clients h)\<rparr>)"
  have op: "\<not> cn_closed (conn h c)" using inv True unfolding hub_inv_def by blast
  have h: "hub_inv ?h j" using inv True unfolding hub_inv_def by (auto split: if_splits)
  show ?thesis
  proof (cases "cn_CharacterID (conn h c) > 0")
    case False
    then show ?thesis using r True op h by (simp add: removeClient_def Let_def)
  next
    case ch: True
    have h': "h' = ?h\<lparr>hb_characterClients := (hb_characterClients ?h)(cn_CharacterID (conn h c) := None),
        hb_logouts := hb_logouts ?h @ [(c, cn_CharacterID (conn h c))]\<rparr>"
      using r True op ch by (simp add: removeClient_def Let_def)
    have m: "hb_characterClients h (cn_CharacterID (conn h c)) = Some c" using inv op ch unfolding hub_inv_def by blast
    have u: "\<And>d. \<not> cn_closed (conn h d) \<Longrightarrow> cn_CharacterID (conn h d) = cn_CharacterID (conn h c) \<Longrightarrow> d = c"
      using inv m ch unfolding hub_inv_def by (metis option.inject)
    have f: "c \<notin> fst ` set (hb_logouts h)" using inv op unfolding hub_inv_def by auto
    have d: "c \<in> dom (hb_conn h)" using inv True unfolding hub_inv_def by blast
    have rn: "ran ((hb_characterClients h)(cn_CharacterID (conn h c) := None)) \<subseteq> ran (hb_characterClients h)"
      by (auto simp: ran_def)
    show ?thesis using h m f d rn ch u unfolding hub_inv_def h' by (auto split: if_splits)
  qed
qed

lemma hub_inv_broadcast:
  assumes inv: "hub_inv h j"
  shows "\<exists>h'. hub_Broadcast msg h = Inr (filter (\<lambda>c. \<not> length (cn_Send (conn h c)) < sendBuffer) (hb_clients h), h')
     \<and> hub_inv h' j \<and> hb_clients h' = hb_clients h
     \<and> (\<forall>c. conn h' c = (if c \<in> set (hb_clients h) \<and> length (cn_Send (conn h c)) < sendBuffer
              then (conn h c)\<lparr>cn_Send := cn_Send (conn h c) @ [msg]\<rparr> else conn h c))"
proof -
  have "distinct (hb_clients h)" "\<And>c. c \<in> set (hb_clients h) \<Longrightarrow> \<not> cn_closed (conn h c)"
    using inv unfolding hub_inv_def by auto
  from broadcast_to_ok [OF this, of msg] obtain h' where h':
    "hub_Broadcast msg h = Inr (filter (\<lambda>c. \<not> length (cn_Send (conn h c)) < sendBuffer) (hb_clients h), h')"
    "hb_clients h' = hb_clients h" "hb_characterClients h' = hb_characterClients h" "hb_logouts h' = hb_logouts h"
    "dom (hb_conn h) \<subseteq> dom (hb_conn h')"
    "\<forall>c. conn h' c = (if c \<in> set (hb_clients h) \<and> length (cn_Send (conn h c)) < sendBuffer
              then (conn h c)\<lparr>cn_Send := cn_Send (conn h c) @ [msg]\<rparr> else conn h c)"
    unfolding hub_Broadcast_def by blast
  have "hub_inv h' j"
    by (rule hub_inv_frame [OF inv h'(2-5)]) (use inv h'(6) in \<open>auto simp: hub_inv_def\<close>)
  with h' show ?thesis by blast
qed

lemma hub_inv_send:
  assumes inv: "hub_inv h j" and s: "try_send msg c h = Inr (Some h')"
  shows "hub_inv h' j"
proof -
  have h': "h' = upd_conn c (\<lambda>x. x\<lparr>cn_Send := cn_Send x @ [msg]\<rparr>) h" and l: "length (cn_Send (conn h c)) < sendBuffer"
    using s by (auto simp: try_send_def split: if_splits)
  show ?thesis unfolding h' by (rule hub_inv_frame [OF inv]) (use inv l in \<open>auto simp: hub_inv_def\<close>)
qed

lemma hub_inv_write:
  assumes inv: "hub_inv h j"
  shows "hub_inv (write_one c h) j"
  unfolding write_one_def
  by (rule hub_inv_frame [OF inv]) (use inv in \<open>auto simp: hub_inv_def intro: le_trans [OF diff_le_self]\<close>)

lemma hub_step_inv:
  assumes "hub_step s s'" and inv: "hub_inv (hs_hub s) (hs_joining s)"
  shows "hub_inv (hs_hub s') (hs_joining s')"
  using assms(1)
proof cases
  case hub_connect
  then show ?thesis using hub_inv_connect [OF inv] by simp
next
  case hub_register
  then show ?thesis using hub_inv_register [OF inv] by simp
next
  case hub_associate
  then show ?thesis using hub_inv_associate [OF inv] by simp
next
  case hub_unregister
  then show ?thesis using inv by simp
next
  case (hub_broadcast msg stale h')
  then show ?thesis using hub_inv_broadcast [OF inv, of msg] by auto
next
  case hub_remove
  then show ?thesis using hub_inv_remove [OF inv] by simp
next
  case hub_send
  then show ?thesis using hub_inv_send [OF inv] by simp
next
  case hub_write
  then show ?thesis using hub_inv_write [OF inv] by simp
qed

lemma hub_reachable_inv:
  assumes "hub_reachable s"
  shows "hub_inv (hs_hub s) (hs_joining s)"
  using assms unfolding hub_reachable_def
proof (induction rule: rtranclp_induct)
  case base
  show ?case by (simp add: hub_init_def NewHub_def hub_inv_def conn_def)
next
  case (step y z)
  from hub_step_inv [OF step.hyps(2) step.IH] show ?case .
qed

subsection \<open>Properties\<close>


text \<open>A connection accepted, registered and playing character 5.\<close>

definition demo_client :: Client where
  "demo_client = \<lparr>cn_UserID = 1, cn_Username = ''bob'', cn_CharacterID = 0, cn_Send = [], cn_closed = False\<rparr>"

definition demo_hub :: Hub_sys where
  "demo_hub = \<lparr>hs_hub = snd (AssociateCharacter 0 5 (hub_Register 0 (upd_conn 0 (\<lambda>_. demo_client) NewHub))),
               hs_joining = {}, hs_removing = {}\<rparr>"

lemma demo_hub_reachable: "hub_reachable demo_hub"
proof -
  let ?au = "\<lambda>t. if t = ''tok'' then Some (1, ''bob'') else None"
  let ?s1 = "hub_init\<lparr>hs_hub := upd_conn 0 (\<lambda>_. demo_client) (hs_hub hub_init), hs_joining := insert 0 (hs_joining hub_init)\<rparr>"
  let ?s2 = "?s1\<lparr>hs_hub := hub_Register 0 (hs_hub ?s1), hs_joining := hs_joining ?s1 - {0}\<rparr>"
  let ?a = "AssociateCharacter 0 5 (hs_hub ?s2)"
  let ?s3 = "?s2\<lparr>hs_hub := snd ?a, hs_removing := hs_removing ?s2 \<union> set_option (fst ?a)\<rparr>"
  have "hub_step hub_init ?s1"
    by (rule hub_connect [where ao = None and au = ?au and origin = "[]" and token = "''tok''"])
       (simp_all add: hub_init_def NewHub_def ServeWS_def demo_client_def)
  moreover have "hub_step ?s1 ?s2" by (rule hub_register) simp
  moreover have "hub_step ?s2 ?s3" by (rule hub_associate) (simp_all add: hub_Register_def)
  ultimately have "hub_step\<^sup>*\<^sup>* hub_init ?s3" by (meson converse_rtranclp_into_rtranclp rtranclp.rtrancl_refl)
  moreover have "?s3 = demo_hub"
    by (simp add: demo_hub_def hub_init_def NewHub_def AssociateCharacter_def hub_Register_def Let_def)
  ultimately show ?thesis by (simp add: hub_reachable_def)
qed


subsection \<open>What the hub does not guarantee\<close>

text \<open>
  \<open>AssociateCharacter\<close> never clears the entry of the character a connection played before: when
  connection 0 goes from character 5 to character 6, whoever selects character 5 next disconnects
  the player of character 6, and no logout of either character is reported.
\<close>

lemma associate_stale_entry:
  assumes "c \<noteq> d" and "a \<noteq> b"
  shows "fst (AssociateCharacter d a (snd (AssociateCharacter c b (snd (AssociateCharacter c a h))))) = Some c"
  using assms by (auto simp: AssociateCharacter_def Let_def split: option.splits)

lemma associate_stale_disconnects:
  assumes "c \<noteq> d" and "a \<noteq> b" and "c \<in> set (hb_clients h)" and "\<not> cn_closed (conn h c)"
    and "hb_characterClients h b = None"
    and "AssociateCharacter d a (snd (AssociateCharacter c b (snd (AssociateCharacter c a h)))) = (Some c, h')"
  shows "\<exists>h''. removeClient c h' = Inr h'' \<and> cn_closed (conn h'' c) \<and> hb_logouts h'' = hb_logouts h
     \<and> GetClientByCharacterID b h'' = Some c"
  using assms by (auto simp: AssociateCharacter_def GetClientByCharacterID_def removeClient_def Let_def split: option.splits if_splits)

text \<open>A handler that still runs when its connection has been overridden panics on its own send.\<close>

lemma send_after_override_panics:
  "c \<in> set (hb_clients h) \<Longrightarrow> removeClient c h = Inr h' \<Longrightarrow> \<exists>e. try_send msg c h' = Inl e"
  by (auto simp: removeClient_def try_send_def Let_def split: if_splits)

end
