(* ===== verification/Entity_Graph.thy ===== *)
theory Entity_Graph
  imports Database
begin

section \<open>Entities and their relations: gamekit/entity and gamekit/relation\<close>

text \<open>
  Two interfaces of gamekit with two implementations each: the entity repository and the graph of
  typed edges, in memory and over Postgres. \<open>EntityRepo\<close> and \<open>RelationRepo\<close> are the
  dictionaries of the Go interfaces over a state \<open>'s\<close>; the locales \<open>entity_repo\<close> and
  \<open>relation_repo\<close> are their contracts, against the map of the entities and the set of the
  edges. The Go maps the in-memory versions iterate over are lists without duplicate keys, in an
  arbitrary order.
\<close>

subsection \<open>entity.go\<close>

record Entity =
  en_ID :: int
  en_Kind :: string
  en_OwnerID :: int
  en_CreatedAt :: int

definition ErrEntityNotFound :: error where "ErrEntityNotFound = Sentinel ''entity: not found''"

definition zero_Entity :: Entity where
  "zero_Entity = \<lparr>en_ID = 0, en_Kind = [], en_OwnerID = 0, en_CreatedAt = 0\<rparr>"

text \<open>\<open>er_Create\<close> also takes the reading of the clock (the in-memory one's, or the database's).\<close>

record 's EntityRepo =
  er_Create :: "int \<Rightarrow> string \<Rightarrow> int \<Rightarrow> 's \<Rightarrow> Entity result \<times> 's"
  er_Get :: "int \<Rightarrow> 's \<Rightarrow> Entity result \<times> 's"
  er_ListByOwner :: "int \<Rightarrow> 's \<Rightarrow> Entity list result \<times> 's"
  er_ListByKind :: "string \<Rightarrow> 's \<Rightarrow> Entity list result \<times> 's"
  er_Delete :: "int \<Rightarrow> 's \<Rightarrow> unit result \<times> 's"

subsection \<open>mem.go\<close>

record memEntities =
  me_nextID :: int
  me_byID :: "(int \<times> Entity) list"

definition sortByID :: "Entity list \<Rightarrow> Entity list" where
  "sortByID es = sort_loop en_ID [] es"

definition mem_filter :: "(Entity \<Rightarrow> bool) \<Rightarrow> memEntities \<Rightarrow> Entity list" where
  "mem_filter keep r = sortByID (filter keep (map snd (me_byID r)))"

definition memEntity_Create :: "int \<Rightarrow> string \<Rightarrow> int \<Rightarrow> memEntities \<Rightarrow> Entity result \<times> memEntities" where
  "memEntity_Create now kind ownerID r =
     (let e = \<lparr>en_ID = me_nextID r, en_Kind = kind, en_OwnerID = ownerID, en_CreatedAt = now\<rparr> in
      (Inr e, \<lparr>me_nextID = me_nextID r + 1, me_byID = AList.update (en_ID e) e (me_byID r)\<rparr>))"

definition memEntity_Get :: "int \<Rightarrow> memEntities \<Rightarrow> Entity result \<times> memEntities" where
  "memEntity_Get i r = ((case map_of (me_byID r) i of None \<Rightarrow> Inl ErrEntityNotFound | Some e \<Rightarrow> Inr e), r)"

definition memEntity_ListByOwner :: "int \<Rightarrow> memEntities \<Rightarrow> Entity list result \<times> memEntities" where
  "memEntity_ListByOwner ownerID r = (Inr (mem_filter (\<lambda>e. en_OwnerID e = ownerID) r), r)"

definition memEntity_ListByKind :: "string \<Rightarrow> memEntities \<Rightarrow> Entity list result \<times> memEntities" where
  "memEntity_ListByKind kind r = (Inr (mem_filter (\<lambda>e. en_Kind e = kind) r), r)"

definition memEntity_Delete :: "int \<Rightarrow> memEntities \<Rightarrow> unit result \<times> memEntities" where
  "memEntity_Delete i r = (Inr (), r\<lparr>me_byID := AList.delete i (me_byID r)\<rparr>)"

definition NewMemEntityRepo :: "memEntities EntityRepo" where
  "NewMemEntityRepo = \<lparr>er_Create = memEntity_Create, er_Get = memEntity_Get, er_ListByOwner = memEntity_ListByOwner,
     er_ListByKind = memEntity_ListByKind, er_Delete = memEntity_Delete\<rparr>"

definition memEntities_new :: memEntities where
  "memEntities_new = \<lparr>me_nextID = 1, me_byID = []\<rparr>"

subsection \<open>pg.go\<close>

text \<open>The table \<open>entities\<close> in id order, and the sequence behind its \<open>BIGSERIAL\<close> key. A sequence
  number is consumed by a failed insert as well; that shows only in the ids.\<close>

record entity_table =
  et_rows :: "Entity list"
  et_next :: int

definition pgEntity_Create :: "int \<Rightarrow> string \<Rightarrow> int \<Rightarrow> entity_table DB \<Rightarrow> Entity result \<times> entity_table DB" where
  "pgEntity_Create now kind ownerID = db_stmt (\<lambda>t.
     let e = \<lparr>en_ID = et_next t, en_Kind = kind, en_OwnerID = ownerID, en_CreatedAt = now\<rparr> in
     Inr (e, \<lparr>et_rows = et_rows t @ [e], et_next = et_next t + 1\<rparr>))"

definition pgEntity_Get :: "int \<Rightarrow> entity_table DB \<Rightarrow> Entity result \<times> entity_table DB" where
  "pgEntity_Get i = tx_map_err (\<lambda>e. if e = ErrNoRows then ErrEntityNotFound else e)
     (db_stmt (\<lambda>t. case find (\<lambda>e. en_ID e = i) (et_rows t) of None \<Rightarrow> Inl ErrNoRows | Some e \<Rightarrow> Inr (e, t)))"

definition pgEntity_list :: "(Entity \<Rightarrow> bool) \<Rightarrow> entity_table DB \<Rightarrow> Entity list result \<times> entity_table DB" where
  "pgEntity_list p d = (case db_call d of
     (Some e, d1) \<Rightarrow> (Inl e, d1)
   | (None, d1) \<Rightarrow> (case fetch_rows (filter p (et_rows (db_tables d1))) d1 of
        ((_, Some e), d2) \<Rightarrow> (Inl e, d2)
      | ((es, None), d2) \<Rightarrow> (Inr es, d2)))"

definition pgEntity_ListByOwner :: "int \<Rightarrow> entity_table DB \<Rightarrow> Entity list result \<times> entity_table DB" where
  "pgEntity_ListByOwner ownerID = pgEntity_list (\<lambda>e. en_OwnerID e = ownerID)"

definition pgEntity_ListByKind :: "string \<Rightarrow> entity_table DB \<Rightarrow> Entity list result \<times> entity_table DB" where
  "pgEntity_ListByKind kind = pgEntity_list (\<lambda>e. en_Kind e = kind)"

definition pgEntity_Delete :: "int \<Rightarrow> entity_table DB \<Rightarrow> unit result \<times> entity_table DB" where
  "pgEntity_Delete i = db_stmt (\<lambda>t. Inr ((), t\<lparr>et_rows := filter (\<lambda>e. en_ID e \<noteq> i) (et_rows t)\<rparr>))"

definition NewPgEntityRepo :: "entity_table DB EntityRepo" where
  "NewPgEntityRepo = \<lparr>er_Create = pgEntity_Create, er_Get = pgEntity_Get, er_ListByOwner = pgEntity_ListByOwner,
     er_ListByKind = pgEntity_ListByKind, er_Delete = pgEntity_Delete\<rparr>"

subsection \<open>The contract of an entity repository\<close>

text \<open>\<open>listing p m es\<close>: \<open>es\<close> is the entities of \<open>m\<close> that satisfy \<open>p\<close>, in id order.\<close>

definition listing :: "(Entity \<Rightarrow> bool) \<Rightarrow> (int \<rightharpoonup> Entity) \<Rightarrow> Entity list \<Rightarrow> bool" where
  "listing p m es \<longleftrightarrow> sorted (map en_ID es) \<and> distinct (map en_ID es)
     \<and> set es = {e. m (en_ID e) = Some e \<and> p e}"

lemma listing_unique:
  assumes "listing p m es" and "listing p m es'"
  shows "es = es'"
proof (rule map_inj_on)
  have ss: "set es = set es'" using assms unfolding listing_def by simp
  have i: "sorted (map en_ID es)" "distinct (map en_ID es)" "sorted (map en_ID es')" "distinct (map en_ID es')"
    using assms unfolding listing_def by simp_all
  have "set (map en_ID es) = set (map en_ID es')" using ss by simp
  with i show "map en_ID es = map en_ID es'" by (rule sorted_list_of_distinct_eq)
  show "inj_on en_ID (set es \<union> set es')" using i(2) ss by (simp add: distinct_map)
qed

locale entity_repo =
  fixes R :: "'s EntityRepo" and abs :: "'s \<Rightarrow> (int \<rightharpoonup> Entity)" and inv :: "'s \<Rightarrow> bool"
  assumes create_ok: "inv s \<Longrightarrow> er_Create R now kind owner s = (Inr e, s') \<Longrightarrow>
        inv s' \<and> abs s (en_ID e) = None \<and> abs s' = (abs s)(en_ID e \<mapsto> e)
        \<and> en_Kind e = kind \<and> en_OwnerID e = owner \<and> en_CreatedAt e = now"
    and create_err: "inv s \<Longrightarrow> er_Create R now kind owner s = (Inl x, s') \<Longrightarrow> inv s' \<and> abs s' = abs s"
    and get_ok: "inv s \<Longrightarrow> er_Get R i s = (Inr e, s') \<Longrightarrow> inv s' \<and> abs s' = abs s \<and> abs s i = Some e"
    and get_err: "inv s \<Longrightarrow> er_Get R i s = (Inl x, s') \<Longrightarrow> inv s' \<and> abs s' = abs s \<and> (x = ErrEntityNotFound \<longrightarrow> abs s i = None)"
    and owner_ok: "inv s \<Longrightarrow> er_ListByOwner R owner s = (Inr es, s') \<Longrightarrow>
        inv s' \<and> abs s' = abs s \<and> listing (\<lambda>e. en_OwnerID e = owner) (abs s) es"
    and owner_err: "inv s \<Longrightarrow> er_ListByOwner R owner s = (Inl x, s') \<Longrightarrow> inv s' \<and> abs s' = abs s"
    and kind_ok: "inv s \<Longrightarrow> er_ListByKind R kind s = (Inr es, s') \<Longrightarrow>
        inv s' \<and> abs s' = abs s \<and> listing (\<lambda>e. en_Kind e = kind) (abs s) es"
    and kind_err: "inv s \<Longrightarrow> er_ListByKind R kind s = (Inl x, s') \<Longrightarrow> inv s' \<and> abs s' = abs s"
    and delete_ok: "inv s \<Longrightarrow> er_Delete R i s = (Inr u, s') \<Longrightarrow> inv s' \<and> abs s' = (abs s)(i := None)"
    and delete_err: "inv s \<Longrightarrow> er_Delete R i s = (Inl x, s') \<Longrightarrow> inv s' \<and> abs s' = abs s"
    and ids: "inv s \<Longrightarrow> abs s i = Some e \<Longrightarrow> en_ID e = i"
begin

text \<open>A created entity is found under its id, and listed under its owner from then on.\<close>

lemma get_after_create:
  "inv s \<Longrightarrow> er_Create R now kind owner s = (Inr e, s') \<Longrightarrow> er_Get R (en_ID e) s' = (Inr f, s'') \<Longrightarrow> f = e"
  using create_ok [of s now kind owner e s'] get_ok [of s' "en_ID e" f s''] by auto

lemma owner_frame: "inv s \<Longrightarrow> er_ListByOwner R owner s = (r, s') \<Longrightarrow> inv s' \<and> abs s' = abs s"
  by (cases r) (auto dest: owner_ok owner_err)

lemma get_frame: "inv s \<Longrightarrow> er_Get R i s = (r, s') \<Longrightarrow> inv s' \<and> abs s' = abs s"
  by (cases r) (auto dest: get_ok get_err)

end

subsection \<open>Both implementations meet it\<close>

text \<open>Keys are the ids of the values, distinct, below the next id.\<close>

definition memEntities_inv :: "memEntities \<Rightarrow> bool" where
  "memEntities_inv r \<longleftrightarrow> al_ok (me_byID r) \<and> list_all (\<lambda>(i, e). en_ID e = i \<and> i < me_nextID r) (me_byID r)"

lemma sortByID_listing:
  assumes "distinct (map en_ID es)"
  shows "sorted (map en_ID (sortByID es)) \<and> distinct (map en_ID (sortByID es)) \<and> set (sortByID es) = set es"
proof -
  have m: "mset (sortByID es) = mset es" by (simp add: sortByID_def mset_sort_loop)
  have "mset (map en_ID (sortByID es)) = mset (map en_ID es)" using m by simp
  then have "distinct (map en_ID (sortByID es))" using assms mset_eq_imp_distinct_iff by blast
  moreover have "sorted (map en_ID (sortByID es))" by (simp add: sortByID_def sorted_sort_loop)
  ultimately show ?thesis using m mset_eq_setD by blast
qed

lemma memEntities_vals:
  assumes "memEntities_inv r"
  shows "map en_ID (map snd (me_byID r)) = keys (me_byID r)"
  using assms by (auto simp: memEntities_inv_def list_all_iff)

lemma mem_filter_listing:
  assumes "memEntities_inv r"
  shows "listing p (map_of (me_byID r)) (mem_filter p r)"
proof -
  have v: "map en_ID (map snd (me_byID r)) = keys (me_byID r)" using assms by (rule memEntities_vals)
  have d: "distinct (map en_ID (map snd (me_byID r)))"
    using assms unfolding v memEntities_inv_def al_ok_def by (rule conjunct1)
  then have "distinct (map en_ID (filter p (map snd (me_byID r))))" by (rule distinct_map_filter)
  note srt = sortByID_listing [OF this]
  have "e \<in> set (map snd (me_byID r)) \<longleftrightarrow> map_of (me_byID r) (en_ID e) = Some e" for e
  proof
    assume "e \<in> set (map snd (me_byID r))"
    then obtain i where i: "(i, e) \<in> set (me_byID r)" by auto
    then have "en_ID e = i" using assms by (auto simp: memEntities_inv_def list_all_iff)
    then show "map_of (me_byID r) (en_ID e) = Some e" using i assms by (simp add: memEntities_inv_def al_ok_def)
  next
    assume "map_of (me_byID r) (en_ID e) = Some e"
    then show "e \<in> set (map snd (me_byID r))" by (force dest: map_of_SomeD)
  qed
  then show ?thesis using srt unfolding listing_def mem_filter_def by auto
qed

lemma memEntities_inv_new: "memEntities_inv memEntities_new"
  by (simp add: memEntities_inv_def memEntities_new_def)

lemmas memEntity_defs = NewMemEntityRepo_def memEntity_Create_def memEntity_Get_def memEntity_ListByOwner_def
  memEntity_ListByKind_def memEntity_Delete_def

lemma memEntities_iff:
  "memEntities_inv r \<longleftrightarrow> al_ok (me_byID r) \<and> (\<forall>i e. map_of (me_byID r) i = Some e \<longrightarrow> en_ID e = i \<and> i < me_nextID r)"
  by (auto simp: memEntities_inv_def list_all_map_of)

interpretation memEntities: entity_repo NewMemEntityRepo "\<lambda>r. map_of (me_byID r)" memEntities_inv
proof (unfold_locales, goal_cases)
  case (1 s now kind owner e s')
  then have k: "map_of (me_byID s) (me_nextID s) = None"
    by (cases "map_of (me_byID s) (me_nextID s)") (auto simp: memEntities_iff)
  have e: "e = \<lparr>en_ID = me_nextID s, en_Kind = kind, en_OwnerID = owner, en_CreatedAt = now\<rparr>"
    "s' = \<lparr>me_nextID = me_nextID s + 1, me_byID = AList.update (me_nextID s) e (me_byID s)\<rparr>"
    using 1(2) by (auto simp: memEntity_defs Let_def)
  have "memEntities_inv s'" using 1(1) unfolding memEntities_iff e(2) by (auto simp: e(1)) fastforce
  then show ?case using k by (simp add: e)
next
  case (2 s now kind owner x s')
  then show ?case by (simp add: memEntity_defs Let_def)
next
  case (3 s i e s')
  then show ?case by (auto simp: memEntity_defs split: option.splits)
next
  case (4 s i x s')
  then show ?case by (auto simp: memEntity_defs split: option.splits)
next
  case (5 s owner es s')
  then show ?case using mem_filter_listing by (auto simp: memEntity_defs)
next
  case (6 s owner x s')
  then show ?case by (simp add: memEntity_defs)
next
  case (7 s kind es s')
  then show ?case using mem_filter_listing by (auto simp: memEntity_defs)
next
  case (8 s kind x s')
  then show ?case by (simp add: memEntity_defs)
next
  case (9 s i u s')
  then show ?case by (auto simp: memEntity_defs memEntities_iff split: if_splits)
next
  case (10 s i x s')
  then show ?case by (simp add: memEntity_defs)
next
  case (11 s i e)
  then show ?case by (simp add: memEntities_iff)
qed

definition et_abs :: "entity_table \<Rightarrow> int \<rightharpoonup> Entity" where
  "et_abs t i = find (\<lambda>e. en_ID e = i) (et_rows t)"

definition et_ok :: "entity_table \<Rightarrow> bool" where
  "et_ok t \<longleftrightarrow> sorted (map en_ID (et_rows t)) \<and> distinct (map en_ID (et_rows t)) \<and> (\<forall>e \<in> set (et_rows t). en_ID e < et_next t)"

lemma et_abs_iff: "et_ok t \<Longrightarrow> et_abs t i = Some e \<longleftrightarrow> e \<in> set (et_rows t) \<and> en_ID e = i"
proof -
  assume ok: "et_ok t"
  have "find (\<lambda>e. en_ID e = i) es = Some e \<longleftrightarrow> e \<in> set es \<and> en_ID e = i" if "distinct (map en_ID es)" for es
    using that by (induction es) (auto simp: image_iff)
  then show ?thesis using ok by (simp add: et_ok_def et_abs_def)
qed

lemma et_listing: "et_ok t \<Longrightarrow> listing p (et_abs t) (filter p (et_rows t))"
  unfolding listing_def
  by (auto simp: et_abs_iff) (auto simp: et_ok_def sorted_filter distinct_map_filter)

lemma et_insert:
  assumes "et_ok t" and "t' = \<lparr>et_rows = et_rows t @ [e], et_next = et_next t + 1\<rparr>" and "en_ID e = et_next t"
  shows "et_ok t' \<and> et_abs t (en_ID e) = None \<and> et_abs t' = (et_abs t)(en_ID e \<mapsto> e)"
proof -
  have n: "en_ID e \<notin> en_ID ` set (et_rows t)" using assms(1,3) by (auto simp: et_ok_def)
  have ok: "et_ok t'" using assms n by (auto simp: et_ok_def sorted_append less_imp_le)
  have none: "et_abs t (en_ID e) = None" using n unfolding et_abs_def find_None_iff by (auto simp: image_iff)
  have "et_abs t' i = ((et_abs t)(en_ID e \<mapsto> e)) i" for i
  proof (cases "i = en_ID e")
    case True
    then show ?thesis using et_abs_iff [OF ok, of i e] assms(2) by simp
  next
    case False
    then have "et_abs t' i = Some f \<longleftrightarrow> et_abs t i = Some f" for f
      unfolding et_abs_iff [OF ok] et_abs_iff [OF assms(1)] using assms(2) by auto
    then have "et_abs t' i = et_abs t i" by (metis option.exhaust)
    then show ?thesis using False by simp
  qed
  with ok none show ?thesis by blast
qed

lemma et_delete:
  assumes "et_ok t"
  shows "et_ok (t\<lparr>et_rows := filter (\<lambda>e. en_ID e \<noteq> i) (et_rows t)\<rparr>)
       \<and> et_abs (t\<lparr>et_rows := filter (\<lambda>e. en_ID e \<noteq> i) (et_rows t)\<rparr>) = (et_abs t)(i := None)"
proof -
  let ?t = "t\<lparr>et_rows := filter (\<lambda>e. en_ID e \<noteq> i) (et_rows t)\<rparr>"
  have ok: "et_ok ?t" using assms by (auto simp: et_ok_def sorted_filter distinct_map_filter)
  have "et_abs ?t j = ((et_abs t)(i := None)) j" for j
  proof -
    have "et_abs ?t j = Some f \<longleftrightarrow> ((et_abs t)(i := None)) j = Some f" for f
      using et_abs_iff [OF ok] et_abs_iff [OF assms] by auto
    then show ?thesis by (metis option.exhaust)
  qed
  then show ?thesis using ok by blast
qed

lemma pgEntity_list_cases:
  assumes "pgEntity_list p d = (r, d')"
  shows "db_tables d' = db_tables d \<and> (\<forall>es. r = Inr es \<longrightarrow> es = filter p (et_rows (db_tables d)))"
  using assms by (auto simp: pgEntity_list_def dest: fetch_rows_tables fetch_rows_prefix split: prod.splits option.splits)

interpretation pgEntities: entity_repo NewPgEntityRepo "\<lambda>d. et_abs (db_tables d)" "\<lambda>d. et_ok (db_tables d)"
proof (unfold_locales, goal_cases)
  case (1 s now kind owner e s')
  let ?t = "db_tables s"
  have e: "e = \<lparr>en_ID = et_next ?t, en_Kind = kind, en_OwnerID = owner, en_CreatedAt = now\<rparr>"
    "db_tables s' = \<lparr>et_rows = et_rows ?t @ [e], et_next = et_next ?t + 1\<rparr>"
    using 1(2) by (auto simp: NewPgEntityRepo_def pgEntity_Create_def Let_def dest!: db_stmt_Inr)
  from et_insert [OF 1(1) e(2)] e(1) show ?case by simp
next
  case (2 s now kind owner x s')
  then show ?case by (auto simp: NewPgEntityRepo_def pgEntity_Create_def dest: db_stmt_Inl)
next
  case (3 s i e s')
  then show ?case
    by (auto simp: NewPgEntityRepo_def pgEntity_Get_def et_abs_def dest!: db_stmt_Inr split: option.splits)
next
  case (4 s i x s')
  let ?st = "\<lambda>t. case find (\<lambda>e. en_ID e = i) (et_rows t) of None \<Rightarrow> Inl ErrNoRows | Some e \<Rightarrow> Inr (e, t)"
  obtain y where y: "db_stmt ?st s = (Inl y, s')" "x = (if y = ErrNoRows then ErrEntityNotFound else y)"
    using 4(2) by (auto simp: NewPgEntityRepo_def pgEntity_Get_def tx_map_err_def split: prod.splits sum.splits)
  have "(\<exists>n. y = IOErr n) \<or> ?st (db_tables s) = Inl y" by (rule db_stmt_Inl_cases [OF y(1)])
  then have "x = ErrEntityNotFound \<longrightarrow> et_abs (db_tables s) i = None"
    using y(2) by (auto simp: et_abs_def ErrEntityNotFound_def split: option.splits)
  then show ?case using 4(1) db_stmt_Inl [OF y(1)] by simp
next
  case (5 s owner es s')
  then show ?case using pgEntity_list_cases [of _ s "Inr es" s'] et_listing
    by (auto simp: NewPgEntityRepo_def pgEntity_ListByOwner_def)
next
  case (6 s owner x s')
  then show ?case using pgEntity_list_cases [of _ s "Inl x" s']
    by (auto simp: NewPgEntityRepo_def pgEntity_ListByOwner_def)
next
  case (7 s kind es s')
  then show ?case using pgEntity_list_cases [of _ s "Inr es" s'] et_listing
    by (auto simp: NewPgEntityRepo_def pgEntity_ListByKind_def)
next
  case (8 s kind x s')
  then show ?case using pgEntity_list_cases [of _ s "Inl x" s']
    by (auto simp: NewPgEntityRepo_def pgEntity_ListByKind_def)
next
  case (9 s i u s')
  then have "db_tables s' = (db_tables s)\<lparr>et_rows := filter (\<lambda>e. en_ID e \<noteq> i) (et_rows (db_tables s))\<rparr>"
    by (auto simp: NewPgEntityRepo_def pgEntity_Delete_def dest!: db_stmt_Inr)
  with et_delete [OF 9(1)] show ?case by simp
next
  case (10 s i x s')
  then show ?case by (auto simp: NewPgEntityRepo_def pgEntity_Delete_def dest: db_stmt_Inl)
next
  case (11 s i e)
  then show ?case by (simp add: et_abs_iff)
qed

subsection \<open>relation.go\<close>

record Edge =
  ed_From :: int
  ed_Type :: string
  ed_To :: int

record 's RelationRepo =
  rr_Link :: "int \<Rightarrow> string \<Rightarrow> int \<Rightarrow> 's \<Rightarrow> unit result \<times> 's"
  rr_Unlink :: "int \<Rightarrow> string \<Rightarrow> int \<Rightarrow> 's \<Rightarrow> unit result \<times> 's"
  rr_To :: "int \<Rightarrow> string \<Rightarrow> 's \<Rightarrow> int list result \<times> 's"
  rr_From :: "int \<Rightarrow> string \<Rightarrow> 's \<Rightarrow> int list result \<times> 's"
  rr_Exists :: "int \<Rightarrow> string \<Rightarrow> int \<Rightarrow> 's \<Rightarrow> bool result \<times> 's"

abbreviation edge :: "int \<Rightarrow> string \<Rightarrow> int \<Rightarrow> Edge" where
  "edge from t dst \<equiv> \<lparr>ed_From = from, ed_Type = t, ed_To = dst\<rparr>"

text \<open>mem.go: the set of edges, in the order the map iterates over them.\<close>

type_synonym memRelations = "Edge list"

definition sortIDs :: "int list \<Rightarrow> int list" where
  "sortIDs is = sort_loop (\<lambda>i. i) [] is"

definition collect_edges :: "(Edge \<Rightarrow> int \<times> bool) \<Rightarrow> memRelations \<Rightarrow> int list" where
  "collect_edges pick r = sortIDs (map (fst \<circ> pick) (filter (snd \<circ> pick) r))"

definition memRelation_Link :: "int \<Rightarrow> string \<Rightarrow> int \<Rightarrow> memRelations \<Rightarrow> unit result \<times> memRelations" where
  "memRelation_Link from t dst r = (Inr (), if edge from t dst \<in> set r then r else r @ [edge from t dst])"

definition memRelation_Unlink :: "int \<Rightarrow> string \<Rightarrow> int \<Rightarrow> memRelations \<Rightarrow> unit result \<times> memRelations" where
  "memRelation_Unlink from t dst r = (Inr (), filter (\<lambda>e. e \<noteq> edge from t dst) r)"

definition memRelation_To :: "int \<Rightarrow> string \<Rightarrow> memRelations \<Rightarrow> int list result \<times> memRelations" where
  "memRelation_To from t r = (Inr (collect_edges (\<lambda>e. (ed_To e, ed_From e = from \<and> ed_Type e = t)) r), r)"

definition memRelation_From :: "int \<Rightarrow> string \<Rightarrow> memRelations \<Rightarrow> int list result \<times> memRelations" where
  "memRelation_From dst t r = (Inr (collect_edges (\<lambda>e. (ed_From e, ed_To e = dst \<and> ed_Type e = t)) r), r)"

definition memRelation_Exists :: "int \<Rightarrow> string \<Rightarrow> int \<Rightarrow> memRelations \<Rightarrow> bool result \<times> memRelations" where
  "memRelation_Exists from t dst r = (Inr (edge from t dst \<in> set r), r)"

definition NewMemRelationRepo :: "memRelations RelationRepo" where
  "NewMemRelationRepo = \<lparr>rr_Link = memRelation_Link, rr_Unlink = memRelation_Unlink, rr_To = memRelation_To,
     rr_From = memRelation_From, rr_Exists = memRelation_Exists\<rparr>"

text \<open>pg.go: the table, the triple its primary key.\<close>

type_synonym relation_table = "Edge list"

definition pgRelation_Link :: "int \<Rightarrow> string \<Rightarrow> int \<Rightarrow> relation_table DB \<Rightarrow> unit result \<times> relation_table DB" where
  "pgRelation_Link from t dst = db_stmt (\<lambda>r. Inr ((), if edge from t dst \<in> set r then r else r @ [edge from t dst]))"

definition pgRelation_Unlink :: "int \<Rightarrow> string \<Rightarrow> int \<Rightarrow> relation_table DB \<Rightarrow> unit result \<times> relation_table DB" where
  "pgRelation_Unlink from t dst = db_stmt (\<lambda>r. Inr ((), filter (\<lambda>e. e \<noteq> edge from t dst) r))"

text \<open>A \<open>SELECT ... ORDER BY\<close> of one column and the loop over its rows.\<close>

definition pgRelation_ids :: "(Edge \<Rightarrow> bool) \<Rightarrow> (Edge \<Rightarrow> int) \<Rightarrow> relation_table DB \<Rightarrow> int list result \<times> relation_table DB" where
  "pgRelation_ids p col d = (case db_call d of
     (Some e, d1) \<Rightarrow> (Inl e, d1)
   | (None, d1) \<Rightarrow> (case fetch_rows (sort (map col (filter p (db_tables d1)))) d1 of
        ((_, Some e), d2) \<Rightarrow> (Inl e, d2)
      | ((ids, None), d2) \<Rightarrow> (Inr ids, d2)))"

definition pgRelation_To :: "int \<Rightarrow> string \<Rightarrow> relation_table DB \<Rightarrow> int list result \<times> relation_table DB" where
  "pgRelation_To from t = pgRelation_ids (\<lambda>e. ed_From e = from \<and> ed_Type e = t) ed_To"

definition pgRelation_From :: "int \<Rightarrow> string \<Rightarrow> relation_table DB \<Rightarrow> int list result \<times> relation_table DB" where
  "pgRelation_From dst t = pgRelation_ids (\<lambda>e. ed_To e = dst \<and> ed_Type e = t) ed_From"

definition pgRelation_Exists :: "int \<Rightarrow> string \<Rightarrow> int \<Rightarrow> relation_table DB \<Rightarrow> bool result \<times> relation_table DB" where
  "pgRelation_Exists from t dst d =
     (case db_stmt (\<lambda>r. if edge from t dst \<in> set r then Inr ((), r) else Inl ErrNoRows) d of
       (Inl e, d') \<Rightarrow> if e = ErrNoRows then (Inr False, d') else (Inl e, d')
     | (Inr _, d') \<Rightarrow> (Inr True, d'))"

definition NewPgRelationRepo :: "relation_table DB RelationRepo" where
  "NewPgRelationRepo = \<lparr>rr_Link = pgRelation_Link, rr_Unlink = pgRelation_Unlink, rr_To = pgRelation_To,
     rr_From = pgRelation_From, rr_Exists = pgRelation_Exists\<rparr>"

subsection \<open>The contract of a relation repository\<close>

text \<open>The ascending list of a finite set of ids: what both versions return for one direction.\<close>

definition ascending :: "int list \<Rightarrow> int set \<Rightarrow> bool" where
  "ascending xs A \<longleftrightarrow> sorted xs \<and> distinct xs \<and> set xs = A"

lemma ascending_unique: "ascending xs A \<Longrightarrow> ascending ys A \<Longrightarrow> xs = ys"
  unfolding ascending_def by (metis sorted_list_of_distinct_eq)

locale relation_repo =
  fixes R :: "'s RelationRepo" and abs :: "'s \<Rightarrow> Edge set" and inv :: "'s \<Rightarrow> bool"
  assumes link_ok: "inv s \<Longrightarrow> rr_Link R f t d s = (Inr u, s') \<Longrightarrow> inv s' \<and> abs s' = insert (edge f t d) (abs s)"
    and link_err: "inv s \<Longrightarrow> rr_Link R f t d s = (Inl x, s') \<Longrightarrow> inv s' \<and> abs s' = abs s"
    and unlink_ok: "inv s \<Longrightarrow> rr_Unlink R f t d s = (Inr u, s') \<Longrightarrow> inv s' \<and> abs s' = abs s - {edge f t d}"
    and unlink_err: "inv s \<Longrightarrow> rr_Unlink R f t d s = (Inl x, s') \<Longrightarrow> inv s' \<and> abs s' = abs s"
    and to_ok: "inv s \<Longrightarrow> rr_To R f t s = (Inr is, s') \<Longrightarrow>
        inv s' \<and> abs s' = abs s \<and> ascending is {d. edge f t d \<in> abs s}"
    and to_err: "inv s \<Longrightarrow> rr_To R f t s = (Inl x, s') \<Longrightarrow> inv s' \<and> abs s' = abs s"
    and from_ok: "inv s \<Longrightarrow> rr_From R d t s = (Inr is, s') \<Longrightarrow>
        inv s' \<and> abs s' = abs s \<and> ascending is {f. edge f t d \<in> abs s}"
    and from_err: "inv s \<Longrightarrow> rr_From R d t s = (Inl x, s') \<Longrightarrow> inv s' \<and> abs s' = abs s"
    and exists_ok: "inv s \<Longrightarrow> rr_Exists R f t d s = (Inr b, s') \<Longrightarrow> inv s' \<and> abs s' = abs s \<and> b = (edge f t d \<in> abs s)"
    and exists_err: "inv s \<Longrightarrow> rr_Exists R f t d s = (Inl x, s') \<Longrightarrow> inv s' \<and> abs s' = abs s"
begin

lemma link_idem:
  "inv s \<Longrightarrow> rr_Link R f t d s = (Inr u, s') \<Longrightarrow> rr_Link R f t d s' = (Inr u', s'') \<Longrightarrow> abs s'' = abs s'"
  using link_ok [of s f t d u s'] link_ok [of s' f t d u' s''] by auto

end

lemma sortIDs_eq: "sortIDs xs = sort xs"
proof -
  have "mset (sortIDs xs) = mset xs" by (simp add: sortIDs_def mset_sort_loop)
  moreover have "sorted (sortIDs xs)" using sorted_sort_loop [of "\<lambda>i. i" "[]" xs] by (simp add: sortIDs_def)
  ultimately show ?thesis by (metis properties_for_sort)
qed

lemma edge_to_iff: "ed_From e = f \<and> ed_Type e = t \<longleftrightarrow> e = edge f t (ed_To e)"
  by (cases e) auto

lemma edge_from_iff: "ed_To e = d \<and> ed_Type e = t \<longleftrightarrow> e = edge (ed_From e) t d"
  by (cases e) auto

lemma collect_edges_to:
  assumes "distinct r"
  shows "ascending (sort (map ed_To (filter (\<lambda>e. ed_From e = f \<and> ed_Type e = t) r))) {d. edge f t d \<in> set r}"
proof -
  have "inj_on ed_To (set (filter (\<lambda>e. ed_From e = f \<and> ed_Type e = t) r))" by (auto simp: inj_on_def)
  then have "distinct (map ed_To (filter (\<lambda>e. ed_From e = f \<and> ed_Type e = t) r))" using assms by (simp add: distinct_map)
  moreover have "ed_To ` {e \<in> set r. ed_From e = f \<and> ed_Type e = t} = {d. edge f t d \<in> set r}"
  proof (intro set_eqI iffI)
    fix x
    assume "x \<in> ed_To ` {e \<in> set r. ed_From e = f \<and> ed_Type e = t}"
    then show "x \<in> {d. edge f t d \<in> set r}" by (auto simp: edge_to_iff)
  qed (auto intro: rev_image_eqI)
  ultimately show ?thesis by (simp add: ascending_def)
qed

lemma collect_edges_from:
  assumes "distinct r"
  shows "ascending (sort (map ed_From (filter (\<lambda>e. ed_To e = d \<and> ed_Type e = t) r))) {f. edge f t d \<in> set r}"
proof -
  have "inj_on ed_From (set (filter (\<lambda>e. ed_To e = d \<and> ed_Type e = t) r))" by (auto simp: inj_on_def)
  then have "distinct (map ed_From (filter (\<lambda>e. ed_To e = d \<and> ed_Type e = t) r))" using assms by (simp add: distinct_map)
  moreover have "ed_From ` {e \<in> set r. ed_To e = d \<and> ed_Type e = t} = {f. edge f t d \<in> set r}"
  proof (intro set_eqI iffI)
    fix x
    assume "x \<in> ed_From ` {e \<in> set r. ed_To e = d \<and> ed_Type e = t}"
    then show "x \<in> {f. edge f t d \<in> set r}" by (auto simp: edge_from_iff)
  qed (auto intro: rev_image_eqI)
  ultimately show ?thesis by (simp add: ascending_def)
qed

lemmas memRelation_defs = NewMemRelationRepo_def memRelation_Link_def memRelation_Unlink_def memRelation_To_def
  memRelation_From_def memRelation_Exists_def

interpretation memRelations: relation_repo NewMemRelationRepo set distinct
  by unfold_locales
     (auto simp: memRelation_defs collect_edges_def sortIDs_eq comp_def collect_edges_to collect_edges_from split: if_splits)

lemma pgRelation_ids_cases:
  assumes "pgRelation_ids p col d = (r, d')"
  shows "db_tables d' = db_tables d \<and> (\<forall>is. r = Inr is \<longrightarrow> is = sort (map col (filter p (db_tables d))))"
  using assms by (auto simp: pgRelation_ids_def dest: fetch_rows_tables fetch_rows_prefix split: prod.splits option.splits)

lemma pgRelation_Exists_cases:
  assumes "pgRelation_Exists f t b d = (r, d')"
  shows "db_tables d' = db_tables d \<and> (\<forall>x. r = Inr x \<longrightarrow> x = (edge f t b \<in> set (db_tables d)))"
proof -
  let ?st = "\<lambda>r. if edge f t b \<in> set r then Inr ((), r) else Inl ErrNoRows"
  obtain q d1 where q: "db_stmt ?st d = (q, d1)" by fastforce
  show ?thesis
  proof (cases q)
    case (Inl e)
    have "(\<exists>n. e = IOErr n) \<or> ?st (db_tables d) = Inl e" using db_stmt_Inl_cases [of ?st d e d1] q Inl by simp
    then show ?thesis using assms q Inl db_stmt_Inl [of ?st d e d1]
      by (auto simp: pgRelation_Exists_def split: if_splits)
  next
    case (Inr u)
    have "?st (db_tables d) = Inr (u, db_tables d1)" using db_stmt_Inr [of ?st d u d1] q Inr by simp
    then show ?thesis using assms q Inr by (auto simp: pgRelation_Exists_def split: if_splits)
  qed
qed

interpretation pgRelations: relation_repo NewPgRelationRepo "\<lambda>d. set (db_tables d)" "\<lambda>d. distinct (db_tables d)"
proof (unfold_locales, goal_cases)
  case (1 s f t d u s')
  then show ?case by (auto simp: NewPgRelationRepo_def pgRelation_Link_def dest!: db_stmt_upd split: if_splits)
next
  case (2 s f t d x s')
  then show ?case by (auto simp: NewPgRelationRepo_def pgRelation_Link_def dest: db_stmt_Inl)
next
  case (3 s f t d u s')
  then show ?case by (auto simp: NewPgRelationRepo_def pgRelation_Unlink_def dest!: db_stmt_upd)
next
  case (4 s f t d x s')
  then show ?case by (auto simp: NewPgRelationRepo_def pgRelation_Unlink_def dest: db_stmt_Inl)
next
  case (5 s f t "is" s')
  then show ?case using pgRelation_ids_cases [of _ _ s "Inr is" s'] collect_edges_to [of "db_tables s" f t]
    by (auto simp: NewPgRelationRepo_def pgRelation_To_def)
next
  case (6 s f t x s')
  then show ?case using pgRelation_ids_cases [of _ _ s "Inl x" s'] by (auto simp: NewPgRelationRepo_def pgRelation_To_def)
next
  case (7 s d t "is" s')
  then show ?case using pgRelation_ids_cases [of _ _ s "Inr is" s'] collect_edges_from [of "db_tables s" d t]
    by (auto simp: NewPgRelationRepo_def pgRelation_From_def)
next
  case (8 s d t x s')
  then show ?case using pgRelation_ids_cases [of _ _ s "Inl x" s'] by (auto simp: NewPgRelationRepo_def pgRelation_From_def)
next
  case (9 s f t d b s')
  then show ?case using pgRelation_Exists_cases [of f t d s "Inr b" s'] by (auto simp: NewPgRelationRepo_def)
next
  case (10 s f t d x s')
  then show ?case using pgRelation_Exists_cases [of f t d s "Inl x" s'] by (auto simp: NewPgRelationRepo_def)
qed

subsection \<open>The two graphs agree\<close>

text \<open>A session of calls on a repository, each with its answer.\<close>

datatype rel_op =
    OpLink int string int
  | OpUnlink int string int
  | OpTo int string
  | OpFrom int string
  | OpExists int string int

datatype rel_answer = Done | Ids "int list" | Found bool

definition rel_call :: "'s RelationRepo \<Rightarrow> rel_op \<Rightarrow> 's \<Rightarrow> rel_answer result \<times> 's" where
  "rel_call R c s = (case c of
     OpLink f t d \<Rightarrow> (case rr_Link R f t d s of (r, s') \<Rightarrow> (map_sum (\<lambda>e. e) (\<lambda>_. Done) r, s'))
   | OpUnlink f t d \<Rightarrow> (case rr_Unlink R f t d s of (r, s') \<Rightarrow> (map_sum (\<lambda>e. e) (\<lambda>_. Done) r, s'))
   | OpTo f t \<Rightarrow> (case rr_To R f t s of (r, s') \<Rightarrow> (map_sum (\<lambda>e. e) Ids r, s'))
   | OpFrom d t \<Rightarrow> (case rr_From R d t s of (r, s') \<Rightarrow> (map_sum (\<lambda>e. e) Ids r, s'))
   | OpExists f t d \<Rightarrow> (case rr_Exists R f t d s of (r, s') \<Rightarrow> (map_sum (\<lambda>e. e) Found r, s')))"

fun rel_session :: "'s RelationRepo \<Rightarrow> rel_op list \<Rightarrow> 's \<Rightarrow> rel_answer result list" where
  "rel_session R [] s = []"
| "rel_session R (c # cs) s = (case rel_call R c s of (r, s') \<Rightarrow> r # rel_session R cs s')"

text \<open>What a call answers and does, as a function of the edge set.\<close>

definition rel_spec :: "rel_op \<Rightarrow> Edge set \<Rightarrow> rel_answer \<Rightarrow> Edge set \<Rightarrow> bool" where
  "rel_spec c A a A' = (case c of
     OpLink f t d \<Rightarrow> a = Done \<and> A' = insert (edge f t d) A
   | OpUnlink f t d \<Rightarrow> a = Done \<and> A' = A - {edge f t d}
   | OpTo f t \<Rightarrow> (\<exists>is. a = Ids is \<and> ascending is {d. edge f t d \<in> A}) \<and> A' = A
   | OpFrom d t \<Rightarrow> (\<exists>is. a = Ids is \<and> ascending is {f. edge f t d \<in> A}) \<and> A' = A
   | OpExists f t d \<Rightarrow> a = Found (edge f t d \<in> A) \<and> A' = A)"

lemma rel_spec_fun: "rel_spec c A a A' \<Longrightarrow> rel_spec c A b B' \<Longrightarrow> a = b \<and> A' = B'"
  by (cases c) (auto simp: rel_spec_def dest: ascending_unique)

context relation_repo
begin

lemma call_ok:
  assumes "inv s" and "rel_call R c s = (Inr a, s')"
  shows "inv s' \<and> rel_spec c (abs s) a (abs s')"
  using assms
  by (cases c) (auto simp: rel_call_def rel_spec_def map_sum_def split: prod.splits sum.splits
      dest: link_ok unlink_ok to_ok from_ok exists_ok)

lemma call_err:
  assumes "inv s" and "rel_call R c s = (Inl e, s')"
  shows "inv s' \<and> abs s' = abs s"
  using assms
  by (cases c) (auto simp: rel_call_def map_sum_def split: prod.splits sum.splits
      dest: link_err unlink_err to_err from_err exists_err)

end

lemma memRelation_total: "\<exists>a s'. rel_call NewMemRelationRepo c s = (Inr a, s')"
  by (cases c) (auto simp: rel_call_def memRelation_defs)

lemma relation_session_agree:
  assumes "distinct (db_tables d)" and "distinct r" and "set r = set (db_tables d)"
  shows "filter is_ok (rel_session NewPgRelationRepo cs d)
       = rel_session NewMemRelationRepo (map fst (filter (is_ok \<circ> snd) (zip cs (rel_session NewPgRelationRepo cs d)))) r"
  using assms
proof (induction cs arbitrary: d r)
  case Nil
  then show ?case by simp
next
  case (Cons c cs)
  obtain q d1 where q: "rel_call NewPgRelationRepo c d = (q, d1)" by fastforce
  show ?case
  proof (cases q)
    case (Inl e)
    with pgRelations.call_err [OF Cons.prems(1)] q have "distinct (db_tables d1)" "set (db_tables d1) = set (db_tables d)" by blast+
    then show ?thesis using Cons.IH [of d1 r] Cons.prems q Inl by simp
  next
    case (Inr a)
    obtain b r1 where b: "rel_call NewMemRelationRepo c r = (Inr b, r1)" using memRelation_total by blast
    have p: "distinct (db_tables d1)" "rel_spec c (set (db_tables d)) a (set (db_tables d1))"
      using pgRelations.call_ok [OF Cons.prems(1)] q Inr by blast+
    have m: "distinct r1" "rel_spec c (set r) b (set r1)" using memRelations.call_ok [OF Cons.prems(2) b] by blast+
    have "a = b" "set r1 = set (db_tables d1)" using rel_spec_fun [OF p(2), of b "set r1"] m(2) Cons.prems(3) by simp_all
    then show ?thesis using Cons.IH [OF p(1) m(1)] q Inr b by simp
  qed
qed



end
