(* ===== verification/World.thy ===== *)
theory World
  imports Component_Store Entity_Graph
begin

section \<open>The world: gamekit/world and gamekit/template\<close>

text \<open>
  A world joins the entity repository with the registered component indexes and answers which
  entities have all of a list of components; a composer creates entities from templates. The
  component stores of one world live in one database, so this theory first says what it means for
  a store to work on a part of a state.
\<close>

subsection \<open>One part of a state\<close>

text \<open>An operation on a part of a state, and the stores on it; a part can be read and replaced.\<close>

definition on_part :: "('s \<Rightarrow> 'a) \<Rightarrow> ('a \<Rightarrow> 's \<Rightarrow> 's) \<Rightarrow> ('a \<Rightarrow> 'r \<times> 'a) \<Rightarrow> 's \<Rightarrow> 'r \<times> 's" where
  "on_part get put m s = (case m (get s) of (r, x) \<Rightarrow> (r, put x s))"

definition store_on :: "('s \<Rightarrow> 'a) \<Rightarrow> ('a \<Rightarrow> 's \<Rightarrow> 's) \<Rightarrow> ('a, 'v) Store \<Rightarrow> ('s, 'v) Store" where
  "store_on get put S = \<lparr>st_Name = st_Name S,
     st_Get = (\<lambda>d k. on_part get put (\<lambda>t. st_Get S t k) d),
     st_Set = (\<lambda>d k v. on_part get put (\<lambda>t. st_Set S t k v) d),
     st_Delete = (\<lambda>d k. on_part get put (\<lambda>t. st_Delete S t k) d),
     st_Has = (\<lambda>d k. on_part get put (\<lambda>t. st_Has S t k) d),
     st_EntityIDs = (\<lambda>d. on_part get put (st_EntityIDs S) d)\<rparr>"

definition entities_on :: "('s \<Rightarrow> 'a) \<Rightarrow> ('a \<Rightarrow> 's \<Rightarrow> 's) \<Rightarrow> 'a EntityRepo \<Rightarrow> 's EntityRepo" where
  "entities_on get put R = \<lparr>er_Create = (\<lambda>now kind owner. on_part get put (er_Create R now kind owner)),
     er_Get = (\<lambda>i. on_part get put (er_Get R i)),
     er_ListByOwner = (\<lambda>i. on_part get put (er_ListByOwner R i)),
     er_ListByKind = (\<lambda>k. on_part get put (er_ListByKind R k)),
     er_Delete = (\<lambda>i. on_part get put (er_Delete R i))\<rparr>"

text \<open>One table of a database, with the driver it shares with the others.\<close>

definition sub_table :: "('tb \<Rightarrow> 'a) \<Rightarrow> 'tb DB \<Rightarrow> 'a DB" where
  "sub_table get d = \<lparr>db_tables = get (db_tables d), db_faults = db_faults d\<rparr>"

definition put_table :: "('a \<Rightarrow> 'tb \<Rightarrow> 'tb) \<Rightarrow> 'a DB \<Rightarrow> 'tb DB \<Rightarrow> 'tb DB" where
  "put_table put x d = \<lparr>db_tables = put (db_tables x) (db_tables d), db_faults = db_faults x\<rparr>"

lemma sub_put_table: "(\<And>x t. get (put x t) = x) \<Longrightarrow> sub_table get (put_table put x d) = x"
  by (simp add: sub_table_def put_table_def)

lemma on_part_frame: "on_part get put m s = (r, s') \<Longrightarrow> (\<And>x. P (put x s) = P s) \<Longrightarrow> P s' = P s"
  by (auto simp: on_part_def split: prod.splits)

locale part =
  fixes get :: "'s \<Rightarrow> 'a" and put :: "'a \<Rightarrow> 's \<Rightarrow> 's"
  assumes get_put: "get (put x t) = x"
begin

lemma on_part_get: "on_part get put m d = (r, d') \<Longrightarrow> m (get d) = (r, get d')"
  by (auto simp: on_part_def get_put split: prod.splits)

end

text \<open>A component store keeps its contract on a part of a state, and so does an entity repository.\<close>

locale part_store = part get put + component_store S abs inv okv
  for get :: "'s \<Rightarrow> 'a" and put and S :: "('a, 'v) Store" and abs inv okv

sublocale part_store \<subseteq> at_part: component_store "store_on get put S" "\<lambda>d. abs (get d)" "\<lambda>d. inv (get d)" okv
proof (unfold_locales, goal_cases)
  case (1 s k r s')
  then show ?case by (auto simp: store_on_def dest!: on_part_get dest: get_ok)
next
  case (2 s k e s')
  then show ?case by (auto simp: store_on_def dest!: on_part_get dest: get_err)
next
  case (3 s v k u s')
  then show ?case by (auto simp: store_on_def dest!: on_part_get dest: set_ok)
next
  case (4 s v k e s')
  then show ?case by (auto simp: store_on_def dest!: on_part_get dest: set_err)
next
  case (5 s k u s')
  then show ?case by (auto simp: store_on_def dest!: on_part_get dest: delete_ok)
next
  case (6 s k e s')
  then show ?case by (auto simp: store_on_def dest!: on_part_get dest: delete_err)
next
  case (7 s k b s')
  then show ?case by (auto simp: store_on_def dest!: on_part_get dest: has_ok)
next
  case (8 s k e s')
  then show ?case by (auto simp: store_on_def dest!: on_part_get dest: has_err)
next
  case (9 s ids s')
  then have "st_EntityIDs S (get s) = (Inr ids, get s')"
    by (auto simp: store_on_def dest!: on_part_get)
  with ids_ok [OF 9(1)] show ?case by blast
next
  case (10 s e s')
  then show ?case by (auto simp: store_on_def dest!: on_part_get dest: ids_err)
next
  case (11 s k v)
  then show ?case using okv_abs by blast
qed

locale part_entities = part get put + entity_repo R abs inv
  for get :: "'s \<Rightarrow> 'a" and put and R :: "'a EntityRepo" and abs inv

sublocale part_entities \<subseteq> at_part: entity_repo "entities_on get put R" "\<lambda>d. abs (get d)" "\<lambda>d. inv (get d)"
proof (unfold_locales, goal_cases)
  case (1 s now kind owner e s')
  then show ?case by (auto simp: entities_on_def dest!: on_part_get dest: create_ok)
next
  case (2 s now kind owner x s')
  then show ?case by (auto simp: entities_on_def dest!: on_part_get dest: create_err)
next
  case (3 s i e s')
  then show ?case by (auto simp: entities_on_def dest!: on_part_get dest: get_ok)
next
  case (4 s i x s')
  then show ?case by (auto simp: entities_on_def dest!: on_part_get dest: get_err)
next
  case (5 s owner es s')
  then show ?case by (auto simp: entities_on_def dest!: on_part_get dest: owner_ok)
next
  case (6 s owner x s')
  then show ?case by (auto simp: entities_on_def dest!: on_part_get dest: owner_err)
next
  case (7 s kind es s')
  then show ?case by (auto simp: entities_on_def dest!: on_part_get dest: kind_ok)
next
  case (8 s kind x s')
  then show ?case by (auto simp: entities_on_def dest!: on_part_get dest: kind_err)
next
  case (9 s i u s')
  then show ?case by (auto simp: entities_on_def dest!: on_part_get dest: delete_ok)
next
  case (10 s i x s')
  then show ?case by (auto simp: entities_on_def dest!: on_part_get dest: delete_err)
next
  case (11 s i e)
  then show ?case using ids by blast
qed

subsection \<open>world.go\<close>

record 's ComponentIndex =
  ci_Name :: string
  ci_EntityIDs :: "'s \<Rightarrow> int list result \<times> 's"
  ci_Has :: "'s \<Rightarrow> int \<Rightarrow> bool result \<times> 's"

text \<open>A store is an index.\<close>

definition index_of :: "('s, 'v) Store \<Rightarrow> 's ComponentIndex" where
  "index_of S = \<lparr>ci_Name = st_Name S, ci_EntityIDs = st_EntityIDs S, ci_Has = st_Has S\<rparr>"

record 's World =
  wd_Entities :: "'s EntityRepo"
  wd_indexes :: "string \<rightharpoonup> 's ComponentIndex"

definition world_New :: "'s EntityRepo \<Rightarrow> 's World" where
  "world_New entities = \<lparr>wd_Entities = entities, wd_indexes = Map.empty\<rparr>"

definition world_Register :: "'s ComponentIndex \<Rightarrow> 's World \<Rightarrow> 's World" where
  "world_Register idx w = w\<lparr>wd_indexes := (wd_indexes w)(ci_Name idx \<mapsto> idx)\<rparr>"

definition unknown_component :: "string \<Rightarrow> error" where
  "unknown_component name = Formatted [''world: unknown component'', name]"

text \<open>The inner loop: the ids kept by one index.\<close>

fun query_keep :: "'s ComponentIndex \<Rightarrow> int list \<Rightarrow> 's \<Rightarrow> int list result \<times> 's" where
  "query_keep idx [] s = (Inr [], s)"
| "query_keep idx (i # is) s = (case ci_Has idx s i of
     (Inl e, s') \<Rightarrow> (Inl e, s')
   | (Inr b, s') \<Rightarrow> (case query_keep idx is s' of
        (Inl e, s'') \<Rightarrow> (Inl e, s'')
      | (Inr kept, s'') \<Rightarrow> (Inr (if b then i # kept else kept), s'')))"

fun query_rest :: "'s World \<Rightarrow> string list \<Rightarrow> int list \<Rightarrow> 's \<Rightarrow> int list result \<times> 's" where
  "query_rest w [] ids s = (Inr ids, s)"
| "query_rest w (name # names) ids s = (case wd_indexes w name of
     None \<Rightarrow> (Inl (unknown_component name), s)
   | Some idx \<Rightarrow> (case query_keep idx ids s of
        (Inl e, s') \<Rightarrow> (Inl e, s')
      | (Inr kept, s') \<Rightarrow> query_rest w names kept s'))"

definition world_Query :: "'s World \<Rightarrow> string list \<Rightarrow> 's \<Rightarrow> int list result \<times> 's" where
  "world_Query w names s = (case names of
     [] \<Rightarrow> (Inr [], s)
   | n # ns \<Rightarrow> (case wd_indexes w n of
        None \<Rightarrow> (Inl (unknown_component n), s)
      | Some base \<Rightarrow> (case ci_EntityIDs base s of
           (Inl e, s') \<Rightarrow> (Inl e, s')
         | (Inr ids, s') \<Rightarrow> query_rest w ns ids s')))"

fun with_loop :: "('s, 'v) Store \<Rightarrow> int list \<Rightarrow> 's \<Rightarrow> (int \<times> 'v) list result \<times> 's" where
  "with_loop S [] s = (Inr [], s)"
| "with_loop S (i # is) s = (case st_Get S s i of
     (Inl e, s') \<Rightarrow> (Inl e, s')
   | (Inr r, s') \<Rightarrow> (case with_loop S is s' of
        (Inl e, s'') \<Rightarrow> (Inl e, s'')
      | (Inr ps, s'') \<Rightarrow> (Inr (case r of None \<Rightarrow> ps | Some v \<Rightarrow> (i, v) # ps), s'')))"

definition world_With :: "('s, 'v) Store \<Rightarrow> 's \<Rightarrow> (int \<times> 'v) list result \<times> 's" where
  "world_With S s = (case st_EntityIDs S s of
     (Inl e, s') \<Rightarrow> (Inl e, s')
   | (Inr ids, s') \<Rightarrow> with_loop S ids s')"

text \<open>
  The indexes of a world: \<open>has n s\<close> is the set of entities with component \<open>n\<close>. Reading an
  index changes no component.
\<close>

locale world_indexes =
  fixes w :: "'s World" and has :: "string \<Rightarrow> 's \<Rightarrow> int set" and inv :: "'s \<Rightarrow> bool"
  assumes index_ids: "inv s \<Longrightarrow> wd_indexes w n = Some x \<Longrightarrow> ci_EntityIDs x s = (r, s') \<Longrightarrow>
        inv s' \<and> (\<forall>m. has m s' = has m s) \<and> (\<forall>ids. r = Inr ids \<longrightarrow> ascending ids (has n s))"
    and index_has: "inv s \<Longrightarrow> wd_indexes w n = Some x \<Longrightarrow> ci_Has x s i = (q, s') \<Longrightarrow>
        inv s' \<and> (\<forall>m. has m s' = has m s) \<and> (\<forall>b. q = Inr b \<longrightarrow> b = (i \<in> has n s))"
begin

lemma query_keep_ok:
  assumes "wd_indexes w n = Some x" and "inv s" and "query_keep x is s = (r, s')"
  shows "inv s' \<and> (\<forall>m. has m s' = has m s) \<and> (\<forall>kept. r = Inr kept \<longrightarrow> kept = filter (\<lambda>i. i \<in> has n s) is)"
  using assms(2,3)
proof (induction "is" arbitrary: s r s')
  case Nil
  then show ?case by auto
next
  case (Cons i "is")
  obtain q s1 where q: "ci_Has x s i = (q, s1)" by fastforce
  note h = index_has [OF Cons.prems(1) assms(1) q]
  show ?case
  proof (cases q)
    case (Inl e)
    then show ?thesis using Cons.prems(2) q h by auto
  next
    case (Inr b)
    obtain g s2 where g: "query_keep x is s1 = (g, s2)" by fastforce
    have "inv s1" using h by blast
    note IH = Cons.IH [OF this g]
    show ?thesis using Cons.prems(2) q g h IH Inr by (cases g) auto
  qed
qed

lemma query_rest_ok:
  assumes "inv s" and "query_rest w ns ids s = (r, s')"
  shows "inv s' \<and> (\<forall>m. has m s' = has m s) \<and>
     (\<forall>kept. r = Inr kept \<longrightarrow> (\<forall>n \<in> set ns. wd_indexes w n \<noteq> None) \<and> kept = filter (\<lambda>i. \<forall>n \<in> set ns. i \<in> has n s) ids)"
  using assms
proof (induction ns arbitrary: s ids r)
  case Nil
  then show ?case by auto
next
  case (Cons n ns)
  show ?case
  proof (cases "wd_indexes w n")
    case None
    then show ?thesis using Cons.prems by auto
  next
    case (Some x)
    obtain q s1 where q: "query_keep x ids s = (q, s1)" by fastforce
    note k = query_keep_ok [OF Some Cons.prems(1) q]
    show ?thesis
    proof (cases q)
      case (Inl e)
      then show ?thesis using Cons.prems(2) Some q k by auto
    next
      case (Inr kept)
      have "query_rest w ns kept s1 = (r, s')" using Cons.prems(2) Some q Inr by simp
      moreover have "inv s1" using k by blast
      ultimately have "inv s' \<and> (\<forall>m. has m s' = has m s1) \<and>
         (\<forall>kp. r = Inr kp \<longrightarrow> (\<forall>n \<in> set ns. wd_indexes w n \<noteq> None) \<and> kp = filter (\<lambda>i. \<forall>n \<in> set ns. i \<in> has n s1) kept)"
        by (intro Cons.IH)
      then show ?thesis using k Inr Some by (auto simp: filter_filter intro: filter_cong)
    qed
  qed
qed

text \<open>A query that succeeds lists exactly the entities with all the components, in order.\<close>

lemma Query_ok:
  assumes "inv s" and "world_Query w names s = (r, s')"
  shows "inv s' \<and> (\<forall>m. has m s' = has m s) \<and>
     (\<forall>ids. r = Inr ids \<longrightarrow> (\<forall>n \<in> set names. wd_indexes w n \<noteq> None) \<and>
        (if names = [] then ids = [] else ascending ids {i. \<forall>n \<in> set names. i \<in> has n s}))"
proof (cases names)
  case Nil
  then show ?thesis using assms by (auto simp: world_Query_def)
next
  case (Cons n ns)
  show ?thesis
  proof (cases "wd_indexes w n")
    case None
    then show ?thesis using assms Cons by (auto simp: world_Query_def)
  next
    case (Some x)
    obtain q s1 where q: "ci_EntityIDs x s = (q, s1)" by fastforce
    note k = index_ids [OF assms(1) Some q]
    show ?thesis
    proof (cases q)
      case (Inl e)
      then show ?thesis using assms Cons Some q k by (auto simp: world_Query_def)
    next
      case (Inr ids)
      have "query_rest w ns ids s1 = (r, s')" using assms(2) Cons Some q Inr by (simp add: world_Query_def)
      moreover have "inv s1" using k by blast
      ultimately have t: "inv s'" "\<forall>m. has m s' = has m s1"
         "\<forall>kp. r = Inr kp \<longrightarrow> (\<forall>n \<in> set ns. wd_indexes w n \<noteq> None) \<and> kp = filter (\<lambda>i. \<forall>n \<in> set ns. i \<in> has n s1) ids"
        using query_rest_ok by blast+
      have "ascending ids (has n s)" "\<And>m. has m s1 = has m s" using k Inr by simp_all
      then have "ascending (filter (\<lambda>i. \<forall>n \<in> set ns. i \<in> has n s1) ids) {i. \<forall>n \<in> set names. i \<in> has n s}"
        using Cons by (auto simp: ascending_def sorted_wrt_filter)
      then show ?thesis using t k Cons Some by auto
    qed
  qed
qed

end

context component_store
begin

text \<open>\<open>With\<close> pairs every entity of the component with its value, in id order.\<close>

lemma with_loop_ok:
  assumes "inv s" and "with_loop S is s = (r, s')"
  shows "inv s' \<and> abs s' = abs s \<and>
    (\<forall>ps. r = Inr ps \<longrightarrow> ps = List.map_filter (\<lambda>i. map_option (Pair i) (abs s i)) is)"
  using assms
proof (induction "is" arbitrary: s r s')
  case Nil
  then show ?case by (auto simp: List.map_filter_def)
next
  case (Cons i "is")
  obtain q s1 where q: "st_Get S s i = (q, s1)" by fastforce
  note h = get_frame [OF Cons.prems(1) q]
  show ?case
  proof (cases q)
    case (Inl e)
    then show ?thesis using Cons.prems(2) q h by auto
  next
    case (Inr v)
    have v: "v = abs s i" using get_ok [OF Cons.prems(1)] q Inr by blast
    obtain g s2 where g: "with_loop S is s1 = (g, s2)" by fastforce
    have "inv s1" using h by blast
    note IH = Cons.IH [OF this g]
    show ?thesis using Cons.prems(2) q g h IH Inr v
      by (cases g) (auto simp: List.map_filter_def split: option.splits)
  qed
qed

lemma With_ok:
  assumes "inv s" and "world_With S s = (r, s')"
  shows "inv s' \<and> abs s' = abs s \<and>
    (\<forall>ps. r = Inr ps \<longrightarrow> sorted (map fst ps) \<and> distinct (map fst ps) \<and> (\<forall>i. map_of ps i = abs s i))"
proof -
  obtain q s1 where q: "st_EntityIDs S s = (q, s1)" by fastforce
  show ?thesis
  proof (cases q)
    case (Inl e)
    then show ?thesis using assms q ids_err [OF assms(1)] by (auto simp: world_With_def)
  next
    case (Inr ids)
    note k = ids_ok [OF assms(1) q [unfolded Inr]]
    have "with_loop S ids s1 = (r, s')" using assms(2) q Inr by (simp add: world_With_def)
    then have t: "inv s'" "abs s' = abs s1"
      "\<forall>ps. r = Inr ps \<longrightarrow> ps = List.map_filter (\<lambda>i. map_option (Pair i) (abs s1 i)) ids"
      using with_loop_ok k by blast+
    have keys: "map fst (List.map_filter (\<lambda>i. map_option (Pair i) (abs s i)) js) = js" if "set js \<subseteq> dom (abs s)" for js
      using that by (induction js) (auto simp: List.map_filter_def)
    have look: "map_of (List.map_filter (\<lambda>i. map_option (Pair i) (abs s i)) js) i = (if i \<in> set js then abs s i else None)" for i js
      by (induction js) (auto simp: List.map_filter_def split: option.splits)
    have "map_of (List.map_filter (\<lambda>i. map_option (Pair i) (abs s i)) ids) i = abs s i" for i
      using k by (auto simp: look domIff)
    then show ?thesis using t k keys [of ids] by auto
  qed
qed

end

subsection \<open>template.go\<close>

text \<open>An initializer stores a component's default data for a fresh entity.\<close>

type_synonym 's ComponentInitializer = "int \<Rightarrow> json \<Rightarrow> 's \<Rightarrow> unit result \<times> 's"

definition template_Init :: "(json \<Rightarrow> 'v result) \<Rightarrow> ('s, 'v) Store \<Rightarrow> 's ComponentInitializer" where
  "template_Init unmarshal S i raw s = (case unmarshal raw of
     Inl e \<Rightarrow> (Inl e, s)
   | Inr v \<Rightarrow> st_Set S s i v)"

text \<open>The components of a template, in the order its map is iterated over.\<close>

record 's Composer =
  cp_entities :: "'s EntityRepo"
  cp_templates :: "string \<rightharpoonup> (string \<times> json) list"
  cp_inits :: "string \<rightharpoonup> 's ComponentInitializer"

definition NewComposer :: "'s EntityRepo \<Rightarrow> 's Composer" where
  "NewComposer entities = \<lparr>cp_entities = entities, cp_templates = Map.empty, cp_inits = Map.empty\<rparr>"

definition LoadTemplates :: "(string \<times> (string \<times> json) list) list \<Rightarrow> 's Composer \<Rightarrow> 's Composer" where
  "LoadTemplates defs c = c\<lparr>cp_templates := fold (\<lambda>(kind, comps) m. m(kind \<mapsto> comps)) defs (cp_templates c)\<rparr>"

definition RegisterComponent :: "string \<Rightarrow> 's ComponentInitializer \<Rightarrow> 's Composer \<Rightarrow> 's Composer" where
  "RegisterComponent name ini c = c\<lparr>cp_inits := (cp_inits c)(name \<mapsto> ini)\<rparr>"

fun spawn_components :: "'s Composer \<Rightarrow> string \<Rightarrow> (string \<times> json) list \<Rightarrow> int \<Rightarrow> 's \<Rightarrow> unit result \<times> 's" where
  "spawn_components c kind [] i s = (Inr (), s)"
| "spawn_components c kind ((name, raw) # rest) i s = (case cp_inits c name of
     None \<Rightarrow> (Inl (Formatted [''template: no initializer'', kind, name]), s)
   | Some ini \<Rightarrow> (case ini i raw s of
        (Inl e, s') \<Rightarrow> (Inl (Formatted [''template: init'', name, kind]), s')
      | (Inr _, s') \<Rightarrow> spawn_components c kind rest i s'))"

definition Spawn :: "'s Composer \<Rightarrow> int \<Rightarrow> string \<Rightarrow> int \<Rightarrow> 's \<Rightarrow> Entity result \<times> 's" where
  "Spawn c now kind ownerID s = (case cp_templates c kind of
     None \<Rightarrow> (Inl (Formatted [''template: unknown kind'', kind]), s)
   | Some comps \<Rightarrow> (case er_Create (cp_entities c) now kind ownerID s of
        (Inl e, s1) \<Rightarrow> (Inl e, s1)
      | (Inr e, s1) \<Rightarrow> (case spawn_components c kind comps (en_ID e) s1 of
           (Inl x, s2) \<Rightarrow> (Inl x, s2)
         | (Inr _, s2) \<Rightarrow> (Inr e, s2))))"

text \<open>
  A spawn that fails in the middle leaves the entity behind, with the components set up so far:
  the caller gets no id to remove it with.
\<close>

lemma Spawn_orphan:
  "cp_templates c kind = Some [(name, raw)] \<Longrightarrow> cp_inits c name = None
    \<Longrightarrow> er_Create (cp_entities c) now kind ownerID s = (Inr e, s1)
    \<Longrightarrow> \<exists>x. Spawn c now kind ownerID s = (Inl x, s1)"
  by (simp add: Spawn_def)

text \<open>
  What a composer's initializers promise: an initializer sets the component of its entity and
  nothing else. The locale counts a component by whether the entity has it.
\<close>

locale composer = entity_repo "cp_entities c" abs inv
  for c :: "'s Composer" and abs inv + fixes comp :: "string \<Rightarrow> 's \<Rightarrow> int set"
  assumes init_ok: "inv s \<Longrightarrow> cp_inits c name = Some ini \<Longrightarrow> ini i raw s = (Inr u, s') \<Longrightarrow>
        inv s' \<and> abs s' = abs s \<and> comp name s' = insert i (comp name s) \<and> (\<forall>m. m \<noteq> name \<longrightarrow> comp m s' = comp m s)"
    and init_err: "inv s \<Longrightarrow> cp_inits c name = Some ini \<Longrightarrow> ini i raw s = (Inl x, s') \<Longrightarrow> inv s' \<and> abs s' = abs s"
    and create_comp: "inv s \<Longrightarrow> er_Create (cp_entities c) now kind owner s = (r, s') \<Longrightarrow> comp m s' = comp m s"
begin

lemma spawn_components_ok:
  assumes "inv s" and "spawn_components c kind comps i s = (Inr u, s')"
  shows "inv s' \<and> abs s' = abs s \<and> (\<forall>m. comp m s' = (if m \<in> set (keys comps) then insert i (comp m s) else comp m s))"
  using assms
proof (induction comps arbitrary: s)
  case Nil
  then show ?case by simp
next
  case (Cons nr rest)
  obtain name raw where nr: "nr = (name, raw)" by fastforce
  obtain ini where ini: "cp_inits c name = Some ini" using Cons.prems(2) nr by (auto split: option.splits)
  then obtain v s1 where v: "ini i raw s = (Inr v, s1)" and rest: "spawn_components c kind rest i s1 = (Inr u, s')"
    using Cons.prems(2) nr by (auto split: prod.splits sum.splits)
  note h = init_ok [OF Cons.prems(1) ini v]
  have "inv s1" using h by blast
  from Cons.IH [OF this rest] h nr show ?case by auto
qed

text \<open>A successful spawn adds one entity of the kind, with exactly the template's components.\<close>

lemma Spawn_ok:
  assumes "inv s" and "Spawn c now kind owner s = (Inr e, s')"
  shows "inv s' \<and> abs s (en_ID e) = None \<and> abs s' = (abs s)(en_ID e \<mapsto> e) \<and> en_Kind e = kind \<and> en_OwnerID e = owner
     \<and> (\<exists>comps. cp_templates c kind = Some comps
          \<and> (\<forall>m. comp m s' = (if m \<in> set (keys comps) then insert (en_ID e) (comp m s) else comp m s)))"
proof -
  obtain comps s1 where c: "cp_templates c kind = Some comps" and cr: "er_Create (cp_entities c) now kind owner s = (Inr e, s1)"
    and sp: "spawn_components c kind comps (en_ID e) s1 = (Inr (), s')"
    using assms(2) by (auto simp: Spawn_def split: option.splits prod.splits sum.splits)
  note h = create_ok [OF assms(1) cr]
  have "inv s1" using h by blast
  from spawn_components_ok [OF this sp] h c create_comp [OF assms(1) cr] show ?thesis by auto
qed

end

end
