(* ===== verification/Scheduler.thy ===== *)
theory Scheduler
  imports World
begin

section \<open>Tick systems: gamekit/system\<close>

text \<open>
  The scheduler drives a tick system over every entity with its components and hands it the real
  time since it last ran for that entity. Times and durations are nanoseconds; a clock reading is a
  parameter of the call that makes it.
\<close>

subsection \<open>system.go and pg.go: when a system last ran\<close>

record 's LastRunStore =
  lr_Get :: "string \<Rightarrow> int \<Rightarrow> 's \<Rightarrow> int option result \<times> 's"
  lr_Set :: "string \<Rightarrow> int \<Rightarrow> int \<Rightarrow> 's \<Rightarrow> unit result \<times> 's"

type_synonym runs = "string \<times> int \<rightharpoonup> int"

definition memLastRun_Get :: "string \<Rightarrow> int \<Rightarrow> runs \<Rightarrow> int option result \<times> runs" where
  "memLastRun_Get system entityID m = (Inr (m (system, entityID)), m)"

definition memLastRun_Set :: "string \<Rightarrow> int \<Rightarrow> int \<Rightarrow> runs \<Rightarrow> unit result \<times> runs" where
  "memLastRun_Set system entityID ran_at m = (Inr (), m((system, entityID) \<mapsto> ran_at))"

definition NewMemLastRun :: "runs LastRunStore" where
  "NewMemLastRun = \<lparr>lr_Get = memLastRun_Get, lr_Set = memLastRun_Set\<rparr>"

text \<open>The table, with (system, entity) its primary key.\<close>

definition pgLastRun_Get :: "string \<Rightarrow> int \<Rightarrow> runs DB \<Rightarrow> int option result \<times> runs DB" where
  "pgLastRun_Get system entityID d =
     (case db_stmt (\<lambda>m. case m (system, entityID) of None \<Rightarrow> Inl ErrNoRows | Some t \<Rightarrow> Inr (t, m)) d of
       (Inl e, d') \<Rightarrow> if e = ErrNoRows then (Inr None, d') else (Inl e, d')
     | (Inr t, d') \<Rightarrow> (Inr (Some t), d'))"

definition pgLastRun_Set :: "string \<Rightarrow> int \<Rightarrow> int \<Rightarrow> runs DB \<Rightarrow> unit result \<times> runs DB" where
  "pgLastRun_Set system entityID ran_at = db_stmt (\<lambda>m. Inr ((), m((system, entityID) \<mapsto> ran_at)))"

definition NewPgLastRun :: "runs DB LastRunStore" where
  "NewPgLastRun = \<lparr>lr_Get = pgLastRun_Get, lr_Set = pgLastRun_Set\<rparr>"

definition lastrun_on :: "('s \<Rightarrow> 'a) \<Rightarrow> ('a \<Rightarrow> 's \<Rightarrow> 's) \<Rightarrow> 'a LastRunStore \<Rightarrow> 's LastRunStore" where
  "lastrun_on get put L = \<lparr>lr_Get = (\<lambda>n i. on_part get put (lr_Get L n i)),
     lr_Set = (\<lambda>n i t. on_part get put (lr_Set L n i t))\<rparr>"

subsection \<open>scheduler.go\<close>

record 's TickSystem =
  ts_Name :: string
  ts_Interval :: int
  ts_Query :: "string list"
  ts_Tick :: "int \<Rightarrow> int \<Rightarrow> 's \<Rightarrow> unit result \<times> 's"

text \<open>\<open>now\<close> is the reading of the scheduler's clock; the interval is what the first run is given.\<close>

definition tickEntity :: "'s LastRunStore \<Rightarrow> 's TickSystem \<Rightarrow> int \<Rightarrow> int \<Rightarrow> 's \<Rightarrow> unit result \<times> 's" where
  "tickEntity L ts now entityID s = (case lr_Get L (ts_Name ts) entityID s of
     (Inl e, s1) \<Rightarrow> (Inl e, s1)
   | (Inr last_run, s1) \<Rightarrow>
       (let elapsed = (case last_run of None \<Rightarrow> ts_Interval ts | Some l \<Rightarrow> time_Sub now l) in
        case ts_Tick ts entityID elapsed s1 of
          (Inl e, s2) \<Rightarrow> (Inl e, s2)
        | (Inr _, s2) \<Rightarrow> lr_Set L (ts_Name ts) entityID now s2))"

definition Catchup :: "'s LastRunStore \<Rightarrow> 's TickSystem \<Rightarrow> int \<Rightarrow> int \<Rightarrow> 's \<Rightarrow> unit result \<times> 's" where
  "Catchup L ts now entityID s = tickEntity L ts now entityID s"

text \<open>The loop of \<open>TickAll\<close>; the clock is read anew for every entity.\<close>

fun tick_ids :: "'s LastRunStore \<Rightarrow> 's TickSystem \<Rightarrow> (nat \<Rightarrow> int) \<Rightarrow> int list \<Rightarrow> 's \<Rightarrow> unit result \<times> 's" where
  "tick_ids L ts clk [] s = (Inr (), s)"
| "tick_ids L ts clk (i # is) s = (case tickEntity L ts (clk 0) i s of
     (Inl e, s') \<Rightarrow> (Inl e, s')
   | (Inr _, s') \<Rightarrow> tick_ids L ts (\<lambda>n. clk (Suc n)) is s')"

definition TickAll :: "'s World \<Rightarrow> 's LastRunStore \<Rightarrow> 's TickSystem \<Rightarrow> (nat \<Rightarrow> int) \<Rightarrow> 's \<Rightarrow> unit result \<times> 's" where
  "TickAll w L ts clk s = (case world_Query w (ts_Query ts) s of
     (Inl e, s') \<Rightarrow> (Inl e, s')
   | (Inr ids, s') \<Rightarrow> tick_ids L ts clk ids s')"

text \<open>A system without a positive interval has no ticker.\<close>

definition runTicker :: "'s World \<Rightarrow> 's LastRunStore \<Rightarrow> 's TickSystem \<Rightarrow> (nat \<Rightarrow> int) \<Rightarrow> 's \<Rightarrow> 's" where
  "runTicker w L ts clk s = (if ts_Interval ts \<le> 0 then s else snd (TickAll w L ts clk s))"

subsection \<open>The contract of a last-run store\<close>

locale last_run =
  fixes L :: "'s LastRunStore" and abs :: "'s \<Rightarrow> runs"
  assumes run_get: "lr_Get L n i s = (g, s') \<Longrightarrow> abs s' = abs s \<and> (\<forall>x. g = Inr x \<longrightarrow> x = abs s (n, i))"
    and run_set: "lr_Set L n i t s = (r, s') \<Longrightarrow>
        abs s' = (if is_ok r then (abs s)((n, i) \<mapsto> t) else abs s)"
begin

text \<open>How one call ends.\<close>

lemma tickEntity_cases [consumes 1]:
  assumes "tickEntity L ts now i s = (r, s')"
  obtains (unread) e where "r = Inl e" "lr_Get L (ts_Name ts) i s = (Inl e, s')" "abs s' = abs s"
  | (failed) e s1 x where "r = Inl e" "abs s1 = abs s" "lr_Get L (ts_Name ts) i s = (Inr x, s1)"
      "ts_Tick ts i (case abs s (ts_Name ts, i) of None \<Rightarrow> ts_Interval ts | Some l \<Rightarrow> time_Sub now l) s1 = (Inl e, s')"
  | (ran) s1 s2 x where "abs s1 = abs s" "lr_Get L (ts_Name ts) i s = (Inr x, s1)"
      "ts_Tick ts i (case abs s (ts_Name ts, i) of None \<Rightarrow> ts_Interval ts | Some l \<Rightarrow> time_Sub now l) s1 = (Inr (), s2)"
      "lr_Set L (ts_Name ts) i now s2 = (r, s')"
proof -
  obtain g s1 where g: "lr_Get L (ts_Name ts) i s = (g, s1)" by fastforce
  note h = run_get [OF g]
  show thesis
  proof (cases g)
    case (Inl e)
    show thesis by (rule unread [of e]) (use assms g h Inl in \<open>auto simp: tickEntity_def\<close>)
  next
    case (Inr x)
    then have x: "x = abs s (ts_Name ts, i)" using h by blast
    have s1: "abs s1 = abs s" using h by blast
    let ?el = "case abs s (ts_Name ts, i) of None \<Rightarrow> ts_Interval ts | Some l \<Rightarrow> time_Sub now l"
    obtain q s2 where q: "ts_Tick ts i ?el s1 = (q, s2)" by fastforce
    have t: "tickEntity L ts now i s = (case q of Inl e \<Rightarrow> (Inl e, s2) | Inr _ \<Rightarrow> lr_Set L (ts_Name ts) i now s2)"
      unfolding tickEntity_def Let_def g Inr x by (simp only: prod.case sum.case q)
    have g': "lr_Get L (ts_Name ts) i s = (Inr x, s1)" using g Inr by simp
    show thesis
    proof (cases q)
      case (Inl e)
      then show thesis using failed [OF _ s1 g', of e] q t assms by simp
    next
      case (Inr u)
      then show thesis using ran [OF s1 g', of s2] q t assms by simp
    qed
  qed
qed

end

text \<open>A store whose writes never fail, as the in-memory one.\<close>

definition set_total :: "'s LastRunStore \<Rightarrow> bool" where
  "set_total L \<longleftrightarrow> (\<forall>n i t s. is_ok (fst (lr_Set L n i t s)))"

text \<open>Any number of calls, by the ticker, a login or a request, whatever each returns.\<close>

definition tick_session :: "'s LastRunStore \<Rightarrow> 's TickSystem \<Rightarrow> (int \<times> int) list \<Rightarrow> 's \<Rightarrow> 's" where
  "tick_session L ts calls s = foldl (\<lambda>s (now, i). snd (tickEntity L ts now i s)) s calls"

text \<open>
  A system whose work can be counted: \<open>acc i s\<close> is what entity \<open>i\<close> has been credited. A tick that
  succeeds adds the elapsed time, one that fails adds nothing, and neither touches the last-run
  times; reading and writing those touches no credit.
\<close>

definition counted :: "'s LastRunStore \<Rightarrow> ('s \<Rightarrow> runs) \<Rightarrow> 's TickSystem \<Rightarrow> (int \<Rightarrow> 's \<Rightarrow> int) \<Rightarrow> bool" where
  "counted L runs_of ts acc \<longleftrightarrow>
     (\<forall>i el s q s' j. ts_Tick ts i el s = (q, s') \<longrightarrow>
        runs_of s' = runs_of s \<and> acc j s' = acc j s + (if is_ok q \<and> j = i then el else 0))
   \<and> (\<forall>n i s g s' j. lr_Get L n i s = (g, s') \<longrightarrow> acc j s' = acc j s)
   \<and> (\<forall>n i t s r s' j. lr_Set L n i t s = (r, s') \<longrightarrow> acc j s' = acc j s)"

context last_run
begin

text \<open>One call: the credit grows by the time the clock moved on, or by more when the last-run time
  could not be stored after the work was done.\<close>

lemma tickEntity_acc:
  assumes cnt: "counted L abs ts acc" and run: "tickEntity L ts now i s = (r, s')"
    and l: "abs s (ts_Name ts, j) = Some l" and rng: "in64 (now - l)" "now \<ge> l"
  shows "\<exists>l'. abs s' (ts_Name ts, j) = Some l' \<and> l' \<in> {l, now} \<and> acc j s' \<ge> acc j s + (l' - l)
     \<and> (set_total L \<longrightarrow> acc j s' = acc j s + (l' - l))"
proof -
  have tick_acc: "abs s' = abs s \<and> acc j s' = acc j s + (if is_ok q \<and> j = i then el else 0)"
    if "ts_Tick ts i el s = (q, s')" for i el s q s' j using cnt that unfolding counted_def by blast
  have get_acc: "acc j s' = acc j s" if "lr_Get L n i s = (g, s')" for n i s g s' j
    using cnt that unfolding counted_def by blast
  have set_acc: "acc j s' = acc j s" if "lr_Set L n i t s = (r, s')" for n i t s r s' j
    using cnt that unfolding counted_def by blast
  show ?thesis
  using run
proof (cases rule: tickEntity_cases)
  case (unread e)
  then show ?thesis using l get_acc [OF unread(2)] by auto
next
  case (failed e s1 x)
  then show ?thesis using l get_acc [OF failed(3)] tick_acc [OF failed(4)] by auto
next
  case (ran s1 s2 x)
  have a: "abs s2 = abs s1" "acc j s2 = acc j s1 + (if j = i then
        (case abs s (ts_Name ts, i) of None \<Rightarrow> ts_Interval ts | Some l \<Rightarrow> time_Sub now l) else 0)"
    "acc j s' = acc j s2" "acc j s1 = acc j s"
    "abs s' = (if is_ok r then (abs s2)((ts_Name ts, i) \<mapsto> now) else abs s2)"
    using tick_acc [OF ran(3), of j] set_acc [OF ran(4)] get_acc [OF ran(2)] run_set [OF ran(4)] by simp_all
  have ok: "set_total L \<Longrightarrow> is_ok r" using ran(4) unfolding set_total_def by (metis fst_conv)
  show ?thesis
  proof (cases "j = i")
    case True
    have e: "acc j s' = acc j s + (now - l)" using a l True rng by (simp add: time_Sub_exact)
    show ?thesis using a e True ok l ran(1) rng by (cases "is_ok r") auto
  next
    case False
    then show ?thesis using a l ran(1) by auto
  qed
qed
qed

lemma tick_session_acc:
  assumes cnt: "counted L abs ts acc" and "abs s (ts_Name ts, j) = Some l" and "sorted (map fst calls)"
    and "\<And>now i. (now, i) \<in> set calls \<Longrightarrow> l \<le> now \<and> now - l < 2 ^ 63"
  shows "\<exists>l'. abs (tick_session L ts calls s) (ts_Name ts, j) = Some l' \<and> l \<le> l'
     \<and> acc j (tick_session L ts calls s) \<ge> acc j s + (l' - l)
     \<and> (set_total L \<longrightarrow> acc j (tick_session L ts calls s) = acc j s + (l' - l))"
  using assms(2-)
proof (induction calls arbitrary: s l)
  case Nil
  then show ?case by (auto simp: tick_session_def)
next
  case (Cons c calls)
  obtain now i where c: "c = (now, i)" by fastforce
  obtain r s1 where r: "tickEntity L ts now i s = (r, s1)" by fastforce
  have n: "l \<le> now" "now - l < 2 ^ 63" using Cons.prems(3) [of now i] c by auto
  then have "in64 (now - l)" by (simp add: in64_def)
  from tickEntity_acc [OF cnt r Cons.prems(1) this n(1)] obtain l1 where l1:
    "abs s1 (ts_Name ts, j) = Some l1" "l1 \<in> {l, now}" "acc j s1 \<ge> acc j s + (l1 - l)"
    "set_total L \<longrightarrow> acc j s1 = acc j s + (l1 - l)" by blast
  have "l \<le> l1" using l1(2) n by auto
  have b: "l1 \<le> t \<and> t - l1 < 2 ^ 63" if "(t, k) \<in> set calls" for t k
  proof -
    have "now \<le> t" using Cons.prems(2) c that by auto
    moreover have "l \<le> t \<and> t - l < 2 ^ 63" using Cons.prems(3) [of t k] that by auto
    ultimately show ?thesis using l1(2) n(1) by auto
  qed
  have "sorted (map fst calls)" using Cons.prems(2) by simp
  from Cons.IH [OF l1(1) this] b obtain l' where l': "abs (tick_session L ts calls s1) (ts_Name ts, j) = Some l'" "l1 \<le> l'"
     "acc j (tick_session L ts calls s1) \<ge> acc j s1 + (l' - l1)"
     "set_total L \<longrightarrow> acc j (tick_session L ts calls s1) = acc j s1 + (l' - l1)" by blast
  have t: "tick_session L ts (c # calls) s = tick_session L ts calls s1" using c r by (simp add: tick_session_def)
  show ?case unfolding t
    by (rule exI [of _ l']) (use l1 l' \<open>l \<le> l1\<close> in \<open>auto\<close>)
qed

end

subsection \<open>Both stores\<close>

interpretation memLastRun: last_run NewMemLastRun "\<lambda>m. m"
  by unfold_locales (auto simp: NewMemLastRun_def memLastRun_Get_def memLastRun_Set_def)

lemma pgLastRun_Get_cases:
  assumes "pgLastRun_Get n i d = (r, d')"
  shows "db_tables d' = db_tables d \<and> (\<forall>x. r = Inr x \<longrightarrow> x = db_tables d (n, i))"
proof -
  let ?st = "\<lambda>m. case m (n, i) of None \<Rightarrow> Inl ErrNoRows | Some t \<Rightarrow> Inr (t, m)"
  obtain q d1 where q: "db_stmt ?st d = (q, d1)" by fastforce
  show ?thesis
  proof (cases q)
    case (Inl e)
    have "(\<exists>n. e = IOErr n) \<or> ?st (db_tables d) = Inl e" using db_stmt_Inl_cases [of ?st d e d1] q Inl by simp
    then show ?thesis using assms q Inl db_stmt_Inl [of ?st d e d1]
      by (auto simp: pgLastRun_Get_def split: if_splits option.splits)
  next
    case (Inr t)
    have "?st (db_tables d) = Inr (t, db_tables d1)" using db_stmt_Inr [of ?st d t d1] q Inr by simp
    then show ?thesis using assms q Inr by (auto simp: pgLastRun_Get_def split: option.splits)
  qed
qed

lemma pgLastRun_Set_cases:
  assumes "pgLastRun_Set n i t d = (r, d')"
  shows "db_tables d' = (if is_ok r then (db_tables d)((n, i) \<mapsto> t) else db_tables d)"
  using assms unfolding pgLastRun_Set_def
  by (cases r) (auto dest: db_stmt_Inl db_stmt_upd)

interpretation pgLastRun: last_run NewPgLastRun db_tables
proof (unfold_locales, goal_cases)
  case (1 n i s g s')
  then show ?case using pgLastRun_Get_cases [of n i s g s'] by (simp add: NewPgLastRun_def)
next
  case (2 n i t s r s')
  then show ?case using pgLastRun_Set_cases [of n i t s r s'] by (simp add: NewPgLastRun_def)
qed

text \<open>The last-run times beside the rest of the game's state, in memory.\<close>

definition lastrun_beside :: "(runs \<times> 'g) LastRunStore" where
  "lastrun_beside = \<lparr>lr_Get = (\<lambda>n i (m, g). case lr_Get NewMemLastRun n i m of (r, m') \<Rightarrow> (r, (m', g))),
     lr_Set = (\<lambda>n i t (m, g). case lr_Set NewMemLastRun n i t m of (r, m') \<Rightarrow> (r, (m', g)))\<rparr>"

interpretation beside: last_run "lastrun_beside :: (runs \<times> 'g) LastRunStore" fst
  by unfold_locales
     (auto simp: lastrun_beside_def NewMemLastRun_def memLastRun_Get_def memLastRun_Set_def split: prod.splits)

lemma lastrun_beside_snd:
  "lr_Get lastrun_beside n i s = (r, s') \<Longrightarrow> snd s' = snd s"
  "lr_Set lastrun_beside n i t s = (q, s') \<Longrightarrow> snd s' = snd s"
  by (auto simp: lastrun_beside_def split: prod.splits)

lemma lastrun_beside_total: "set_total lastrun_beside"
  by (auto simp: set_total_def lastrun_beside_def NewMemLastRun_def memLastRun_Set_def split: prod.splits)


text \<open>A system that counts the nanoseconds each entity was given, failing for entity 13.\<close>

definition demo_ticks :: "(runs \<times> (int \<Rightarrow> int)) TickSystem" where
  "demo_ticks = \<lparr>ts_Name = ''demo'', ts_Interval = 1000, ts_Query = [''demo''],
     ts_Tick = (\<lambda>i el (m, g). if i = 13 then (Inl (IOErr 1), (m, g)) else (Inr (), (m, g(i := g i + el))))\<rparr>"


end
