(* ===== verification/Idle.thy ===== *)
theory Idle
  imports Scheduler Hooks Float64 Inventory_Kit
begin

section \<open>Idle accrual: sdk/engine/idle and gamekit/idle\<close>

text \<open>
  The framework turns elapsed time into output by registered producers; the engine of gamekit
  resolves an entity's assigned activity, builds its state, produces, filters and applies. Its
  world is a state \<open>'s\<close>; the state builder and the applier are the game's, so they are arguments.
  A filter of \<open>HookState\<close> may read the database, so its payload is the event together with the
  state.
\<close>

subsection \<open>sdk/engine/idle\<close>

type_synonym State = "(string, f64) gomap"

definition State_Get :: "State \<Rightarrow> string \<Rightarrow> f64" where
  "State_Get s name = gm_get (Fin 0) s name"

text \<open>A nil ledger and an empty one read alike, so both are \<open>[]\<close>; the list is the order in
  which the ledger is iterated over.\<close>

record Output =
  ou_Amounts :: "(string \<times> int) list"
  ou_Drops :: "(string \<times> int) list"

definition zero_Output :: Output where
  "zero_Output = \<lparr>ou_Amounts = [], ou_Drops = []\<rparr>"

definition amount_of :: "Output \<Rightarrow> string \<Rightarrow> int" where
  "amount_of out name = (case map_of (ou_Amounts out) name of None \<Rightarrow> 0 | Some n \<Rightarrow> n)"

definition Output_Add :: "string \<Rightarrow> int \<Rightarrow> Output \<Rightarrow> Output" where
  "Output_Add name n out =
     (if n = 0 then out else out\<lparr>ou_Amounts := AList.update name (wrap64 (amount_of out name + n)) (ou_Amounts out)\<rparr>)"

definition AddDrop :: "string \<Rightarrow> int \<Rightarrow> Output \<Rightarrow> Output" where
  "AddDrop i qty out = (if qty \<le> 0 then out else out\<lparr>ou_Drops := ou_Drops out @ [(i, qty)]\<rparr>)"

text \<open>A producer; the random source is the list of numbers it will deliver, nil for none.\<close>

record Producer =
  pr_Unlocked :: "State \<Rightarrow> bool"
  pr_Produce :: "f64 \<Rightarrow> State \<Rightarrow> f64 list option \<Rightarrow> Output"

text \<open>\<open>Window\<close>: \<open>None\<close> below the minimum, else the minutes up to the cap.\<close>

definition Window :: "f64 \<Rightarrow> f64 \<Rightarrow> f64 \<Rightarrow> f64 option" where
  "Window elapsedSeconds minSeconds capSeconds =
     (if flt elapsedSeconds minSeconds then None
      else Some (fdiv (if flt (Fin 0) capSeconds \<and> flt capSeconds elapsedSeconds then capSeconds else elapsedSeconds) (Fin 60)))"

record Registry =
  ar_producers :: "string \<rightharpoonup> Producer"
  ar_order :: "string list"

definition idle_NewRegistry :: Registry where
  "idle_NewRegistry = \<lparr>ar_producers = Map.empty, ar_order = []\<rparr>"

definition idle_Register :: "string \<Rightarrow> Producer \<Rightarrow> Registry \<Rightarrow> Registry" where
  "idle_Register i p r = r\<lparr>ar_order := (if ar_producers r i = None then ar_order r @ [i] else ar_order r),
     ar_producers := (ar_producers r)(i \<mapsto> p)\<rparr>"

definition idle_Get :: "Registry \<Rightarrow> string \<Rightarrow> Producer option" where
  "idle_Get r i = ar_producers r i"

definition idle_IDs :: "Registry \<Rightarrow> string list" where
  "idle_IDs r = ar_order r"

definition registry_ok :: "Registry \<Rightarrow> bool" where
  "registry_ok r \<longleftrightarrow> distinct (ar_order r) \<and> set (ar_order r) = dom (ar_producers r)"

lemma idle_NewRegistry_ok: "registry_ok idle_NewRegistry"
  by (simp add: registry_ok_def idle_NewRegistry_def)

text \<open>Every registered activity is listed once, in the order of first registration.\<close>

lemma idle_Register_ok: "registry_ok r \<Longrightarrow> registry_ok (idle_Register i p r)"
  by (auto simp: registry_ok_def idle_Register_def)

lemma idle_Get_Register [simp]: "idle_Get (idle_Register i p r) j = (if j = i then Some p else idle_Get r j)"
  by (simp add: idle_Get_def idle_Register_def)

lemma amount_Add [simp]:
  "amount_of (Output_Add name n out) m = (if m = name \<and> n \<noteq> 0 then wrap64 (amount_of out name + n) else amount_of out m)"
  by (simp add: amount_of_def Output_Add_def)

lemma amount_zero [simp]: "amount_of zero_Output m = 0"
  by (simp add: amount_of_def zero_Output_def)

subsection \<open>Durations\<close>

subsection \<open>gamekit/idle\<close>

abbreviation AssignmentComponent :: string where "AssignmentComponent \<equiv> ''idle_assignment''"
abbreviation HookOutput :: string where "HookOutput \<equiv> ''idle.output''"
abbreviation HookState :: string where "HookState \<equiv> ''idle.state''"

record StateEvent =
  se_EntityID :: int
  se_State :: State

text \<open>An assignment is the id of an activity; \<open>eg_hooks\<close> is the registry at the two types it is
  used with.\<close>

record 's Engine =
  eg_registry :: Registry
  eg_assign :: "('s, string) Store"
  eg_stateFor :: "int \<Rightarrow> 's \<Rightarrow> State result \<times> 's"
  eg_apply :: "int \<Rightarrow> Output \<Rightarrow> 's \<Rightarrow> unit result \<times> 's"
  eg_state_hooks :: "((StateEvent \<times> 's) filter_any, unit) Hooks option"
  eg_output_hooks :: "(Output filter_any, unit) Hooks option"
  eg_rng :: "f64 list option"

definition idle_NewEngine :: "Registry \<Rightarrow> ('s, string) Store \<Rightarrow> (int \<Rightarrow> 's \<Rightarrow> State result \<times> 's) option \<Rightarrow>
    (int \<Rightarrow> Output \<Rightarrow> 's \<Rightarrow> unit result \<times> 's) option \<Rightarrow> ((StateEvent \<times> 's) filter_any, unit) Hooks option \<Rightarrow>
    (Output filter_any, unit) Hooks option \<Rightarrow> f64 list option \<Rightarrow> 's Engine" where
  "idle_NewEngine reg asg stateFor app sh oh rng = \<lparr>eg_registry = reg, eg_assign = asg,
     eg_stateFor = (case stateFor of None \<Rightarrow> (\<lambda>_ s. (Inr None, s)) | Some f \<Rightarrow> f),
     eg_apply = (case app of None \<Rightarrow> (\<lambda>_ _ s. (Inr (), s)) | Some f \<Rightarrow> f),
     eg_state_hooks = sh, eg_output_hooks = oh, eg_rng = rng\<rparr>"

definition idle_Activities :: "'s Engine \<Rightarrow> string list" where
  "idle_Activities e = idle_IDs (eg_registry e)"

definition idle_Assign :: "'s Engine \<Rightarrow> int \<Rightarrow> string \<Rightarrow> 's \<Rightarrow> unit result \<times> 's" where
  "idle_Assign e entityID activityID s = (case idle_Get (eg_registry e) activityID of
     None \<Rightarrow> (Inl (Formatted [''idle: unknown activity'', activityID]), s)
   | Some _ \<Rightarrow> st_Set (eg_assign e) s entityID activityID)"

text \<open>The active activity, none when unassigned or empty.\<close>

definition idle_Current :: "'s Engine \<Rightarrow> int \<Rightarrow> 's \<Rightarrow> string option result \<times> 's" where
  "idle_Current e entityID s = (case st_Get (eg_assign e) s entityID of
     (Inl x, s') \<Rightarrow> (Inl x, s')
   | (Inr None, s') \<Rightarrow> (Inr None, s')
   | (Inr (Some a), s') \<Rightarrow> (Inr (if a = [] then None else Some a), s'))"

text \<open>\<open>Accrue\<close>: the applied output, or \<open>None\<close> when nothing ran.\<close>

definition Accrue :: "'s Engine \<Rightarrow> int \<Rightarrow> f64 \<Rightarrow> 's \<Rightarrow> Output option result \<times> 's" where
  "Accrue e entityID elapsedMin s = (case idle_Current e entityID s of
     (Inl x, s1) \<Rightarrow> (Inl x, s1)
   | (Inr None, s1) \<Rightarrow> (Inr None, s1)
   | (Inr (Some act), s1) \<Rightarrow> (case idle_Get (eg_registry e) act of
        None \<Rightarrow> (Inr None, s1)
      | Some p \<Rightarrow> (case eg_stateFor e entityID s1 of
           (Inl x, s2) \<Rightarrow> (Inl x, s2)
         | (Inr st, s2) \<Rightarrow>
             (case ApplyFilters (eg_state_hooks e) HookState (\<lparr>se_EntityID = entityID, se_State = st\<rparr>, s2) of (ev, s3) \<Rightarrow>
              if \<not> pr_Unlocked p (se_State ev) then (Inr None, s3)
              else let out = ApplyFilters (eg_output_hooks e) HookOutput (pr_Produce p elapsedMin (se_State ev) (eg_rng e)) in
                   case eg_apply e entityID out s3 of
                     (Inl x, s4) \<Rightarrow> (Inl x, s4)
                   | (Inr _, s4) \<Rightarrow> (Inr (Some out), s4)))))"

text \<open>The tick system: \<open>NewSystem(engine, every, minSeconds, capSeconds)\<close>.\<close>

definition idle_Tick :: "'s Engine \<Rightarrow> f64 \<Rightarrow> f64 \<Rightarrow> int \<Rightarrow> int \<Rightarrow> 's \<Rightarrow> unit result \<times> 's" where
  "idle_Tick e minSec capSec entityID elapsed s = (case Window (Seconds elapsed) minSec capSec of
     None \<Rightarrow> (Inr (), s)
   | Some m \<Rightarrow> (case Accrue e entityID m s of (Inl x, s') \<Rightarrow> (Inl x, s') | (Inr _, s') \<Rightarrow> (Inr (), s')))"

definition NewSystem :: "'s Engine \<Rightarrow> int \<Rightarrow> f64 \<Rightarrow> f64 \<Rightarrow> 's TickSystem" where
  "NewSystem e every minSec capSec = \<lparr>ts_Name = ''idle'', ts_Interval = every, ts_Query = [AssignmentComponent],
     ts_Tick = idle_Tick e minSec capSec\<rparr>"

text \<open>\<open>DefaultApplier\<close> over the toolkit services, each of which may be nil.\<close>

fun apply_amounts :: "(int \<Rightarrow> string \<Rightarrow> int \<Rightarrow> 's \<Rightarrow> unit result \<times> 's) option \<Rightarrow> (int \<Rightarrow> int \<Rightarrow> 's \<Rightarrow> unit result \<times> 's) option \<Rightarrow>
    string \<Rightarrow> int \<Rightarrow> (string \<times> int) list \<Rightarrow> 's \<Rightarrow> unit result \<times> 's" where
  "apply_amounts earn grant expKey i [] s = (Inr (), s)"
| "apply_amounts earn grant expKey i ((name, amount) # rest) s =
     (if amount = 0 then apply_amounts earn grant expKey i rest s
      else case (if name = expKey then (case grant of None \<Rightarrow> (Inr (), s) | Some g \<Rightarrow> g i amount s)
                 else (case earn of None \<Rightarrow> (Inr (), s) | Some f \<Rightarrow> f i name amount s)) of
        (Inl x, s') \<Rightarrow> (Inl x, s')
      | (Inr _, s') \<Rightarrow> apply_amounts earn grant expKey i rest s')"

fun apply_drops :: "(int \<Rightarrow> Item \<Rightarrow> 's \<Rightarrow> unit result \<times> 's) \<Rightarrow> int \<Rightarrow> (string \<times> int) list \<Rightarrow> 's \<Rightarrow> unit result \<times> 's" where
  "apply_drops add i [] s = (Inr (), s)"
| "apply_drops add i ((item, qty) # rest) s = (case add i \<lparr>it_ItemID = item, it_Quantity = wrap32 qty\<rparr> s of
     (Inl x, s') \<Rightarrow> (Inl x, s')
   | (Inr _, s') \<Rightarrow> apply_drops add i rest s')"

definition DefaultApplier :: "(int \<Rightarrow> string \<Rightarrow> int \<Rightarrow> 's \<Rightarrow> unit result \<times> 's) option \<Rightarrow> (int \<Rightarrow> int \<Rightarrow> 's \<Rightarrow> unit result \<times> 's) option \<Rightarrow>
    (int \<Rightarrow> Item \<Rightarrow> 's \<Rightarrow> unit result \<times> 's) option \<Rightarrow> string \<Rightarrow> int \<Rightarrow> Output \<Rightarrow> 's \<Rightarrow> unit result \<times> 's" where
  "DefaultApplier earn grant inven expKey i out s = (case apply_amounts earn grant expKey i (ou_Amounts out) s of
     (Inl x, s') \<Rightarrow> (Inl x, s')
   | (Inr _, s') \<Rightarrow> (case inven of None \<Rightarrow> (Inr (), s') | Some add \<Rightarrow> apply_drops add i (ou_Drops out) s'))"

subsection \<open>The window\<close>

text \<open>Division by sixty and rounding keep the order.\<close>

lemma fle_ends: "fle NegInf x \<longleftrightarrow> x \<noteq> NaN" "fle x PosInf \<longleftrightarrow> x \<noteq> NaN"
  by (cases x; simp)+

lemma fdiv_60_mono: "fle a b \<Longrightarrow> fle (fdiv a (Fin 60)) (fdiv b (Fin 60))"
  by (cases a; cases b) (auto intro!: rnd_mono simp: divide_right_mono fle_ends)

text \<open>A window lies between its bounds: nothing below the minimum, never more than the cap.\<close>

lemma Window_bounds:
  assumes "Window el mn cap = Some m" and "el \<noteq> NaN" "mn \<noteq> NaN" "flt (Fin 0) cap"
  shows "fle m (fdiv cap (Fin 60)) \<and> (fle mn cap \<longrightarrow> fle (fdiv mn (Fin 60)) m) \<and> fle mn el"
proof -
  have cap: "cap \<noteq> NaN" using assms(4) by (cases cap) auto
  have el: "\<not> flt el mn" and m: "m = fdiv (if flt cap el then cap else el) (Fin 60)"
    using assms(1,4) by (auto simp: Window_def split: if_splits)
  have le: "fle mn el" using el fle_not_flt [of mn el] assms by simp
  show ?thesis
  proof (cases "flt cap el")
    case True
    then show ?thesis using m le fdiv_60_mono [of mn cap] fdiv_60_mono [of cap cap] cap by (simp add: fle_refl)
  next
    case False
    then have "fle el cap" using fle_not_flt [of el cap] assms cap by simp
    then show ?thesis using m le False fdiv_60_mono [of mn el] fdiv_60_mono [of el cap] by simp
  qed
qed

text \<open>A window below the minimum credits nothing, and the scheduler moves the mark all the same.\<close>

lemma small_window_lost:
  assumes "lr_Get L ''idle'' i s = (Inr (Some l), s1)" and "flt (Seconds (time_Sub now l)) mn"
  shows "tickEntity L (NewSystem e every mn cap) now i s = lr_Set L ''idle'' i now s1"
  using assms by (simp add: tickEntity_def NewSystem_def idle_Tick_def Window_def)

end
