(* ===== verification/Kit_Tables.thy ===== *)
theory Kit_Tables
  imports Idle Economy Loot "HOL-Library.Char_ord" "HOL-Library.List_Lexorder"
begin

section \<open>The tables of the toolkit beside the game's: gamekit/kit\<close>

text \<open>
  \<open>kit.New\<close> assembles the entity repository, the component stores, the wallet service, the world
  and the scheduler over one database, the one that also holds the game's tables. This theory has
  those tables, the JSON form of the components with map fields, and the interpretations of the
  store contracts on them; the idle plugin, crafting and the buildings work on the result.
\<close>

subsection \<open>Maps in JSON\<close>

text \<open>\<open>json.Marshal\<close> writes the entries of a map in key order; a nil map is null.\<close>

definition marshal_intmap :: "(string, int) gomap \<Rightarrow> json" where
  "marshal_intmap m = (case m of None \<Rightarrow> JNull
     | Some f \<Rightarrow> JObj (map (\<lambda>k. (k, JNum (of_int (case f k of None \<Rightarrow> 0 | Some n \<Rightarrow> n)))) (sorted_list_of_set (dom f))))"

fun unmarshal_entries :: "(int \<Rightarrow> bool) \<Rightarrow> (string \<times> json) list \<Rightarrow> (string \<rightharpoonup> int) \<Rightarrow> (string \<rightharpoonup> int) result" where
  "unmarshal_entries rng [] f = Inr f"
| "unmarshal_entries rng ((k, j) # rest) f = (case json_int rng j of
     Inl e \<Rightarrow> Inl e
   | Inr n \<Rightarrow> unmarshal_entries rng rest (f(k \<mapsto> n)))"

definition unmarshal_intmap :: "(int \<Rightarrow> bool) \<Rightarrow> json \<Rightarrow> (string, int) gomap result" where
  "unmarshal_intmap rng j = (case j of
     JNull \<Rightarrow> Inr None
   | JObj fs \<Rightarrow> map_sum (\<lambda>e. e) Some (unmarshal_entries rng fs Map.empty)
   | _ \<Rightarrow> Inl json_err)"

lemma unmarshal_marshal_entries:
  assumes "distinct ks" and "\<And>k. k \<in> set ks \<Longrightarrow> \<exists>n. f k = Some n \<and> rng n"
  shows "unmarshal_entries rng (map (\<lambda>k. (k, JNum (of_int (case f k of None \<Rightarrow> 0 | Some n \<Rightarrow> n)))) ks) g
       = Inr (g ++ (f |` set ks))"
  using assms
proof (induction ks arbitrary: g)
  case Nil
  then show ?case by simp
next
  case (Cons k ks)
  obtain n where n: "f k = Some n" "rng n" using Cons.prems(2) by auto
  have "unmarshal_entries rng (map (\<lambda>k. (k, JNum (of_int (case f k of None \<Rightarrow> 0 | Some n \<Rightarrow> n)))) ks) (g(k \<mapsto> n))
      = Inr (g(k \<mapsto> n) ++ (f |` set ks))"
    by (rule Cons.IH) (use Cons.prems in auto)
  moreover have "g(k \<mapsto> n) ++ (f |` set ks) = g ++ (f |` set (k # ks))"
    using n Cons.prems(1) by (auto simp: fun_eq_iff map_add_def restrict_map_def split: option.splits)
  ultimately show ?case using n by simp
qed

text \<open>A map with finitely many entries, each in range, as every Go map is.\<close>

definition intmap_ok :: "(int \<Rightarrow> bool) \<Rightarrow> (string, int) gomap \<Rightarrow> bool" where
  "intmap_ok rng m \<longleftrightarrow> (case m of None \<Rightarrow> True | Some f \<Rightarrow> finite (dom f) \<and> (\<forall>n \<in> ran f. rng n))"

lemma unmarshal_marshal_intmap:
  assumes "intmap_ok rng m"
  shows "unmarshal_intmap rng (marshal_intmap m) = Inr m"
proof (cases m)
  case None
  then show ?thesis by (simp add: unmarshal_intmap_def marshal_intmap_def)
next
  case (Some f)
  then have fin: "finite (dom f)" and r: "\<And>k. k \<in> dom f \<Longrightarrow> \<exists>n. f k = Some n \<and> rng n"
    using assms by (auto simp: intmap_ok_def ran_def)
  have "unmarshal_entries rng (map (\<lambda>k. (k, JNum (of_int (case f k of None \<Rightarrow> 0 | Some n \<Rightarrow> n)))) (sorted_list_of_set (dom f))) Map.empty
      = Inr (Map.empty ++ (f |` set (sorted_list_of_set (dom f))))"
    by (rule unmarshal_marshal_entries) (use fin r in auto)
  moreover have "f |` dom f = f" by (auto simp: restrict_map_def fun_eq_iff domIff)
  ultimately show ?thesis using fin Some by (simp add: unmarshal_intmap_def marshal_intmap_def)
qed

lemma intmap_ok_upd: "intmap_ok rng (Some f) \<Longrightarrow> rng n \<Longrightarrow> intmap_ok rng (Some (f(k \<mapsto> n)))"
  by (auto simp: intmap_ok_def ran_def)

lemma intmap_ok_alloc: "intmap_ok rng m \<Longrightarrow> intmap_ok rng (gm_alloc m)"
  by (cases m) (auto simp: intmap_ok_def gm_alloc_def)

lemma intmap_ok_get: "intmap_ok rng m \<Longrightarrow> rng 0 \<Longrightarrow> rng (gm_get 0 m k)"
  by (cases m) (auto simp: intmap_ok_def gm_get_def ran_def split: option.splits)

subsection \<open>The components\<close>

definition wallet_typ :: "Wallet \<Rightarrow> bool" where
  "wallet_typ w \<longleftrightarrow> intmap_ok in64 (w_Balances w)"

definition marshal_Wallet :: "Wallet \<Rightarrow> json result" where
  "marshal_Wallet w = Inr (JObj [(''balances'', marshal_intmap (w_Balances w))])"

definition unmarshal_Wallet :: "json \<Rightarrow> Wallet result" where
  "unmarshal_Wallet j = (case json_field ''balances'' j of Inl e \<Rightarrow> Inl e | Inr b \<Rightarrow>
     (case unmarshal_intmap in64 b of Inl e \<Rightarrow> Inl e | Inr m \<Rightarrow> Inr \<lparr>w_Balances = m\<rparr>))"

interpretation jwallet: json_codec marshal_Wallet unmarshal_Wallet wallet_typ
  by unfold_locales
     (auto simp: marshal_Wallet_def unmarshal_Wallet_def json_field_def wallet_typ_def unmarshal_marshal_intmap)

lemma in64_0 [simp]: "in64 0"
  by (simp add: in64_def)

interpretation jws: wallet_store "NewJSONStore marshal_Wallet unmarshal_Wallet name"
    "json_abs unmarshal_Wallet" "json_inv unmarshal_Wallet wallet_typ" wallet_typ
  by unfold_locales
     (auto simp: wallet_typ_def zero_Wallet_def intmap_ok_alloc intmap_ok_get intro: intmap_ok_upd,
      auto simp: intmap_ok_def)

text \<open>The assignment of an activity, and the levels of a character's buildings.\<close>

definition marshal_Assignment :: "string \<Rightarrow> json result" where
  "marshal_Assignment a = Inr (JObj [(''activity_id'', JStr a)])"

definition unmarshal_Assignment :: "json \<Rightarrow> string result" where
  "unmarshal_Assignment j = (case json_field ''activity_id'' j of Inl e \<Rightarrow> Inl e | Inr a \<Rightarrow> json_string a)"

interpretation jassign: json_codec marshal_Assignment unmarshal_Assignment "\<lambda>_. True"
  by unfold_locales (auto simp: marshal_Assignment_def unmarshal_Assignment_def json_field_def json_string_def)

type_synonym Levels = "(string, int) gomap"

definition marshal_Levels :: "Levels \<Rightarrow> json result" where
  "marshal_Levels m = Inr (JObj [(''levels'', marshal_intmap m)])"

definition unmarshal_Levels :: "json \<Rightarrow> Levels result" where
  "unmarshal_Levels j = (case json_field ''levels'' j of Inl e \<Rightarrow> Inl e | Inr b \<Rightarrow> unmarshal_intmap in32 b)"

interpretation jlevels: json_codec marshal_Levels unmarshal_Levels "intmap_ok in32"
  by unfold_locales (auto simp: marshal_Levels_def unmarshal_Levels_def json_field_def unmarshal_marshal_intmap)

subsection \<open>The database\<close>

record kit_tables = loot_tables +
  kt_entities :: entity_table
  kt_wallet :: "(int \<times> json) list"
  kt_assignment :: "(int \<times> json) list"
  kt_levels :: "(int \<times> json) list"
  kt_runs :: runs

text \<open>
  What the plugins over the kit share: the database, the \<open>StatsRecalculated\<close> events of the
  character service and the events of the inventory service. A component works on its table
  through the common driver.
\<close>

record kit_world =
  kw_db :: "kit_tables DB"
  kw_stats :: "stats list"
  kw_inv :: "InvEvent list"

definition kw_get :: "(kit_tables \<Rightarrow> 'a) \<Rightarrow> kit_world \<Rightarrow> 'a DB" where
  "kw_get get w = sub_table get (kw_db w)"

definition kw_put :: "('a \<Rightarrow> kit_tables \<Rightarrow> kit_tables) \<Rightarrow> 'a DB \<Rightarrow> kit_world \<Rightarrow> kit_world" where
  "kw_put put x w = w\<lparr>kw_db := put_table put x (kw_db w)\<rparr>"

definition kit_Entities :: "kit_world EntityRepo" where
  "kit_Entities = entities_on (kw_get kt_entities) (kw_put (\<lambda>x. kt_entities_update (\<lambda>_. x))) NewPgEntityRepo"

definition kit_WalletStore :: "(kit_world, Wallet) Store" where
  "kit_WalletStore = store_on (kw_get kt_wallet) (kw_put (\<lambda>x. kt_wallet_update (\<lambda>_. x)))
     (NewJSONStore marshal_Wallet unmarshal_Wallet ''wallet'')"

definition kit_AssignStore :: "(kit_world, string) Store" where
  "kit_AssignStore = store_on (kw_get kt_assignment) (kw_put (\<lambda>x. kt_assignment_update (\<lambda>_. x)))
     (NewJSONStore marshal_Assignment unmarshal_Assignment AssignmentComponent)"

definition kit_LevelsStore :: "(kit_world, Levels) Store" where
  "kit_LevelsStore = store_on (kw_get kt_levels) (kw_put (\<lambda>x. kt_levels_update (\<lambda>_. x)))
     (NewJSONStore marshal_Levels unmarshal_Levels ''buildings'')"

definition kit_LastRun :: "kit_world LastRunStore" where
  "kit_LastRun = lastrun_on (kw_get kt_runs) (kw_put (\<lambda>x. kt_runs_update (\<lambda>_. x))) NewPgLastRun"

definition kit_World :: "kit_world World" where
  "kit_World = world_Register (index_of kit_AssignStore) (world_Register (index_of kit_WalletStore) (world_New kit_Entities))"

subsection \<open>What the tables hold\<close>

definition ents :: "kit_world \<Rightarrow> int \<rightharpoonup> Entity" where
  "ents w = et_abs (kt_entities (db_tables (kw_db w)))"

definition wallets :: "kit_world \<Rightarrow> int \<rightharpoonup> Wallet" where
  "wallets w = json_abs unmarshal_Wallet (kw_get kt_wallet w)"

definition assignments :: "kit_world \<Rightarrow> int \<rightharpoonup> string" where
  "assignments w = json_abs unmarshal_Assignment (kw_get kt_assignment w)"

definition levels_of :: "kit_world \<Rightarrow> int \<rightharpoonup> Levels" where
  "levels_of w = json_abs unmarshal_Levels (kw_get kt_levels w)"

text \<open>The tables of the game itself, which no component of the kit touches.\<close>

definition game_of :: "kit_world \<Rightarrow> loot_tables" where
  "game_of w = loot_tables.truncate (db_tables (kw_db w))"

definition kit_ok :: "kit_world \<Rightarrow> bool" where
  "kit_ok w \<longleftrightarrow> et_ok (kt_entities (db_tables (kw_db w)))
     \<and> json_inv unmarshal_Wallet wallet_typ (kw_get kt_wallet w)
     \<and> json_inv unmarshal_Assignment (\<lambda>_. True) (kw_get kt_assignment w)
     \<and> json_inv unmarshal_Levels (intmap_ok in32) (kw_get kt_levels w)"

lemma kw_tables [simp]: "db_tables (kw_get g w) = g (db_tables (kw_db w))"
  by (simp add: kw_get_def sub_table_def)

lemma kw_put_tables [simp]: "db_tables (kw_db (kw_put p x w)) = p (db_tables x) (db_tables (kw_db w))"
  by (simp add: kw_put_def put_table_def)

lemma kw_put_frame [simp]: "kw_stats (kw_put p x w) = kw_stats w" "kw_inv (kw_put p x w) = kw_inv w"
  by (simp_all add: kw_put_def)

lemma kw_get_put: "(\<And>y t. g (p y t) = y) \<Longrightarrow> kw_get g (kw_put p x w) = x"
  by (simp add: kw_get_def kw_put_def sub_put_table)

text \<open>Everything a component reads is a function of its table.\<close>

lemma json_abs_kw: "g (db_tables (kw_db v)) = g (db_tables (kw_db w)) \<Longrightarrow> json_abs u (kw_get g v) = json_abs u (kw_get g w)"
  by (rule json_frame [THEN conjunct1]) simp

lemma json_inv_kw: "g (db_tables (kw_db v)) = g (db_tables (kw_db w)) \<Longrightarrow> json_inv u ok (kw_get g v) = json_inv u ok (kw_get g w)"
  by (rule json_frame [THEN conjunct2]) simp

text \<open>\<open>kept_but_*\<close>: what an operation on one table leaves alone.\<close>

definition kept_but_entities :: "kit_world \<Rightarrow> kit_world \<Rightarrow> bool" where
  "kept_but_entities w w' \<longleftrightarrow> wallets w' = wallets w \<and> assignments w' = assignments w \<and> levels_of w' = levels_of w
     \<and> game_of w' = game_of w \<and> kw_stats w' = kw_stats w \<and> kw_inv w' = kw_inv w
     \<and> (kit_ok w \<longrightarrow> et_ok (kt_entities (db_tables (kw_db w'))) \<longrightarrow> kit_ok w')"

definition kept_but_wallets :: "kit_world \<Rightarrow> kit_world \<Rightarrow> bool" where
  "kept_but_wallets w w' \<longleftrightarrow> ents w' = ents w \<and> assignments w' = assignments w \<and> levels_of w' = levels_of w
     \<and> game_of w' = game_of w \<and> kw_stats w' = kw_stats w \<and> kw_inv w' = kw_inv w
     \<and> (kit_ok w \<longrightarrow> json_inv unmarshal_Wallet wallet_typ (kw_get kt_wallet w') \<longrightarrow> kit_ok w')"

definition kept_but_levels :: "kit_world \<Rightarrow> kit_world \<Rightarrow> bool" where
  "kept_but_levels w w' \<longleftrightarrow> ents w' = ents w \<and> assignments w' = assignments w \<and> wallets w' = wallets w
     \<and> game_of w' = game_of w \<and> kw_stats w' = kw_stats w \<and> kw_inv w' = kw_inv w
     \<and> (kit_ok w \<longrightarrow> json_inv unmarshal_Levels (intmap_ok in32) (kw_get kt_levels w') \<longrightarrow> kit_ok w')"

lemmas kit_views = ents_def wallets_def assignments_def levels_of_def game_of_def loot_tables.truncate_def

lemma put_entities: "kept_but_entities w (kw_put (\<lambda>x. kt_entities_update (\<lambda>_. x)) x w)"
proof -
  let ?v = "kw_put (\<lambda>x. kt_entities_update (\<lambda>_. x)) x w"
  have wallet: "json_abs u (kw_get kt_wallet ?v) = json_abs u (kw_get kt_wallet w)" "json_inv u ok (kw_get kt_wallet ?v) = json_inv u ok (kw_get kt_wallet w)"
    for u :: "json \<Rightarrow> Wallet result" and ok by (rule json_abs_kw [where g = kt_wallet] json_inv_kw [where g = kt_wallet], simp)+
  have assignment: "json_abs u (kw_get kt_assignment ?v) = json_abs u (kw_get kt_assignment w)" "json_inv u ok (kw_get kt_assignment ?v) = json_inv u ok (kw_get kt_assignment w)"
    for u :: "json \<Rightarrow> string result" and ok by (rule json_abs_kw [where g = kt_assignment] json_inv_kw [where g = kt_assignment], simp)+
  have levels: "json_abs u (kw_get kt_levels ?v) = json_abs u (kw_get kt_levels w)" "json_inv u ok (kw_get kt_levels ?v) = json_inv u ok (kw_get kt_levels w)"
    for u :: "json \<Rightarrow> Levels result" and ok by (rule json_abs_kw [where g = kt_levels] json_inv_kw [where g = kt_levels], simp)+
  show ?thesis
    by (simp add: kept_but_entities_def kit_views kit_ok_def wallet assignment levels)
qed

lemma put_wallet: "kept_but_wallets w (kw_put (\<lambda>x. kt_wallet_update (\<lambda>_. x)) x w)"
proof -
  let ?v = "kw_put (\<lambda>x. kt_wallet_update (\<lambda>_. x)) x w"
  have assignment: "json_abs u (kw_get kt_assignment ?v) = json_abs u (kw_get kt_assignment w)" "json_inv u ok (kw_get kt_assignment ?v) = json_inv u ok (kw_get kt_assignment w)"
    for u :: "json \<Rightarrow> string result" and ok by (rule json_abs_kw [where g = kt_assignment] json_inv_kw [where g = kt_assignment], simp)+
  have levels: "json_abs u (kw_get kt_levels ?v) = json_abs u (kw_get kt_levels w)" "json_inv u ok (kw_get kt_levels ?v) = json_inv u ok (kw_get kt_levels w)"
    for u :: "json \<Rightarrow> Levels result" and ok by (rule json_abs_kw [where g = kt_levels] json_inv_kw [where g = kt_levels], simp)+
  show ?thesis
    by (simp add: kept_but_wallets_def kit_views kit_ok_def assignment levels)
qed

lemma put_levels: "kept_but_levels w (kw_put (\<lambda>x. kt_levels_update (\<lambda>_. x)) x w)"
proof -
  let ?v = "kw_put (\<lambda>x. kt_levels_update (\<lambda>_. x)) x w"
  have wallet: "json_abs u (kw_get kt_wallet ?v) = json_abs u (kw_get kt_wallet w)" "json_inv u ok (kw_get kt_wallet ?v) = json_inv u ok (kw_get kt_wallet w)"
    for u :: "json \<Rightarrow> Wallet result" and ok by (rule json_abs_kw [where g = kt_wallet] json_inv_kw [where g = kt_wallet], simp)+
  have assignment: "json_abs u (kw_get kt_assignment ?v) = json_abs u (kw_get kt_assignment w)" "json_inv u ok (kw_get kt_assignment ?v) = json_inv u ok (kw_get kt_assignment w)"
    for u :: "json \<Rightarrow> string result" and ok by (rule json_abs_kw [where g = kt_assignment] json_inv_kw [where g = kt_assignment], simp)+
  show ?thesis
    by (simp add: kept_but_levels_def kit_views kit_ok_def wallet assignment)
qed

interpretation kents: part_entities "kw_get kt_entities" "kw_put (\<lambda>x. kt_entities_update (\<lambda>_. x))" NewPgEntityRepo
    "\<lambda>d. et_abs (db_tables d)" "\<lambda>d. et_ok (db_tables d)"
  by unfold_locales (simp add: kw_get_put)

interpretation kwallet: part_store "kw_get kt_wallet" "kw_put (\<lambda>x. kt_wallet_update (\<lambda>_. x))"
    "NewJSONStore marshal_Wallet unmarshal_Wallet ''wallet''" "json_abs unmarshal_Wallet" "json_inv unmarshal_Wallet wallet_typ" wallet_typ
  by unfold_locales (simp add: kw_get_put)

interpretation kassign: part_store "kw_get kt_assignment" "kw_put (\<lambda>x. kt_assignment_update (\<lambda>_. x))"
    "NewJSONStore marshal_Assignment unmarshal_Assignment AssignmentComponent" "json_abs unmarshal_Assignment"
    "json_inv unmarshal_Assignment (\<lambda>_. True)" "\<lambda>_. True"
  by unfold_locales (simp add: kw_get_put)

interpretation klevels: part_store "kw_get kt_levels" "kw_put (\<lambda>x. kt_levels_update (\<lambda>_. x))"
    "NewJSONStore marshal_Levels unmarshal_Levels ''buildings''" "json_abs unmarshal_Levels"
    "json_inv unmarshal_Levels (intmap_ok in32)" "intmap_ok in32"
  by unfold_locales (simp add: kw_get_put)

subsection \<open>Operations of the components on the shared state\<close>

lemma on_part_put: "on_part g p m s = (r, s') \<Longrightarrow> \<exists>x. s' = p x s"
  by (auto simp: on_part_def split: prod.splits)

lemma et_view [simp]: "(\<lambda>w. et_abs (db_tables (kw_get kt_entities w))) = ents"
  by (simp add: ents_def fun_eq_iff)

lemma kit_entities_frame:
  "er_Create kit_Entities now kind i w = (a, w') \<Longrightarrow> kept_but_entities w w'"
  "er_Get kit_Entities i w = (a, w') \<Longrightarrow> kept_but_entities w w'"
  "er_ListByOwner kit_Entities i w = (b, w') \<Longrightarrow> kept_but_entities w w'"
  "er_ListByKind kit_Entities kind w = (b, w') \<Longrightarrow> kept_but_entities w w'"
  "er_Delete kit_Entities i w = (q, w') \<Longrightarrow> kept_but_entities w w'"
  unfolding kit_Entities_def entities_on_def using put_entities by (auto dest!: on_part_put)

lemma kept_entities_ok:
  "kept_but_entities w w' \<Longrightarrow> kit_ok w \<Longrightarrow> et_ok (db_tables (kw_get kt_entities w')) \<Longrightarrow> kit_ok w'"
  by (simp add: kept_but_entities_def)

lemma kit_et_ok: "kit_ok w \<Longrightarrow> et_ok (db_tables (kw_get kt_entities w))"
  by (simp add: kit_ok_def)

lemma kit_Create:
  assumes "kit_ok w" and "er_Create kit_Entities now kind i w = (r, w')"
  shows "kit_ok w' \<and> kept_but_entities w w' \<and> (case r of Inl _ \<Rightarrow> ents w' = ents w
     | Inr e \<Rightarrow> ents w (en_ID e) = None \<and> ents w' = (ents w)(en_ID e \<mapsto> e) \<and> en_Kind e = kind \<and> en_OwnerID e = i)"
proof -
  note f = kit_entities_frame(1) [OF assms(2)]
  note ok = kit_et_ok [OF assms(1)]
  show ?thesis
  proof (cases r)
    case (Inl e)
    with kents.at_part.create_err [of w now kind i e w'] assms(2) ok f kept_entities_ok [OF f assms(1)]
    show ?thesis by (simp add: kit_Entities_def ents_def)
  next
    case (Inr e)
    with kents.at_part.create_ok [of w now kind i e w'] assms(2) ok f kept_entities_ok [OF f assms(1)]
    show ?thesis by (simp add: kit_Entities_def ents_def)
  qed
qed

lemma kit_GetEntity:
  assumes "kit_ok w" and "er_Get kit_Entities i w = (r, w')"
  shows "kit_ok w' \<and> kept_but_entities w w' \<and> ents w' = ents w \<and> (\<forall>e. r = Inr e \<longrightarrow> ents w i = Some e)"
proof -
  note f = kit_entities_frame(2) [OF assms(2)]
  note ok = kit_et_ok [OF assms(1)]
  from kents.at_part.get_frame [of w i r w'] kents.at_part.get_ok [of w i _ w'] assms(2) ok f kept_entities_ok [OF f assms(1)]
  show ?thesis by (auto simp: kit_Entities_def ents_def)
qed

lemma kit_ListByOwner:
  assumes "kit_ok w" and "er_ListByOwner kit_Entities i w = (r, w')"
  shows "kit_ok w' \<and> kept_but_entities w w' \<and> ents w' = ents w
     \<and> (\<forall>es. r = Inr es \<longrightarrow> listing (\<lambda>e. en_OwnerID e = i) (ents w) es)"
proof -
  note f = kit_entities_frame(3) [OF assms(2)]
  note ok = kit_et_ok [OF assms(1)]
  from kents.at_part.owner_frame [of w i r w'] kents.at_part.owner_ok [of w i _ w'] assms(2) ok f kept_entities_ok [OF f assms(1)]
  show ?thesis by (auto simp: kit_Entities_def ents_def)
qed

text \<open>Reading and writing the wallet of an entity, and the levels of its buildings.\<close>

lemma kit_GetWallet:
  assumes "kit_ok w" and "st_Get kit_WalletStore w i = (r, w')"
  shows "kit_ok w' \<and> kept_but_wallets w w' \<and> wallets w' = wallets w \<and> (\<forall>x. r = Inr x \<longrightarrow> x = wallets w i)"
proof -
  have f: "kept_but_wallets w w'"
    using assms(2) unfolding kit_WalletStore_def store_on_def by (auto dest!: on_part_put simp: put_wallet)
  have ok: "json_inv unmarshal_Wallet wallet_typ (kw_get kt_wallet w)" using assms(1) by (simp add: kit_ok_def)
  from kwallet.at_part.get_frame [OF ok, of i r w'] kwallet.at_part.get_ok [OF ok, of i _ w'] assms f
  show ?thesis by (auto simp: kit_WalletStore_def wallets_def kept_but_wallets_def)
qed

lemma kit_SetWallet:
  assumes "kit_ok w" and "wallet_typ v" and "st_Set kit_WalletStore w i v = (r, w')"
  shows "kit_ok w' \<and> kept_but_wallets w w' \<and> wallets w' = (if is_ok r then (wallets w)(i \<mapsto> v) else wallets w)"
proof -
  have f: "kept_but_wallets w w'"
    using assms(3) unfolding kit_WalletStore_def store_on_def by (auto dest!: on_part_put simp: put_wallet)
  have ok: "json_inv unmarshal_Wallet wallet_typ (kw_get kt_wallet w)" using assms(1) by (simp add: kit_ok_def)
  from kwallet.at_part.set_ok [OF ok assms(2), of i _ w'] kwallet.at_part.set_err [OF ok assms(2), of i _ w'] assms f
  show ?thesis by (cases r) (auto simp: kit_WalletStore_def wallets_def kept_but_wallets_def)
qed

lemma kit_GetLevels:
  assumes "kit_ok w" and "st_Get kit_LevelsStore w i = (r, w')"
  shows "kit_ok w' \<and> kept_but_levels w w' \<and> levels_of w' = levels_of w \<and> (\<forall>x. r = Inr x \<longrightarrow> x = levels_of w i)"
proof -
  have f: "kept_but_levels w w'"
    using assms(2) unfolding kit_LevelsStore_def store_on_def by (auto dest!: on_part_put simp: put_levels)
  have ok: "json_inv unmarshal_Levels (intmap_ok in32) (kw_get kt_levels w)" using assms(1) by (simp add: kit_ok_def)
  from klevels.at_part.get_frame [OF ok, of i r w'] klevels.at_part.get_ok [OF ok, of i _ w'] assms f
  show ?thesis by (auto simp: kit_LevelsStore_def levels_of_def kept_but_levels_def)
qed

lemma kit_SetLevels:
  assumes "kit_ok w" and "intmap_ok in32 v" and "st_Set kit_LevelsStore w i v = (r, w')"
  shows "kit_ok w' \<and> kept_but_levels w w' \<and> levels_of w' = (if is_ok r then (levels_of w)(i \<mapsto> v) else levels_of w)"
proof -
  have f: "kept_but_levels w w'"
    using assms(3) unfolding kit_LevelsStore_def store_on_def by (auto dest!: on_part_put simp: put_levels)
  have ok: "json_inv unmarshal_Levels (intmap_ok in32) (kw_get kt_levels w)" using assms(1) by (simp add: kit_ok_def)
  from klevels.at_part.set_ok [OF ok assms(2), of i _ w'] klevels.at_part.set_err [OF ok assms(2), of i _ w'] assms f
  show ?thesis by (cases r) (auto simp: kit_LevelsStore_def levels_of_def kept_but_levels_def)
qed

subsection \<open>The game's own operations on the shared state\<close>

text \<open>Character and inventory operations work on the database itself.\<close>

definition on_kdb :: "(kit_tables DB \<Rightarrow> 'a \<times> kit_tables DB) \<Rightarrow> kit_world \<Rightarrow> 'a \<times> kit_world" where
  "on_kdb m w = (case m (kw_db w) of (r, d) \<Rightarrow> (r, w\<lparr>kw_db := d\<rparr>))"

text \<open>What a game operation leaves alone: the tables of the kit.\<close>

definition kit_part :: "kit_tables \<Rightarrow> entity_table \<times> (int \<times> json) list \<times> (int \<times> json) list \<times> (int \<times> json) list \<times> runs" where
  "kit_part t = (kt_entities t, kt_wallet t, kt_assignment t, kt_levels t, kt_runs t)"

lemma kit_part_keeps:
  assumes "kit_part (db_tables (kw_db w')) = kit_part (db_tables (kw_db w))"
  shows "ents w' = ents w \<and> wallets w' = wallets w \<and> assignments w' = assignments w \<and> levels_of w' = levels_of w
     \<and> kit_ok w' = kit_ok w"
proof -
  let ?t = "db_tables (kw_db w)" and ?t' = "db_tables (kw_db w')"
  have t: "kt_entities ?t' = kt_entities ?t" "kt_wallet ?t' = kt_wallet ?t" "kt_assignment ?t' = kt_assignment ?t"
    "kt_levels ?t' = kt_levels ?t" using assms by (simp_all add: kit_part_def)
  have j: "json_abs u (kw_get g w') = json_abs u (kw_get g w)" "json_inv u ok (kw_get g w') = json_inv u ok (kw_get g w)"
    if "g ?t' = g ?t" for u :: "json \<Rightarrow> 'b result" and ok g
    using json_abs_kw [of g w' w u] json_inv_kw [of g w' w u ok] that by simp_all
  show ?thesis
    unfolding ents_def wallets_def assignments_def levels_of_def kit_ok_def using t by (simp add: j)
qed

subsection \<open>The contracts on the shared state\<close>

interpretation kit_repo: entity_repo kit_Entities ents kit_ok
proof (unfold_locales, goal_cases)
  case (1 s now kind owner e s')
  with kit_Create [OF 1] kents.at_part.create_ok [of s now kind owner e s'] kit_et_ok [OF 1(1)]
  show ?case by (simp add: kit_Entities_def)
next
  case (2 s now kind owner x s')
  with kit_Create [OF 2] show ?case by simp
next
  case (3 s i e s')
  with kit_GetEntity [OF 3] show ?case by simp
next
  case (4 s i x s')
  with kit_GetEntity [OF 4] kents.at_part.get_err [of s i x s'] kit_et_ok [OF 4(1)]
  show ?case by (simp add: kit_Entities_def ents_def)
next
  case (5 s owner es s')
  with kit_ListByOwner [OF 5] show ?case by simp
next
  case (6 s owner x s')
  with kit_ListByOwner [OF 6] show ?case by simp
next
  case (7 s kind es s')
  note f = kit_entities_frame(4) [OF 7(2)]
  from 7 kents.at_part.kind_ok [of s kind es s'] kit_et_ok [OF 7(1)] kept_entities_ok [OF f 7(1)]
  show ?case by (simp add: kit_Entities_def ents_def)
next
  case (8 s kind x s')
  note f = kit_entities_frame(4) [OF 8(2)]
  from 8 kents.at_part.kind_err [of s kind x s'] kit_et_ok [OF 8(1)] kept_entities_ok [OF f 8(1)]
  show ?case by (simp add: kit_Entities_def ents_def)
next
  case (9 s i u s')
  note f = kit_entities_frame(5) [OF 9(2)]
  from 9 kents.at_part.delete_ok [of s i u s'] kit_et_ok [OF 9(1)] kept_entities_ok [OF f 9(1)]
  show ?case by (simp add: kit_Entities_def ents_def)
next
  case (10 s i x s')
  note f = kit_entities_frame(5) [OF 10(2)]
  from 10 kents.at_part.delete_err [of s i x s'] kit_et_ok [OF 10(1)] kept_entities_ok [OF f 10(1)]
  show ?case by (simp add: kit_Entities_def ents_def)
next
  case (11 s i e)
  then show ?case by (simp add: ents_def et_abs_iff kit_ok_def)
qed

lemma lastrun_on_cases:
  "lr_Get kit_LastRun n i w = (g, w') \<Longrightarrow> kt_runs (db_tables (kw_db w')) = kt_runs (db_tables (kw_db w))
     \<and> (\<forall>x. g = Inr x \<longrightarrow> x = kt_runs (db_tables (kw_db w)) (n, i))"
  "lr_Set kit_LastRun n i t w = (q, w') \<Longrightarrow> kt_runs (db_tables (kw_db w'))
     = (if is_ok q then (kt_runs (db_tables (kw_db w)))((n, i) \<mapsto> t) else kt_runs (db_tables (kw_db w)))"
  by (auto simp: kit_LastRun_def lastrun_on_def on_part_def NewPgLastRun_def split: prod.splits
      dest!: pgLastRun_Get_cases pgLastRun_Set_cases)

interpretation kruns: last_run kit_LastRun "\<lambda>w. kt_runs (db_tables (kw_db w))"
  by unfold_locales (use lastrun_on_cases in blast)+

definition kept_but_runs :: "kit_world \<Rightarrow> kit_world \<Rightarrow> bool" where
  "kept_but_runs w w' \<longleftrightarrow> ents w' = ents w \<and> wallets w' = wallets w \<and> assignments w' = assignments w \<and> levels_of w' = levels_of w
     \<and> game_of w' = game_of w \<and> kw_stats w' = kw_stats w \<and> kw_inv w' = kw_inv w \<and> kit_ok w' = kit_ok w"

lemma put_runs: "kept_but_runs w (kw_put (\<lambda>x. kt_runs_update (\<lambda>_. x)) x w)"
proof -
  let ?v = "kw_put (\<lambda>x. kt_runs_update (\<lambda>_. x)) x w"
  have wallet: "json_abs u (kw_get kt_wallet ?v) = json_abs u (kw_get kt_wallet w)" "json_inv u ok (kw_get kt_wallet ?v) = json_inv u ok (kw_get kt_wallet w)"
    for u :: "json \<Rightarrow> Wallet result" and ok by (rule json_abs_kw [where g = kt_wallet] json_inv_kw [where g = kt_wallet], simp)+
  have assignment: "json_abs u (kw_get kt_assignment ?v) = json_abs u (kw_get kt_assignment w)" "json_inv u ok (kw_get kt_assignment ?v) = json_inv u ok (kw_get kt_assignment w)"
    for u :: "json \<Rightarrow> string result" and ok by (rule json_abs_kw [where g = kt_assignment] json_inv_kw [where g = kt_assignment], simp)+
  have levels: "json_abs u (kw_get kt_levels ?v) = json_abs u (kw_get kt_levels w)" "json_inv u ok (kw_get kt_levels ?v) = json_inv u ok (kw_get kt_levels w)"
    for u :: "json \<Rightarrow> Levels result" and ok by (rule json_abs_kw [where g = kt_levels] json_inv_kw [where g = kt_levels], simp)+
  show ?thesis
    by (simp add: kept_but_runs_def kit_views kit_ok_def wallet assignment levels)
qed

lemma lastrun_frame:
  "lr_Get kit_LastRun n i w = (g, w') \<Longrightarrow> kept_but_runs w w'"
  "lr_Set kit_LastRun n i t w = (q, w') \<Longrightarrow> kept_but_runs w w'"
  unfolding kit_LastRun_def lastrun_on_def using put_runs by (auto dest!: on_part_put)

text \<open>Which entities have a component of the kit's world.\<close>

definition kit_has :: "string \<Rightarrow> kit_world \<Rightarrow> int set" where
  "kit_has n w = (if n = AssignmentComponent then dom (assignments w) else if n = ''wallet'' then dom (wallets w) else {})"

definition kept_but_assignments :: "kit_world \<Rightarrow> kit_world \<Rightarrow> bool" where
  "kept_but_assignments w w' \<longleftrightarrow> ents w' = ents w \<and> wallets w' = wallets w \<and> levels_of w' = levels_of w
     \<and> game_of w' = game_of w \<and> kw_stats w' = kw_stats w \<and> kw_inv w' = kw_inv w
     \<and> (kit_ok w \<longrightarrow> json_inv unmarshal_Assignment (\<lambda>_. True) (kw_get kt_assignment w') \<longrightarrow> kit_ok w')"

lemma put_assignment: "kept_but_assignments w (kw_put (\<lambda>x. kt_assignment_update (\<lambda>_. x)) x w)"
proof -
  let ?v = "kw_put (\<lambda>x. kt_assignment_update (\<lambda>_. x)) x w"
  have wallet: "json_abs u (kw_get kt_wallet ?v) = json_abs u (kw_get kt_wallet w)" "json_inv u ok (kw_get kt_wallet ?v) = json_inv u ok (kw_get kt_wallet w)"
    for u :: "json \<Rightarrow> Wallet result" and ok by (rule json_abs_kw [where g = kt_wallet] json_inv_kw [where g = kt_wallet], simp)+
  have levels: "json_abs u (kw_get kt_levels ?v) = json_abs u (kw_get kt_levels w)" "json_inv u ok (kw_get kt_levels ?v) = json_inv u ok (kw_get kt_levels w)"
    for u :: "json \<Rightarrow> Levels result" and ok by (rule json_abs_kw [where g = kt_levels] json_inv_kw [where g = kt_levels], simp)+
  show ?thesis
    by (simp add: kept_but_assignments_def kit_views kit_ok_def wallet levels)
qed

lemma kit_index_cases:
  "wd_indexes kit_World n = Some x \<Longrightarrow>
     (n = AssignmentComponent \<and> x = index_of kit_AssignStore) \<or> (n = ''wallet'' \<and> x = index_of kit_WalletStore)"
  by (auto simp: kit_World_def world_Register_def world_New_def index_of_def kit_AssignStore_def kit_WalletStore_def
      store_on_def NewJSONStore_def split: if_splits)

lemma assign_frame:
  "st_EntityIDs kit_AssignStore w = (a, w') \<Longrightarrow> kept_but_assignments w w'"
  "st_Has kit_AssignStore w i = (b, w') \<Longrightarrow> kept_but_assignments w w'"
  unfolding kit_AssignStore_def store_on_def using put_assignment by (auto dest!: on_part_put)

lemma wallet_frame:
  "st_EntityIDs kit_WalletStore w = (a, w') \<Longrightarrow> kept_but_wallets w w'"
  "st_Has kit_WalletStore w i = (b, w') \<Longrightarrow> kept_but_wallets w w'"
  unfolding kit_WalletStore_def store_on_def using put_wallet by (auto dest!: on_part_put)

lemma kit_oks:
  "kit_ok w \<Longrightarrow> json_inv unmarshal_Assignment (\<lambda>_. True) (kw_get kt_assignment w)"
  "kit_ok w \<Longrightarrow> json_inv unmarshal_Wallet wallet_typ (kw_get kt_wallet w)"
  by (simp_all add: kit_ok_def)

interpretation kworld: world_indexes kit_World kit_has kit_ok
proof (unfold_locales, goal_cases)
  case (1 s n x r s')
  from kit_index_cases [OF 1(2)] show ?case
  proof
    assume n: "n = AssignmentComponent \<and> x = index_of kit_AssignStore"
    then have e: "st_EntityIDs kit_AssignStore s = (r, s')" using 1(3) by (simp add: index_of_def)
    from assign_frame(1) [OF e] kassign.at_part.ids_ok [OF kit_oks(1) [OF 1(1)], of _ s'] e
      kassign.at_part.ids_err [OF kit_oks(1) [OF 1(1)], of _ s'] 1(1) n
    show ?thesis by (cases r) (auto simp: kept_but_assignments_def kit_has_def ascending_def kit_AssignStore_def assignments_def)
  next
    assume n: "n = ''wallet'' \<and> x = index_of kit_WalletStore"
    then have e: "st_EntityIDs kit_WalletStore s = (r, s')" using 1(3) by (simp add: index_of_def)
    from wallet_frame(1) [OF e] kwallet.at_part.ids_ok [OF kit_oks(2) [OF 1(1)], of _ s'] e
      kwallet.at_part.ids_err [OF kit_oks(2) [OF 1(1)], of _ s'] 1(1) n
    show ?thesis by (cases r) (auto simp: kept_but_wallets_def kit_has_def ascending_def kit_WalletStore_def wallets_def)
  qed
next
  case (2 s n x i q s')
  from kit_index_cases [OF 2(2)] show ?case
  proof
    assume n: "n = AssignmentComponent \<and> x = index_of kit_AssignStore"
    then have e: "st_Has kit_AssignStore s i = (q, s')" using 2(3) by (simp add: index_of_def)
    from assign_frame(2) [OF e] kassign.at_part.has_ok [OF kit_oks(1) [OF 2(1)], of i _ s'] e
      kassign.at_part.has_err [OF kit_oks(1) [OF 2(1)], of i _ s'] 2(1) n
    show ?thesis by (cases q) (auto simp: kept_but_assignments_def kit_has_def kit_AssignStore_def assignments_def domIff)
  next
    assume n: "n = ''wallet'' \<and> x = index_of kit_WalletStore"
    then have e: "st_Has kit_WalletStore s i = (q, s')" using 2(3) by (simp add: index_of_def)
    from wallet_frame(2) [OF e] kwallet.at_part.has_ok [OF kit_oks(2) [OF 2(1)], of i _ s'] e
      kwallet.at_part.has_err [OF kit_oks(2) [OF 2(1)], of i _ s'] 2(1) n
    show ?thesis by (cases q) (auto simp: kept_but_wallets_def kit_has_def kit_WalletStore_def wallets_def domIff)
  qed
qed

text \<open>The composer of the kit, here with the wallet's initializer, over any templates.\<close>

definition kit_Composer :: "(string \<times> (string \<times> json) list) list \<Rightarrow> kit_world Composer" where
  "kit_Composer defs = LoadTemplates defs (RegisterComponent ''wallet'' (template_Init unmarshal_Wallet kit_WalletStore)
     (NewComposer kit_Entities))"

lemma json_int_ok: "json_int rng j = Inr n \<Longrightarrow> rng 0 \<Longrightarrow> rng n"
  by (auto simp: json_int_def split: json.splits if_splits)

lemma unmarshal_intmap_entries_ok:
  "unmarshal_entries rng fs f = Inr g \<Longrightarrow> rng 0 \<Longrightarrow> intmap_ok rng (Some f) \<Longrightarrow> intmap_ok rng (Some g)"
  by (induction rng fs f rule: unmarshal_entries.induct) (auto split: sum.splits dest: json_int_ok intro: intmap_ok_upd)

lemma unmarshal_Wallet_typ: "unmarshal_Wallet j = Inr v \<Longrightarrow> wallet_typ v"
proof -
  assume "unmarshal_Wallet j = Inr v"
  then obtain b where b: "unmarshal_intmap in64 b = Inr (w_Balances v)"
    by (auto simp: unmarshal_Wallet_def split: sum.splits)
  show ?thesis
  proof (cases "\<exists>fs. b = JObj fs")
    case True
    then obtain fs f where "unmarshal_entries in64 fs Map.empty = Inr f" "w_Balances v = Some f"
      using b by (auto simp: unmarshal_intmap_def map_sum_def split: sum.splits)
    then show ?thesis using unmarshal_intmap_entries_ok [of in64 fs Map.empty f] by (simp add: wallet_typ_def intmap_ok_def)
  next
    case False
    then have "w_Balances v = None" using b by (auto simp: unmarshal_intmap_def split: json.splits)
    then show ?thesis by (simp add: wallet_typ_def intmap_ok_def)
  qed
qed

interpretation kcomposer: composer "kit_Composer defs" ents kit_ok "\<lambda>n w. if n = ''wallet'' then dom (wallets w) else {}"
proof -
  have e: "cp_entities (kit_Composer defs) = kit_Entities"
    by (simp add: kit_Composer_def LoadTemplates_def RegisterComponent_def NewComposer_def)
  have i: "cp_inits (kit_Composer defs) n = Some ini \<Longrightarrow> n = ''wallet'' \<and> ini = template_Init unmarshal_Wallet kit_WalletStore" for n ini
    by (auto simp: kit_Composer_def LoadTemplates_def RegisterComponent_def NewComposer_def split: if_splits)
  have repo: "entity_repo (cp_entities (kit_Composer defs)) ents kit_ok" unfolding e by (rule kit_repo.entity_repo_axioms)
  show "composer (kit_Composer defs) ents kit_ok (\<lambda>n w. if n = ''wallet'' then dom (wallets w) else {})"
  proof (intro composer.intro composer_axioms.intro repo, goal_cases)
    case (1 s name ini j raw u s')
    then have t: "template_Init unmarshal_Wallet kit_WalletStore j raw s = (Inr u, s')" and n: "name = ''wallet''" using i by auto
    then obtain v where v: "unmarshal_Wallet raw = Inr v" "st_Set kit_WalletStore s j v = (Inr u, s')"
      by (auto simp: template_Init_def split: sum.splits)
    from kit_SetWallet [OF 1(1) unmarshal_Wallet_typ [OF v(1)] v(2)] n show ?case by (auto simp: kept_but_wallets_def)
  next
    case (2 s name ini j raw x s')
    then have t: "template_Init unmarshal_Wallet kit_WalletStore j raw s = (Inl x, s')" using i by auto
    show ?case
    proof (cases "unmarshal_Wallet raw")
      case (Inl e)
      then show ?thesis using t 2(1) by (simp add: template_Init_def)
    next
      case (Inr v)
      then have "st_Set kit_WalletStore s j v = (Inl x, s')" using t by (simp add: template_Init_def)
      from kit_SetWallet [OF 2(1) unmarshal_Wallet_typ [OF Inr] this] show ?thesis by (simp add: kept_but_wallets_def)
    qed
  next
    case (3 s now kind owner r s' m)
    from kit_Create [OF 3(1) 3(2) [unfolded e]] show ?case by (simp add: kept_but_entities_def)
  qed
qed

text \<open>Rewards and inventory changes of the game leave the tables of the kit alone.\<close>

lemma quest_part_kit: "quest_part t' = quest_part t \<Longrightarrow> kit_part t' = kit_part t"
  by (cases t; cases t') (simp add: quest_part_def kit_part_def)

lemma reads_kit: "reads m \<Longrightarrow> on_kdb m w = (r, w') \<Longrightarrow> db_tables (kw_db w') = db_tables (kw_db w)
    \<and> kw_stats w' = kw_stats w \<and> kw_inv w' = kw_inv w"
  by (auto simp: on_kdb_def split: prod.splits dest: readsD)

lemma same_tables:
  assumes "db_tables (kw_db w') = db_tables (kw_db w)"
  shows "ents w' = ents w \<and> wallets w' = wallets w \<and> assignments w' = assignments w \<and> levels_of w' = levels_of w
     \<and> kit_ok w' = kit_ok w \<and> game_of w' = game_of w"
  using kit_part_keeps [of w' w] assms by (simp add: game_of_def)

end
