(* ===== verification/Idlekit.thy ===== *)
theory Idlekit
  imports Kit_Tables Httpx
begin

section \<open>The idle plugin: backend/plugins/idlekit\<close>

text \<open>
  Each character is mirrored by one entity of kind \<open>idlekit\<close>, owned by the character's id. On a
  login the mirror is found or created and the idle system catches up; its output becomes gold and
  experience of the character and resources in the mirror's wallet, which crafting spends.
\<close>

subsection \<open>activities.go\<close>

definition training :: Producer where
  "training = \<lparr>pr_Unlocked = (\<lambda>_. True),
     pr_Produce = (\<lambda>m s _. let power = State_Get s ''power''; level = State_Get s ''level'' in
       Output_Add ''exp'' (int64_of_f64 (fmul (fmul level (Fin 2)) m))
         (Output_Add ''gold'' (int64_of_f64 (fmul (fadd (fmul power (rnd (1 / 10))) level) m)) zero_Output))\<rparr>"

definition gathering :: Producer where
  "gathering = \<lparr>pr_Unlocked = (\<lambda>_. True),
     pr_Produce = (\<lambda>m s _. Output_Add ''ore'' (int64_of_f64 (fmul (fadd (Fin 1) (fmul (State_Get s ''level'') (rnd (1 / 10)))) m)) zero_Output)\<rparr>"

definition idlekit_activities :: Registry where
  "idlekit_activities = idle_Register ''gathering'' gathering (idle_Register ''training'' training idle_NewRegistry)"

lemma idlekit_activities_ok: "registry_ok idlekit_activities"
  by (simp add: idlekit_activities_def idle_Register_ok idle_NewRegistry_ok)

subsection \<open>plugin.go: the mirror\<close>

definition EntityKind :: string where "EntityKind = ''idlekit''"

text \<open>\<open>mirror\<close>: the section under the plugin's mutex.\<close>

definition mirror :: "int \<Rightarrow> int \<Rightarrow> kit_world \<Rightarrow> int result \<times> kit_world" where
  "mirror now charID w = (case er_ListByOwner kit_Entities charID w of
     (Inl e, w1) \<Rightarrow> (Inl e, w1)
   | (Inr owned, w1) \<Rightarrow> (case find (\<lambda>e. en_Kind e = EntityKind) owned of
        Some e \<Rightarrow> (Inr (en_ID e), w1)
      | None \<Rightarrow> (case er_Create kit_Entities now EntityKind charID w1 of
           (Inl e, w2) \<Rightarrow> (Inl e, w2)
         | (Inr e, w2) \<Rightarrow> (Inr (en_ID e), w2))))"

definition charOf :: "int \<Rightarrow> kit_world \<Rightarrow> int result \<times> kit_world" where
  "charOf entityID w = (case er_Get kit_Entities entityID w of
     (Inl e, w1) \<Rightarrow> (Inl e, w1)
   | (Inr e, w1) \<Rightarrow> (Inr (en_OwnerID e), w1))"

text \<open>\<open>power\<close> sums in the order the map is iterated over.\<close>

definition power :: "stats \<Rightarrow> f64" where
  "power derived = foldl (\<lambda>a (_, v). fadd a v) (Fin 0) (case derived of None \<Rightarrow> [] | Some kvs \<Rightarrow> kvs)"

subsection \<open>The bridges\<close>

record kit_svc =
  ks_pow :: pow
  ks_chars :: "unit kit_tables_ext loot_tables_ext quest_tables_ext game_tables_ext CharSvc"
  ks_hooks :: "(Change filter_any, unit) Hooks option"

definition stateFor :: "int \<Rightarrow> kit_world \<Rightarrow> State result \<times> kit_world" where
  "stateFor entityID w = (case charOf entityID w of
     (Inl e, w1) \<Rightarrow> (Inl e, w1)
   | (Inr charID, w1) \<Rightarrow> (case on_kdb (character_GetByID charID) w1 of
        (Inl e, w2) \<Rightarrow> (Inl e, w2)
      | (Inr char, w2) \<Rightarrow> (Inr (Some (Map.empty(''power'' \<mapsto> power (cw_Derived char), ''level'' \<mapsto> f64_of_int (ch_Level (cw_Char char))))), w2)))"

definition kit_AddRewards :: "kit_svc \<Rightarrow> int \<Rightarrow> int \<Rightarrow> int \<Rightarrow> int \<Rightarrow> kit_world \<Rightarrow> unit result \<times> kit_world" where
  "kit_AddRewards svc now charID gold xp w =
     (case svc_AddRewards (ks_pow svc) (ks_chars svc) now charID gold xp (kw_db w) (kw_stats w) of
        (r, d, tr) \<Rightarrow> (map_sum (\<lambda>e. e) (\<lambda>_. ()) r, w\<lparr>kw_db := d, kw_stats := tr\<rparr>))"

text \<open>The other amounts, in the order of the ledger, are banked in the wallet.\<close>

fun bank_amounts :: "(Change filter_any, unit) Hooks option \<Rightarrow> int \<Rightarrow> (string \<times> int) list \<Rightarrow> kit_world \<Rightarrow> unit result \<times> kit_world" where
  "bank_amounts h entityID [] w = (Inr (), w)"
| "bank_amounts h entityID ((name, amt) # rest) w =
     (if name = ''gold'' \<or> name = ''exp'' \<or> amt \<le> 0 then bank_amounts h entityID rest w
      else case economy_Earn kit_WalletStore h w entityID name amt of
        (Inl e, w1) \<Rightarrow> (Inl e, w1)
      | (Inr _, w1) \<Rightarrow> bank_amounts h entityID rest w1)"

definition apply_output :: "kit_svc \<Rightarrow> int \<Rightarrow> int \<Rightarrow> Output \<Rightarrow> kit_world \<Rightarrow> unit result \<times> kit_world" where
  "apply_output svc now entityID out w = (case charOf entityID w of
     (Inl e, w1) \<Rightarrow> (Inl e, w1)
   | (Inr charID, w1) \<Rightarrow>
       (let gold = amount_of out ''gold''; xp = amount_of out ''exp'' in
        case (if gold > 0 \<or> xp > 0 then kit_AddRewards svc now charID gold xp w1 else (Inr (), w1)) of
          (Inl e, w2) \<Rightarrow> (Inl e, w2)
        | (Inr _, w2) \<Rightarrow> bank_amounts (ks_hooks svc) entityID (ou_Amounts out) w2))"

definition idlekit_Engine :: "kit_svc \<Rightarrow> Registry \<Rightarrow> ((StateEvent \<times> kit_world) filter_any, unit) Hooks option \<Rightarrow>
    (Output filter_any, unit) Hooks option \<Rightarrow> int \<Rightarrow> kit_world Engine" where
  "idlekit_Engine svc activities sh oh now =
     idle_NewEngine activities kit_AssignStore (Some stateFor) (Some (apply_output svc now)) sh oh None"

text \<open>The tick interval of the configuration, 15 seconds by default; at least one second, at most a day.\<close>

definition idlekit_System :: "kit_world Engine \<Rightarrow> int \<Rightarrow> kit_world TickSystem" where
  "idlekit_System e interval = NewSystem e (if interval \<le> 0 then 15 * 10 ^ 9 else interval) (Fin 1) (Fin (24 * 3600))"

text \<open>On a login: mirror the character, then catch up; every error is dropped.\<close>

definition on_login :: "(int \<Rightarrow> kit_world Engine) \<Rightarrow> int \<Rightarrow> int \<Rightarrow> int \<Rightarrow> kit_world \<Rightarrow> kit_world" where
  "on_login e interval now charID w = (case mirror now charID w of
     (Inl _, w1) \<Rightarrow> w1
   | (Inr eid, w1) \<Rightarrow> snd (Catchup kit_LastRun (idlekit_System (e now) interval) now eid w1))"

subsection \<open>The resource wallet of crafting\<close>

definition rw_Balances :: "int \<Rightarrow> int \<Rightarrow> kit_world \<Rightarrow> (string, int) gomap result \<times> kit_world" where
  "rw_Balances now charID w = (case mirror now charID w of
     (Inl e, w1) \<Rightarrow> (Inl e, w1)
   | (Inr eid, w1) \<Rightarrow> (case st_Get kit_WalletStore w1 eid of
        (Inl e, w2) \<Rightarrow> (Inl e, w2)
      | (Inr x, w2) \<Rightarrow> (Inr (w_Balances (case x of None \<Rightarrow> zero_Wallet | Some v \<Rightarrow> v)), w2)))"

definition rw_Credit :: "int \<Rightarrow> int \<Rightarrow> string \<Rightarrow> int \<Rightarrow> kit_world \<Rightarrow> unit result \<times> kit_world" where
  "rw_Credit now charID resourceID amount w = (case mirror now charID w of
     (Inl e, w1) \<Rightarrow> (Inl e, w1)
   | (Inr eid, w1) \<Rightarrow> (case st_Get kit_WalletStore w1 eid of
        (Inl e, w2) \<Rightarrow> (Inl e, w2)
      | (Inr x, w2) \<Rightarrow>
          (let b = gm_alloc (w_Balances (case x of None \<Rightarrow> zero_Wallet | Some v \<Rightarrow> v));
               n = wrap64 (gm_get 0 b resourceID + amount) in
           case gm_set b resourceID (if n < 0 then 0 else n) of
             Inl e \<Rightarrow> (Inl e, w2)
           | Inr b' \<Rightarrow> st_Set kit_WalletStore w2 eid \<lparr>w_Balances = b'\<rparr>)))"

subsection \<open>HTTP\<close>

datatype kit_data =
    DIdleState int "string option" "(string, int) gomap"
  | DActivities "string list"
  | DAssigned int string

type_synonym kit_handler = "(kit_data, kit_world) handler"

text \<open>The character of the path, when it is the caller's.\<close>

definition owned :: "request \<Rightarrow> kit_world \<Rightarrow> ('d response + int) \<times> kit_world" where
  "owned r w = (let userID = UserIDFromContext r in
     case ParseInt 64 (rq_PathValue r ''id'') of
       None \<Rightarrow> (Inl (WriteError 400 ''INVALID_ID''), w)
     | Some charID \<Rightarrow>
         if charID \<le> 0 \<or> userID = 0 then (Inl (WriteError 400 ''INVALID_ID''), w)
         else case on_kdb (character_GetByID charID) w of
           (Inl _, w1) \<Rightarrow> (Inl (WriteError 404 ''CHARACTER_NOT_FOUND''), w1)
         | (Inr char, w1) \<Rightarrow> if ch_UserID (cw_Char char) \<noteq> userID then (Inl (WriteError 404 ''CHARACTER_NOT_FOUND''), w1)
             else (Inr charID, w1))"

definition state_handler :: "kit_world Engine \<Rightarrow> kit_handler" where
  "state_handler e r w = (case owned r w of
     (Inl resp, w1) \<Rightarrow> (resp, w1)
   | (Inr charID, w1) \<Rightarrow> (case mirror (rq_clock r 0) charID w1 of
        (Inl _, w2) \<Rightarrow> (WriteError 500 ''IDLE'', w2)
      | (Inr eid, w2) \<Rightarrow>
          (case idle_Current e eid w2 of (cur, w3) \<Rightarrow>
           (case st_Get kit_WalletStore w3 eid of (x, w4) \<Rightarrow>
             (WriteJSON 200 (DIdleState charID (case cur of Inr (Some a) \<Rightarrow> Some a | _ \<Rightarrow> None)
                (case x of Inr (Some v) \<Rightarrow> w_Balances v | _ \<Rightarrow> None)), w4)))))"

definition activities_handler :: "kit_world Engine \<Rightarrow> kit_handler" where
  "activities_handler e r w = (WriteJSON 200 (DActivities (idle_Activities e)), w)"

definition assign_handler :: "kit_world Engine \<Rightarrow> kit_handler" where
  "assign_handler e r w = (case owned r w of
     (Inl resp, w1) \<Rightarrow> (resp, w1)
   | (Inr charID, w1) \<Rightarrow> (case decode_body (json_get ''activity_id'' json_string) r of
        Inl _ \<Rightarrow> (WriteError 400 ''IDLE'', w1)
      | Inr act \<Rightarrow> (case mirror (rq_clock r 0) charID w1 of
           (Inl _, w2) \<Rightarrow> (WriteError 500 ''IDLE'', w2)
         | (Inr eid, w2) \<Rightarrow> (case idle_Assign e eid act w2 of
              (Inl _, w3) \<Rightarrow> (WriteError 400 ''IDLE'', w3)
            | (Inr _, w3) \<Rightarrow> (WriteJSON 200 (DAssigned charID act), w3)))))"

definition idlekit_routes :: "jwt_parser \<Rightarrow> string \<Rightarrow> kit_world Engine \<Rightarrow> (string \<times> kit_handler) list" where
  "idlekit_routes parse secret e =
     [(''GET /api/v1/characters/{id}/idle/state'', AuthMiddleware parse secret (state_handler e)),
      (''GET /api/v1/characters/{id}/idle/activities'', AuthMiddleware parse secret (activities_handler e)),
      (''POST /api/v1/characters/{id}/idle/assign'', AuthMiddleware parse secret (assign_handler e))]"

subsection \<open>The mirror\<close>

definition mirrors :: "kit_world \<Rightarrow> int \<Rightarrow> int set" where
  "mirrors w c = {i. \<exists>e. ents w i = Some e \<and> en_Kind e = EntityKind \<and> en_OwnerID e = c}"

definition mirror_unique :: "kit_world \<Rightarrow> bool" where
  "mirror_unique w \<longleftrightarrow> (\<forall>c i j. i \<in> mirrors w c \<longrightarrow> j \<in> mirrors w c \<longrightarrow> i = j)"

lemma mirror_ok:
  assumes ok: "kit_ok w" and un: "mirror_unique w" and run: "mirror now c w = (r, w')"
  shows "kit_ok w' \<and> mirror_unique w' \<and> kept_but_entities w w' \<and> (\<forall>d. mirrors w d \<subseteq> mirrors w' d)
     \<and> (\<forall>eid. r = Inr eid \<longrightarrow> mirrors w' c = {eid}) \<and> (mirrors w c \<noteq> {} \<or> \<not> is_ok r \<longrightarrow> ents w' = ents w)"
proof -
  obtain q w1 where q: "er_ListByOwner kit_Entities c w = (q, w1)" by fastforce
  note L = kit_ListByOwner [OF ok q]
  have m1: "mirrors w1 d = mirrors w d" for d using L by (simp add: mirrors_def)
  have u1: "mirror_unique w1" using un m1 by (simp add: mirror_unique_def)
  show ?thesis
  proof (cases q)
    case (Inl e)
    then show ?thesis using run q L m1 u1 by (auto simp: mirror_def)
  next
    case (Inr es)
    have es: "e \<in> set es \<longleftrightarrow> ents w (en_ID e) = Some e \<and> en_OwnerID e = c" for e
      using L Inr by (auto simp: listing_def)
    show ?thesis
    proof (cases "find (\<lambda>e. en_Kind e = EntityKind) es")
      case (Some e)
      then have e: "e \<in> set es" "en_Kind e = EntityKind" by (auto simp: find_Some_iff in_set_conv_nth)
      then have "en_ID e \<in> mirrors w c" using es by (auto simp: mirrors_def)
      then have "mirrors w1 c = {en_ID e}" using un m1 unfolding mirror_unique_def by blast
      then show ?thesis using run q Inr Some L m1 u1 by (auto simp: mirror_def)
    next
      case None
      then have none: "mirrors w c = {}"
        using es kit_repo.ids [OF ok] by (force simp: mirrors_def find_None_iff)
      obtain p w2 where p: "er_Create kit_Entities now EntityKind c w1 = (p, w2)" by fastforce
      have ok1: "kit_ok w1" using L by blast
      note C = kit_Create [OF ok1 p]
      have kept: "kept_but_entities w w2" using L C ok by (auto simp: kept_but_entities_def)
      show ?thesis
      proof (cases p)
        case pe: (Inl e)
        have "mirrors w2 d = mirrors w d" for d using C L pe by (simp add: mirrors_def)
        then show ?thesis using run q Inr None p pe C L un kept by (auto simp: mirror_def mirror_unique_def)
      next
        case pe: (Inr e)
        have m2: "mirrors w2 d = (if d = c then insert (en_ID e) (mirrors w d) else mirrors w d)" for d
          using C L pe by (auto simp: mirrors_def)
        then have "mirror_unique w2" using un none by (auto simp: mirror_unique_def)
        then show ?thesis using run q Inr None p pe C m2 none kept by (auto simp: mirror_def)
      qed
    qed
  qed
qed

text \<open>A session of mirror calls: what each returns.\<close>

fun mirror_session :: "(int \<times> int) list \<Rightarrow> kit_world \<Rightarrow> (int \<times> int result) list \<times> kit_world" where
  "mirror_session [] w = ([], w)"
| "mirror_session ((now, c) # cs) w = (case mirror now c w of (r, w1) \<Rightarrow>
     (case mirror_session cs w1 of (rs, w2) \<Rightarrow> ((c, r) # rs, w2)))"

lemma mirror_session_ok:
  assumes "kit_ok w" and "mirror_unique w" and "mirror_session cs w = (rs, w')"
  shows "kit_ok w' \<and> mirror_unique w' \<and> kept_but_entities w w' \<and> (\<forall>d. mirrors w d \<subseteq> mirrors w' d)
     \<and> (\<forall>c eid. (c, Inr eid) \<in> set rs \<longrightarrow> eid \<in> mirrors w' c)"
  using assms
proof (induction cs arbitrary: w rs)
  case Nil
  then show ?case by (auto simp: kept_but_entities_def kit_ok_def)
next
  case (Cons nc cs)
  obtain now c where nc: "nc = (now, c)" by fastforce
  obtain r w1 where r: "mirror now c w = (r, w1)" by fastforce
  obtain rs1 w2 where rs1: "mirror_session cs w1 = (rs1, w2)" by fastforce
  have rs: "rs = (c, r) # rs1" "w2 = w'" using Cons.prems(3) nc r rs1 by auto
  note M = mirror_ok [OF Cons.prems(1,2) r]
  have "kit_ok w1" "mirror_unique w1" using M by blast+
  note IH = Cons.IH [OF this rs1 [unfolded rs(2)]]
  have "kept_but_entities w w'" using M IH by (auto simp: kept_but_entities_def)
  then show ?case using M IH rs by (fastforce simp: subset_iff)
qed


subsection \<open>Catching up\<close>

text \<open>
  C37: A catch-up or an online tick of the idle system, whatever driver calls fail in it: less than
  a second after the last-run mark it changes no character, no balance and no experience, so that
  repeated logins pay nothing twice; after that it accrues once, over at least a sixtieth of a
  minute and at most the 1440 minutes of a day, and when it succeeds the mark is the present.
\<close>

theorem idle_catchup_window:
  assumes run: "Catchup kit_LastRun (idlekit_System e interval) now eid w = (r, w')"
    and mark: "kt_runs (db_tables (kw_db w)) (''idle'', eid) = Some l" and clock: "0 \<le> now - l" "now - l < 2 ^ 63"
  shows "(now - l < 10 ^ 9 \<longrightarrow> game_of w' = game_of w \<and> wallets w' = wallets w \<and> levels_of w' = levels_of w
            \<and> kw_stats w' = kw_stats w)
     \<and> (r = Inr () \<longrightarrow> kt_runs (db_tables (kw_db w')) (''idle'', eid) = Some now
          \<and> (now - l \<ge> 10 ^ 9 \<longrightarrow> (\<exists>m w1 out w2. Accrue e eid m w1 = (Inr out, w2) \<and> game_of w1 = game_of w \<and> wallets w1 = wallets w
               \<and> game_of w2 = game_of w' \<and> wallets w2 = wallets w'
               \<and> fle (rnd (1 / 60)) m \<and> fle m (Fin 1440))))"
proof -
  let ?sys = "idlekit_System e interval"
  have nm: "ts_Name ?sys = ''idle''" and tick: "ts_Tick ?sys = idle_Tick e (Fin 1) (Fin (24 * 3600))"
    by (simp_all add: idlekit_System_def NewSystem_def)
  have el: "time_Sub now l = now - l" using clock by (intro time_Sub_exact) (simp add: in64_def)
  show ?thesis using run unfolding Catchup_def
  proof (cases rule: kruns.tickEntity_cases)
    case (unread x)
    then show ?thesis using lastrun_frame(1) by (auto simp: kept_but_runs_def)
  next
    case (failed x w1 g)
    note k = lastrun_frame(1) [OF failed(3)]
    show ?thesis
    proof (cases "now - l < 10 ^ 9")
      case True
      have "flt (Seconds (now - l)) (Fin 1)" using clock True by (intro Seconds_below_1) simp_all
      then show ?thesis using failed mark nm tick el by (simp add: idle_Tick_def Window_def)
    next
      case False
      then show ?thesis using failed(1) by simp
    qed
  next
    case (ran w1 w2 g)
    note k1 = lastrun_frame(1) [OF ran(2)] and k2 = lastrun_frame(2) [OF ran(4)]
    have t: "idle_Tick e (Fin 1) (Fin (24 * 3600)) eid (now - l) w1 = (Inr (), w2)" using ran(3) mark nm tick el by simp
    show ?thesis
    proof (cases "now - l < 10 ^ 9")
      case True
      have "flt (Seconds (now - l)) (Fin 1)" using clock True by (intro Seconds_below_1) simp_all
      then have "w2 = w1" using t by (simp add: idle_Tick_def Window_def)
      then show ?thesis using k1 k2 True lastrun_on_cases(2) [OF ran(4)] nm by (simp add: kept_but_runs_def)
    next
      case False
      show ?thesis
      proof (cases "Window (Seconds (now - l)) (Fin 1) (Fin (24 * 3600))")
        case None
        then have "flt (Seconds (now - l)) (Fin 1)" by (simp add: Window_def split: if_splits)
        moreover have "\<not> flt (Seconds (now - l)) (Fin 1)" using clock False by (intro Seconds_from_1) simp_all
        ultimately show ?thesis by blast
      next
        case (Some m)
        then obtain out where a: "Accrue e eid m w1 = (Inr out, w2)"
          using t by (auto simp: idle_Tick_def split: prod.splits sum.splits)
        have nn: "Seconds (now - l) \<noteq> NaN" using clock by (intro Seconds_not_NaN) simp
        have "fle m (fdiv (Fin (24 * 3600)) (Fin 60))" "fle (fdiv (Fin 1) (Fin 60)) m"
          using Window_bounds [OF Some nn] by simp_all
        then show ?thesis using k1 k2 a False lastrun_on_cases(2) [OF ran(4)] nm by (simp add: kept_but_runs_def) blast
      qed
    qed
  qed
qed

subsection \<open>A concrete world\<close>

text \<open>Character 5 of user 1, with the mirror entity 1 that trains since time 0.\<close>

definition demo_kit :: kit_world where
  "demo_kit = \<lparr>kw_db = \<lparr>db_tables =
     \<lparr>t_outbox = [], t_outbox_seq = 0, t_event_log = [],
      t_characters = [(5, \<lparr>ch_UserID = 1, ch_Name = ''Bram'', ch_ClassName = ''WARRIOR'', ch_Level = 2, ch_Experience = 0,
        ch_Gold = 100, ch_LastActiveAt = 0, ch_CreatedAt = 0, ch_UpdatedAt = 0\<rparr>)], t_characters_seq = 5,
      t_character_stats = [(5, \<lparr>sr_base = JObj [], sr_derived = JObj [], sr_updated_at = 0\<rparr>)],
      t_items = [], t_inventories = [], t_inventories_seq = 0, t_quests = [], t_char_quests = [], t_loot = [],
      kt_entities = \<lparr>et_rows = [\<lparr>en_ID = 1, en_Kind = EntityKind, en_OwnerID = 5, en_CreatedAt = 0\<rparr>], et_next = 2\<rparr>,
      kt_wallet = [(1, JObj [(''balances'', JObj [(''wood'', JNum 30)])])],
      kt_assignment = [(1, JObj [(''activity_id'', JStr ''training'')])], kt_levels = [],
      kt_runs = Map.empty((''idle'', 1) \<mapsto> 0)\<rparr>, db_faults = []\<rparr>, kw_stats = [], kw_inv = []\<rparr>"

definition demo_kit_svc :: kit_svc where
  "demo_kit_svc = \<lparr>ks_pow = (\<lambda>_ _. Fin 0), ks_chars = \<lparr>sv_classDefs = Map.empty, sv_statClient = None, sv_equip = None,
     sv_eventBus = False, sv_rewardHooks = None, sv_statHooks = None\<rparr>, ks_hooks = None\<rparr>"

definition demo_engine :: "kit_world Engine" where
  "demo_engine = idlekit_Engine demo_kit_svc idlekit_activities None None 0"

lemma demo_kit_ok: "kit_ok demo_kit"
  by (simp add: kit_ok_def demo_kit_def et_ok_def json_inv_def kw_get_def sub_table_def al_ok_def unmarshal_Wallet_def
      json_field_def unmarshal_intmap_def json_int_def in64_def wallet_typ_def intmap_ok_def unmarshal_Assignment_def json_string_def)

lemma demo_mirrors: "mirrors demo_kit c = (if c = 5 then {1} else {})"
  by (auto simp: mirrors_def ents_def demo_kit_def et_abs_def split: if_splits)

lemma demo_mirror_unique: "mirror_unique demo_kit"
  by (simp add: mirror_unique_def demo_mirrors)


theorem idle_catchup_window_witness:
  "\<exists>r w'. Catchup kit_LastRun (idlekit_System demo_engine 0) (9 * 10 ^ 8) 1 demo_kit = (r, w') \<and>
     r = Inr () \<and> game_of w' = game_of demo_kit \<and> kt_runs (db_tables (kw_db w')) (''idle'', 1) = Some (9 * 10 ^ 8)"
proof -
  obtain r w' where c: "Catchup kit_LastRun (idlekit_System demo_engine 0) (9 * 10 ^ 8) 1 demo_kit = (r, w')" by fastforce
  have "lr_Get kit_LastRun ''idle'' 1 demo_kit = (Inr (Some 0), demo_kit)"
    by (simp add: kit_LastRun_def lastrun_on_def on_part_def NewPgLastRun_def pgLastRun_Get_def db_stmt_def kw_get_def
        sub_table_def kw_put_def put_table_def demo_kit_def)
  from small_window_lost [OF this, of "9 * 10 ^ 8" "Fin 1"] Seconds_below_1 [of "9 * 10 ^ 8"]
  have "(r, w') = lr_Set kit_LastRun ''idle'' 1 (9 * 10 ^ 8) demo_kit"
    using c by (simp add: Catchup_def idlekit_System_def time_Sub_def)
  then have r: "r = Inr ()"
    by (simp add: kit_LastRun_def lastrun_on_def on_part_def NewPgLastRun_def pgLastRun_Set_def db_stmt_def kw_get_def
        sub_table_def demo_kit_def)
  have m: "kt_runs (db_tables (kw_db demo_kit)) (''idle'', 1) = Some 0" by (simp add: demo_kit_def)
  from idle_catchup_window [OF c m] r c show ?thesis by simp
qed

end
