(* ===== verification/Crafting.thy ===== *)
theory Crafting
  imports Idlekit Registry
begin

section \<open>Crafting: backend/plugins/crafting\<close>

text \<open>
  A recipe turns resources of the idle wallet and gold into an item. The recipes are content of the
  registry, loaded from the embedded pack; the wallet is the resource wallet of the idle plugin,
  gold and items go through the character and the inventory service. The costs of a recipe are in
  the order its map is iterated over.
\<close>

subsection \<open>crafting.go\<close>

abbreviation "crafting_ContentKind \<equiv> ''crafting_recipe''"
abbreviation "ErrUnknownRecipe \<equiv> Sentinel ''crafting: unknown recipe''"
abbreviation "ErrInsufficientRes \<equiv> Sentinel ''crafting: insufficient resources''"
abbreviation "ErrInsufficientGold \<equiv> Sentinel ''crafting: insufficient gold''"

record CraftOutput =
  co_ItemID :: string
  co_Name :: string
  co_SlotType :: string
  co_Quantity :: int

record Recipe =
  rc_ID :: string
  rc_Name :: string
  rc_Cost :: "(string \<times> int) list"
  rc_GoldCost :: int
  rc_Output :: CraftOutput

definition zero_Recipe :: Recipe where
  "zero_Recipe = \<lparr>rc_ID = [], rc_Name = [], rc_Cost = [], rc_GoldCost = 0,
     rc_Output = \<lparr>co_ItemID = [], co_Name = [], co_SlotType = [], co_Quantity = 0\<rparr>\<rparr>"

text \<open>Decoding a JSON object into a map: the last of several entries for a key counts.\<close>

fun unmarshal_costs :: "(string \<times> json) list \<Rightarrow> (string \<times> int) list \<Rightarrow> (string \<times> int) list result" where
  "unmarshal_costs [] m = Inr m"
| "unmarshal_costs ((k, j) # rest) m = res_bind (json_int in64 j) (\<lambda>n. unmarshal_costs rest (AList.update k n m))"

definition unmarshal_Cost :: "json \<Rightarrow> (string \<times> int) list result" where
  "unmarshal_Cost j = (case j of JNull \<Rightarrow> Inr [] | JObj fs \<Rightarrow> unmarshal_costs fs [] | _ \<Rightarrow> Inl json_err)"

definition unmarshal_CraftOutput :: "json \<Rightarrow> CraftOutput result" where
  "unmarshal_CraftOutput j =
     res_bind (json_get ''item_id'' json_string j) (\<lambda>i.
     res_bind (json_get ''name'' json_string j) (\<lambda>n.
     res_bind (json_get ''slot_type'' json_string j) (\<lambda>s.
     res_bind (json_get ''quantity'' (json_int in32) j) (\<lambda>q.
       Inr \<lparr>co_ItemID = i, co_Name = n, co_SlotType = s, co_Quantity = q\<rparr>))))"

definition unmarshal_Recipe :: "json \<Rightarrow> Recipe result" where
  "unmarshal_Recipe j =
     res_bind (json_get ''id'' json_string j) (\<lambda>i.
     res_bind (json_get ''name'' json_string j) (\<lambda>n.
     res_bind (json_get ''cost'' unmarshal_Cost j) (\<lambda>c.
     res_bind (json_get ''gold_cost'' (json_int in64) j) (\<lambda>g.
     res_bind (json_get ''output'' unmarshal_CraftOutput j) (\<lambda>out.
       Inr \<lparr>rc_ID = i, rc_Name = n, rc_Cost = c, rc_GoldCost = g, rc_Output = out\<rparr>)))))"

text \<open>Values of the content registry: recipes, and whatever other plugins put there.\<close>

datatype 'o content_value = AnyRecipe Recipe | AnyOther 'o

definition as_Recipe :: "'o content_value \<Rightarrow> Recipe option" where
  "as_Recipe v = (case v of AnyRecipe r \<Rightarrow> Some r | AnyOther _ \<Rightarrow> None)"

record 'o CraftSvc =
  cs_reg :: "('o content_value, json) Registry"
  cs_order :: "string list"

definition recipe :: "'o CraftSvc \<Rightarrow> string \<Rightarrow> Recipe option" where
  "recipe s i = Content as_Recipe (cs_reg s) crafting_ContentKind i"

text \<open>\<open>INSERT ... ON CONFLICT (id) DO NOTHING\<close>, with the defaults of the other columns.\<close>

definition seed_item :: "int \<Rightarrow> Recipe \<Rightarrow> 'x gamedb \<Rightarrow> unit result \<times> 'x gamedb" where
  "seed_item now r = (let out = rc_Output r; slot = (if co_SlotType out = [] then ''NONE'' else co_SlotType out) in
     db_stmt (\<lambda>t. Inr ((), if map_of (t_items t) (co_ItemID out) \<noteq> None then t
       else t\<lparr>t_items := t_items t @ [(co_ItemID out, \<lparr>ir_name = co_Name out, ir_description = ''Crafted item'',
              ir_slot_type = slot, ir_min_level = 1, ir_class_restrictions = [], ir_stats_modifiers = JArr [],
              ir_metadata = JObj [], ir_created_at = now\<rparr>)]\<rparr>)))"

fun seedItemDefinitions :: "'o CraftSvc \<Rightarrow> int \<Rightarrow> string list \<Rightarrow> 'x gamedb \<Rightarrow> unit result \<times> 'x gamedb" where
  "seedItemDefinitions s now [] d = (Inr (), d)"
| "seedItemDefinitions s now (i # is) d =
     (case seed_item now (case recipe s i of None \<Rightarrow> zero_Recipe | Some r \<Rightarrow> r) d of
        (Inl e, d1) \<Rightarrow> (Inl e, d1)
      | (Inr _, d1) \<Rightarrow> seedItemDefinitions s now is d1)"

fun load_recipes :: "(string \<times> json) list \<Rightarrow> ('o content_value, json) Registry \<Rightarrow> error option \<times> ('o content_value, json) Registry" where
  "load_recipes [] reg = (None, reg)"
| "load_recipes ((i, raw) # rest) reg = (case LoadContent reg crafting_ContentKind i raw of
     (Some e, reg1) \<Rightarrow> (Some e, reg1)
   | (None, reg1) \<Rightarrow> load_recipes rest reg1)"

text \<open>The pack is decoded into a map, so its ids are distinct.\<close>

definition unmarshal_pack :: "json \<Rightarrow> (string \<times> json) list result" where
  "unmarshal_pack j = (case j of JNull \<Rightarrow> Inr [] | JObj fs \<Rightarrow> Inr (foldl (\<lambda>m (k, v). AList.update k v m) [] fs) | _ \<Rightarrow> Inl json_err)"

definition crafting_NewService :: "int \<Rightarrow> ('o content_value, json) Registry \<Rightarrow> json \<Rightarrow> 'x gamedb \<Rightarrow>
    'o CraftSvc result \<times> ('o content_value, json) Registry \<times> 'x gamedb" where
  "crafting_NewService now reg recipesJSON d =
     (case DefineContent unmarshal_Recipe AnyRecipe reg crafting_ContentKind of
        (Some e, reg1) \<Rightarrow> (Inl e, reg1, d)
      | (None, reg1) \<Rightarrow> (case unmarshal_pack recipesJSON of
          Inl e \<Rightarrow> (Inl e, reg1, d)
        | Inr raw \<Rightarrow> (case load_recipes raw reg1 of
             (Some e, reg2) \<Rightarrow> (Inl e, reg2, d)
           | (None, reg2) \<Rightarrow>
               (let s = \<lparr>cs_reg = reg2, cs_order = sort (map fst raw)\<rparr> in
                case seedItemDefinitions s now (cs_order s) d of
                  (Inl e, d1) \<Rightarrow> (Inl e, reg2, d1)
                | (Inr _, d1) \<Rightarrow> (Inr s, reg2, d1)))))"

definition covers :: "(string, int) gomap \<Rightarrow> Recipe \<Rightarrow> bool" where
  "covers bals r \<longleftrightarrow> list_all (\<lambda>(res, c). \<not> gm_get 0 bals res < c) (rc_Cost r)"

definition Recipes :: "'o CraftSvc \<Rightarrow> int \<Rightarrow> int \<Rightarrow> kit_world \<Rightarrow> (Recipe \<times> bool) list result \<times> kit_world" where
  "Recipes s now charID w = (case rw_Balances now charID w of
     (Inl e, w1) \<Rightarrow> (Inl e, w1)
   | (Inr bals, w1) \<Rightarrow> (Inr (map (\<lambda>i. let r = (case recipe s i of None \<Rightarrow> zero_Recipe | Some r \<Rightarrow> r) in (r, covers bals r))
        (cs_order s)), w1))"

fun spend_costs :: "int \<Rightarrow> int \<Rightarrow> (string \<times> int) list \<Rightarrow> kit_world \<Rightarrow> unit result \<times> kit_world" where
  "spend_costs now charID [] w = (Inr (), w)"
| "spend_costs now charID ((res, c) # cs) w = (case rw_Credit now charID res (wrap64 (- c)) w of
     (Inl e, w1) \<Rightarrow> (Inl e, w1)
   | (Inr _, w1) \<Rightarrow> spend_costs now charID cs w1)"

text \<open>The inventory service works on the database and its trace of events.\<close>

definition kit_AddItem :: "int \<Rightarrow> InventoryItem \<Rightarrow> kit_world \<Rightarrow> InventoryItem result \<times> kit_world" where
  "kit_AddItem now item w = (case svc_AddItem True now item (kw_db w) (kw_inv w) of
     (r, d, tr) \<Rightarrow> (r, w\<lparr>kw_db := d, kw_inv := tr\<rparr>))"

definition crafted :: "int \<Rightarrow> Recipe \<Rightarrow> InventoryItem" where
  "crafted charID r = \<lparr>ii_ID = 0, ii_CharacterID = wrap32 charID, ii_SlotIndex = 0,
     ii_ItemDefinitionID = co_ItemID (rc_Output r),
     ii_Quantity = (if co_Quantity (rc_Output r) \<le> 0 then 1 else co_Quantity (rc_Output r)),
     ii_Durability = 100, ii_CustomModifiers = [], ii_CreatedAt = 0, ii_UpdatedAt = 0, ii_ItemDetails = None\<rparr>"

definition pay_gold :: "int \<Rightarrow> int \<Rightarrow> Recipe \<Rightarrow> kit_world \<Rightarrow> unit result \<times> kit_world" where
  "pay_gold now charID r w =
     (if rc_GoldCost r > 0 then (case on_kdb (repo_SpendGold now charID (rc_GoldCost r)) w of
        (Inl e, w1) \<Rightarrow> (Inl e, w1)
      | (Inr okGold, w1) \<Rightarrow> (if okGold then Inr () else Inl ErrInsufficientGold, w1))
      else (Inr (), w))"

definition Craft :: "'o CraftSvc \<Rightarrow> int \<Rightarrow> int \<Rightarrow> string \<Rightarrow> kit_world \<Rightarrow> (string \<times> int) result \<times> kit_world" where
  "Craft s now charID recipeID w = (case recipe s recipeID of
     None \<Rightarrow> (Inl ErrUnknownRecipe, w)
   | Some r \<Rightarrow> (case rw_Balances now charID w of
        (Inl e, w1) \<Rightarrow> (Inl e, w1)
      | (Inr bals, w1) \<Rightarrow>
          if \<not> covers bals r then (Inl ErrInsufficientRes, w1)
          else (case pay_gold now charID r w1 of
             (Inl e, w2) \<Rightarrow> (Inl e, w2)
           | (Inr _, w2) \<Rightarrow> (case spend_costs now charID (rc_Cost r) w2 of
                (Inl e, w3) \<Rightarrow> (Inl e, w3)
              | (Inr _, w3) \<Rightarrow> (case kit_AddItem now (crafted charID r) w3 of
                   (Inl e, w4) \<Rightarrow> (Inl e, w4)
                 | (Inr _, w4) \<Rightarrow> (Inr (ii_ItemDefinitionID (crafted charID r), ii_Quantity (crafted charID r)), w4))))))"

subsection \<open>plugin.go\<close>

datatype craft_data =
    DRecipes "(Recipe \<times> bool) list"
  | DCrafted string int

type_synonym craft_handler = "(craft_data, kit_world) handler"

definition recipesHandler :: "'o CraftSvc \<Rightarrow> craft_handler" where
  "recipesHandler s r w = (case owned r w of
     (Inl resp, w1) \<Rightarrow> (resp, w1)
   | (Inr charID, w1) \<Rightarrow> (case Recipes s (rq_clock r 0) charID w1 of
        (Inl _, w2) \<Rightarrow> (WriteError 500 ''INTERNAL'', w2)
      | (Inr views, w2) \<Rightarrow> (WriteJSON 200 (DRecipes views), w2)))"

definition craftHandler :: "'o CraftSvc \<Rightarrow> craft_handler" where
  "craftHandler s r w = (case owned r w of
     (Inl resp, w1) \<Rightarrow> (resp, w1)
   | (Inr charID, w1) \<Rightarrow> (case decode_body (json_get ''recipe_id'' json_string) r of
        Inl _ \<Rightarrow> (WriteError 400 ''INVALID_BODY'', w1)
      | Inr recipeID \<Rightarrow> (case Craft s (rq_clock r 0) charID recipeID w1 of
           (Inl e, w2) \<Rightarrow>
             (if e = ErrUnknownRecipe then WriteError 404 ''UNKNOWN_RECIPE''
              else if e = ErrInsufficientRes then WriteError 402 ''INSUFFICIENT_RESOURCES''
              else if e = ErrInsufficientGold then WriteError 402 ''INSUFFICIENT_GOLD''
              else WriteError 500 ''INTERNAL'', w2)
         | (Inr (item, qty), w2) \<Rightarrow> (WriteJSON 200 (DCrafted item qty), w2))))"

definition crafting_routes :: "jwt_parser \<Rightarrow> string \<Rightarrow> 'o CraftSvc \<Rightarrow> (string \<times> craft_handler) list" where
  "crafting_routes parse secret s =
     [(''GET /api/v1/characters/{id}/crafting/recipes'', AuthMiddleware parse secret (recipesHandler s)),
      (''POST /api/v1/characters/{id}/crafting/craft'', AuthMiddleware parse secret (craftHandler s))]"

subsection \<open>What the parts do\<close>

definition res_bal :: "kit_world \<Rightarrow> int \<Rightarrow> string \<Rightarrow> int" where
  "res_bal w k res = (case wallets w k of None \<Rightarrow> 0 | Some v \<Rightarrow> gm_get 0 (w_Balances v) res)"

abbreviation bag :: "kit_world \<Rightarrow> int \<times> int \<rightharpoonup> int \<times> string \<times> int \<times> int \<times> json" where
  "bag w \<equiv> slot_map (db_tables (kw_db w))"

text \<open>What a change of one wallet leaves alone.\<close>

definition only_wallet :: "int \<Rightarrow> kit_world \<Rightarrow> kit_world \<Rightarrow> bool" where
  "only_wallet eid w w' \<longleftrightarrow> kit_ok w' \<and> ents w' = ents w \<and> assignments w' = assignments w \<and> levels_of w' = levels_of w
     \<and> game_of w' = game_of w \<and> kw_stats w' = kw_stats w \<and> kw_inv w' = kw_inv w
     \<and> (\<forall>k res. k \<noteq> eid \<longrightarrow> res_bal w' k res = res_bal w k res)"

lemma only_wallet_refl: "kit_ok w \<Longrightarrow> only_wallet eid w w"
  by (simp add: only_wallet_def)

lemma only_wallet_trans: "only_wallet eid w w1 \<Longrightarrow> only_wallet eid w1 w2 \<Longrightarrow> only_wallet eid w w2"
  by (simp add: only_wallet_def)

lemma mirrors_ents: "ents w' = ents w \<Longrightarrow> mirrors w' = mirrors w"
  by (simp add: mirrors_def fun_eq_iff)

lemma game_of_views:
  assumes "game_of w' = game_of w"
  shows "chars_of (kw_db w') = chars_of (kw_db w)" "bag w' = bag w"
    "slots_ok (db_tables (kw_db w')) = slots_ok (db_tables (kw_db w))"
proof -
  have "t_characters (db_tables (kw_db w')) = t_characters (db_tables (kw_db w))
     \<and> t_inventories (db_tables (kw_db w')) = t_inventories (db_tables (kw_db w))"
    using assms by (cases "db_tables (kw_db w')"; cases "db_tables (kw_db w)") (simp add: game_of_def loot_tables.truncate_def)
  then show "chars_of (kw_db w') = chars_of (kw_db w)" "bag w' = bag w"
    "slots_ok (db_tables (kw_db w')) = slots_ok (db_tables (kw_db w))"
    by (simp_all add: chars_of_def slot_map_def slots_ok_def)
qed

lemma wallet_ok_balances: "kit_ok w \<Longrightarrow> wallets w k = Some v \<Longrightarrow> wallet_typ v"
  unfolding wallets_def kit_ok_def
  by (auto simp: json_abs_def json_inv_def list_all_iff split: option.splits sum.splits dest!: map_of_SomeD)

lemma res_bal_in64: "kit_ok w \<Longrightarrow> in64 (res_bal w k res)"
  using wallet_ok_balances [of w k] intmap_ok_get [of in64]
  by (auto simp: res_bal_def wallet_typ_def split: option.splits)

lemma rw_Balances_ok:
  assumes "kit_ok w" and "mirror_unique w" and run: "rw_Balances now c w = (r, w')"
  shows "kit_ok w' \<and> mirror_unique w' \<and> kept_but_entities w w' \<and> mirrors w c \<subseteq> mirrors w' c
     \<and> (\<forall>b. r = Inr b \<longrightarrow> (\<exists>eid. mirrors w' c = {eid} \<and> (\<forall>res. gm_get 0 b res = res_bal w eid res)))"
proof -
  obtain q w1 where q: "mirror now c w = (q, w1)" by fastforce
  note M = mirror_ok [OF assms(1,2) q]
  show ?thesis
  proof (cases q)
    case (Inl e)
    then show ?thesis using run q M by (auto simp: rw_Balances_def)
  next
    case (Inr eid)
    then have M1: "kit_ok w1" "mirror_unique w1" "kept_but_entities w w1" "mirrors w1 c = {eid}" "mirrors w c \<subseteq> mirrors w1 c"
      using M by blast+
    obtain x w2 where g: "st_Get kit_WalletStore w1 eid = (x, w2)" by fastforce
    note G = kit_GetWallet [OF M1(1) g]
    have m: "mirrors w2 = mirrors w1" using G by (intro mirrors_ents) (simp add: kept_but_wallets_def)
    have st: "kit_ok w2" "mirror_unique w2" "kept_but_entities w w2" "mirrors w2 c = {eid}" "mirrors w c \<subseteq> mirrors w2 c"
      using M1 G m by (simp_all add: mirror_unique_def kept_but_entities_def kept_but_wallets_def kit_ok_def)
    have get: "y = wallets w eid" if "x = Inr y" for y using that G M1(3) by (simp add: kept_but_entities_def)
    have run': "(r, w') = (map_sum (\<lambda>e. e) (\<lambda>y. w_Balances (case y of None \<Rightarrow> zero_Wallet | Some v \<Rightarrow> v)) x, w2)"
      using run q Inr g by (cases x) (simp_all add: rw_Balances_def)
    have "\<forall>res. gm_get 0 b res = res_bal w eid res" if "r = Inr b" for b
      using that run' get by (cases x) (auto simp: res_bal_def zero_Wallet_def split: option.splits)
    then show ?thesis using run' st by blast
  qed
qed

lemma rw_Credit_ok:
  assumes "kit_ok w" and "mirror_unique w" and m: "mirrors w c = {eid}" and run: "rw_Credit now c res amount w = (r, w')"
  shows "only_wallet eid w w' \<and> mirrors w' = mirrors w
     \<and> (\<forall>x. res_bal w' eid x = (if is_ok r \<and> x = res then max 0 (wrap64 (res_bal w eid res + amount)) else res_bal w eid x))"
proof -
  obtain q w1 where q: "mirror now c w = (q, w1)" by fastforce
  note M = mirror_ok [OF assms(1,2) q]
  have e1: "ents w1 = ents w" using M m by blast
  then have m1: "mirrors w1 = mirrors w" by (rule mirrors_ents)
  have k1: "only_wallet eid w w1" "\<And>k x. res_bal w1 k x = res_bal w k x"
    using M e1 by (auto simp: only_wallet_def kept_but_entities_def res_bal_def)
  show ?thesis
  proof (cases q)
    case (Inl e)
    then show ?thesis using run q k1 m1 by (auto simp: rw_Credit_def)
  next
    case (Inr i)
    then have i: "i = eid" using M m1 m by auto
    obtain x w2 where g: "st_Get kit_WalletStore w1 eid = (x, w2)" by fastforce
    have ok1: "kit_ok w1" using M by blast
    note G = kit_GetWallet [OF ok1 g]
    have "only_wallet eid w1 w2" "\<And>k x. res_bal w2 k x = res_bal w1 k x"
      using G by (simp_all add: only_wallet_def kept_but_wallets_def res_bal_def)
    then have k2: "only_wallet eid w w2" "\<And>k x. res_bal w2 k x = res_bal w k x"
      using only_wallet_trans [OF k1(1)] k1(2) by simp_all
    have m2: "mirrors w2 = mirrors w" using k2(1) by (intro mirrors_ents) (simp add: only_wallet_def)
    show ?thesis
    proof (cases x)
      case Inl2: (Inl e)
      then show ?thesis using run q Inr i g k2 m2 by (auto simp: rw_Credit_def)
    next
      case Inr2: (Inr v)
      then have v: "v = wallets w2 eid" using G by simp
      let ?old = "w_Balances (case v of None \<Rightarrow> zero_Wallet | Some y \<Rightarrow> y)"
      obtain f where f: "gm_alloc ?old = Some f" using gm_alloc_Some by blast
      let ?n = "wrap64 (gm_get 0 (Some f) res + amount)"
      let ?new = "\<lparr>w_Balances = Some (f(res \<mapsto> if ?n < 0 then 0 else ?n))\<rparr>"
      have old: "gm_get 0 (Some f) y = res_bal w eid y" for y
        using f v k2(2) [of eid y] gm_get_alloc [of 0 ?old y]
        by (auto simp: res_bal_def zero_Wallet_def split: option.splits)
      have ok2: "kit_ok w2" using G by blast
      have "intmap_ok in64 ?old" using v wallet_ok_balances [OF ok2, of eid]
        by (cases "wallets w2 eid") (simp_all add: zero_Wallet_def wallet_typ_def, simp add: intmap_ok_def)
      then have "intmap_ok in64 (Some f)" using intmap_ok_alloc [of in64 ?old] f by simp
      then have wt: "wallet_typ ?new" by (auto simp: wallet_typ_def intro!: intmap_ok_upd)
      obtain s w3 where s: "st_Set kit_WalletStore w2 eid ?new = (s, w3)" by fastforce
      note S = kit_SetWallet [OF ok2 wt s]
      have "r = s \<and> w' = w3" using run q Inr i g Inr2 f s by (simp add: rw_Credit_def Let_def)
      moreover have "only_wallet eid w w3" using k2(1) S by (auto simp: only_wallet_def kept_but_wallets_def res_bal_def)
      moreover from this have "mirrors w3 = mirrors w" by (intro mirrors_ents) (simp add: only_wallet_def)
      moreover have "res_bal w3 eid y = (if is_ok s \<and> y = res then max 0 (wrap64 (res_bal w eid res + amount)) else res_bal w eid y)" for y
        using S old [of y] old [of res] k2(2) [of eid y] by (auto simp: res_bal_def max_def)
      ultimately show ?thesis by blast
    qed
  qed
qed

text \<open>What a recipe costs, and that a character can pay it.\<close>

definition cost_of :: "(string \<times> int) list \<Rightarrow> string \<Rightarrow> int" where
  "cost_of cs res = (case map_of cs res of None \<Rightarrow> 0 | Some c \<Rightarrow> c)"

definition priced :: "(string \<times> int) list \<Rightarrow> bool" where
  "priced cs \<longleftrightarrow> distinct (map fst cs) \<and> list_all (\<lambda>(_, c). 0 \<le> c) cs"

lemma spend_costs_ok:
  assumes "kit_ok w" and "mirror_unique w" and "mirrors w c = {eid}" and "priced cs"
    and "list_all (\<lambda>(res, n). n \<le> res_bal w eid res) cs" and "spend_costs now c cs w = (r, w')"
  shows "only_wallet eid w w' \<and> (\<forall>x. res_bal w' eid x \<le> res_bal w eid x)
     \<and> (is_ok r \<longrightarrow> (\<forall>x. res_bal w' eid x = res_bal w eid x - cost_of cs x))"
  using assms
proof (induction cs arbitrary: w)
  case Nil
  then show ?case by (simp add: only_wallet_refl cost_of_def)
next
  case (Cons rn cs)
  obtain res n where rn: "rn = (res, n)" by fastforce
  obtain q w1 where q: "rw_Credit now c res (wrap64 (- n)) w = (q, w1)" by fastforce
  note C = rw_Credit_ok [OF Cons.prems(1-3) q]
  have n: "0 \<le> n" "n \<le> res_bal w eid res" using Cons.prems(4,5) by (simp_all add: rn priced_def)
  have b: "in64 (res_bal w eid res)" using Cons.prems(1) by (rule res_bal_in64)
  have "wrap64 (- n) = - n" "wrap64 (res_bal w eid res - n) = res_bal w eid res - n"
    using n b by (auto intro!: wrap64_id simp: in64_def)
  then have new: "max 0 (wrap64 (res_bal w eid res + wrap64 (- n))) = res_bal w eid res - n" using n by simp
  have step: "res_bal w1 eid x = (if is_ok q \<and> x = res then res_bal w eid res - n else res_bal w eid x)" for x
    using C unfolding new by blast
  have le: "res_bal w1 eid x \<le> res_bal w eid x" for x using step n by simp
  show ?case
  proof (cases q)
    case (Inl e)
    then have "r = Inl e" "w' = w1" using Cons.prems(6) rn q by simp_all
    then show ?thesis using C le by simp
  next
    case (Inr u)
    have k: "res \<notin> fst ` set cs" "priced cs" using Cons.prems(4) by (simp_all add: rn priced_def)
    have "list_all (\<lambda>(res, n). n \<le> res_bal w1 eid res) cs"
      unfolding list_all_iff using Cons.prems(5) k step by (force simp: rn list_all_iff)
    moreover have "kit_ok w1" "mirrors w1 c = {eid}" "mirror_unique w1"
      using C Cons.prems(2,3) by (simp_all add: only_wallet_def mirror_unique_def)
    moreover have "spend_costs now c cs w1 = (r, w')" using Cons.prems(6) rn q Inr by simp
    ultimately have IH: "only_wallet eid w1 w'" "\<And>x. res_bal w' eid x \<le> res_bal w1 eid x"
      "is_ok r \<longrightarrow> (\<forall>x. res_bal w' eid x = res_bal w1 eid x - cost_of cs x)"
      using Cons.IH [of w1] k by blast+
    have "cost_of cs res = 0" using k(1) by (simp add: cost_of_def map_of_eq_None_iff [THEN iffD2])
    then have "res_bal w1 eid x - cost_of cs x = res_bal w eid x - cost_of (rn # cs) x" for x
      using step Inr by (simp add: rn cost_of_def)
    then show ?thesis using IH le only_wallet_trans [of eid w w1 w'] C by (metis order_trans)
  qed
qed

text \<open>Paying the gold of a recipe, and granting its item.\<close>

definition paid_gold :: "int \<Rightarrow> int \<Rightarrow> int \<Rightarrow> kit_world \<Rightarrow> kit_world \<Rightarrow> bool" where
  "paid_gold now c gold w w' \<longleftrightarrow> (if gold > 0
     then (\<exists>ch. chars_of (kw_db w) c = Some ch \<and> gold \<le> ch_Gold ch
        \<and> chars_of (kw_db w') = (chars_of (kw_db w))(c \<mapsto> ch\<lparr>ch_Gold := ch_Gold ch - gold, ch_UpdatedAt := now\<rparr>))
     else chars_of (kw_db w') = chars_of (kw_db w))"

lemma SpendGold_frame: "frames (\<lambda>t. t\<lparr>t_characters := []\<rparr>) (repo_SpendGold now c amount)"
proof -
  have "frames (\<lambda>t. t\<lparr>t_characters := []\<rparr>) (\<lambda>d. if amount \<le> 0 then (Inr True, d) else WithinTx d (
        tx_bind (tx_map_err not_found (select_character c)) (\<lambda>r.
        if ch_Gold r < amount then tx_return (Inr False)
        else tx_bind (update_character c (\<lambda>r. r\<lparr>ch_Gold := ch_Gold r - amount, ch_UpdatedAt := now\<rparr>)) (\<lambda>_.
          tx_return (Inr True)))))"
    by (cases "amount \<le> 0")
      (auto simp: select_character_def update_character_def intro!: framesI [of "\<lambda>d. (Inr True, d)"] frames_WithinTx frames_bind
        frames_map_err frames_stmt frames_return split: option.splits)
  then show ?thesis by (simp add: repo_SpendGold_def [abs_def])
qed

lemma SpendGold_refused:
  fixes d :: "'x chardb"
  assumes "repo_SpendGold now c amount d = (Inr False, d')"
  shows "db_tables d' = db_tables d"
proof -
  have w: "WithinTx d (tx_bind (tx_map_err not_found (select_character c)) (\<lambda>r.
        if ch_Gold r < amount then tx_return (Inr False)
        else tx_bind (update_character c (\<lambda>r. r\<lparr>ch_Gold := ch_Gold r - amount, ch_UpdatedAt := now\<rparr>)) (\<lambda>_.
          tx_return (Inr True)))) = (Inr False, d')"
    using assms by (simp add: repo_SpendGold_def split: if_splits)
  from w obtain d1 d2 where 1: "db_tables d1 = db_tables d" "db_tables d' = db_tables d2"
    and 2: "tx_bind (tx_map_err not_found (select_character c)) (\<lambda>r.
        if ch_Gold r < amount then tx_return (Inr False)
        else tx_bind (update_character c (\<lambda>r. r\<lparr>ch_Gold := ch_Gold r - amount, ch_UpdatedAt := now\<rparr>)) (\<lambda>_.
          tx_return (Inr True))) d1 = (Inr False, d2)" by (rule WithinTx_committed)
  from 2 obtain r d3 where 3: "tx_map_err not_found (select_character c) d1 = (Inr r, d3)"
    and 4: "(if ch_Gold r < amount then tx_return (Inr False)
        else tx_bind (update_character c (\<lambda>r. r\<lparr>ch_Gold := ch_Gold r - amount, ch_UpdatedAt := now\<rparr>)) (\<lambda>_.
          tx_return (Inr True))) d3 = (Inr False, d2)" by (rule tx_bind_Inr)
  have "reads (tx_map_err not_found (select_character c) :: 'x chardb \<Rightarrow> _)"
    unfolding select_character_def by (intro reads_map_err reads_stmt) (auto split: option.splits)
  from readsD [OF this 3] have "db_tables d3 = db_tables d1" .
  moreover have "ch_Gold r < amount"
  proof (rule ccontr)
    assume "\<not> ?thesis"
    with 4 have "tx_bind (update_character c (\<lambda>r. r\<lparr>ch_Gold := ch_Gold r - amount, ch_UpdatedAt := now\<rparr>)) (\<lambda>_.
          tx_return (Inr True)) d3 = (Inr False, d2)" by simp
    then show False by (rule tx_bind_Inr) (simp add: tx_return_def)
  qed
  then have "d2 = d3" using 4 by (simp add: tx_return_def)
  ultimately show ?thesis using 1 by simp
qed

lemma pay_gold_ok:
  assumes "pay_gold now c rc w = (r, w')"
  shows "kit_part (db_tables (kw_db w')) = kit_part (db_tables (kw_db w)) \<and> bag w' = bag w
     \<and> slots_ok (db_tables (kw_db w')) = slots_ok (db_tables (kw_db w)) \<and> kw_inv w' = kw_inv w \<and> kw_stats w' = kw_stats w
     \<and> (case r of Inl e \<Rightarrow> db_tables (kw_db w') = db_tables (kw_db w) | Inr _ \<Rightarrow> paid_gold now c (rc_GoldCost rc) w w')"
proof (cases "rc_GoldCost rc > 0")
  case False
  then show ?thesis using assms by (auto simp: pay_gold_def paid_gold_def)
next
  case True
  obtain q d where q: "repo_SpendGold now c (rc_GoldCost rc) (kw_db w) = (q, d)" by fastforce
  have w': "w' = w\<lparr>kw_db := d\<rparr>" and r: "r = (case q of Inl e \<Rightarrow> Inl e | Inr ok \<Rightarrow> if ok then Inr () else Inl ErrInsufficientGold)"
    using assms True q by (auto simp: pay_gold_def on_kdb_def split: sum.splits)
  have f: "(db_tables d)\<lparr>t_characters := []\<rparr> = (db_tables (kw_db w))\<lparr>t_characters := []\<rparr>"
    using framesD [OF SpendGold_frame q] .
  then have t: "kit_part (db_tables d) = kit_part (db_tables (kw_db w))" "t_inventories (db_tables d) = t_inventories (db_tables (kw_db w))"
    by (cases "db_tables d"; cases "db_tables (kw_db w)"; simp add: kit_part_def)+
  note C = SpendGold_cases [OF True q]
  have "case r of Inl e \<Rightarrow> db_tables d = db_tables (kw_db w) | Inr _ \<Rightarrow> paid_gold now c (rc_GoldCost rc) w w'"
    using C SpendGold_refused [of now c "rc_GoldCost rc" "kw_db w" d] q True r w'
    by (cases q) (auto simp: paid_gold_def)
  then show ?thesis using t w' by (simp add: slot_map_def slots_ok_def split: sum.splits)
qed

lemma kit_AddItem_ok:
  assumes run: "kit_AddItem now item w = (r, w')" and ok: "slots_ok (db_tables (kw_db w))"
  shows "kit_part (db_tables (kw_db w')) = kit_part (db_tables (kw_db w)) \<and> kw_stats w' = kw_stats w
    \<and> chars_of (kw_db w') = chars_of (kw_db w)
    \<and> (case r of Inl e \<Rightarrow> db_tables (kw_db w') = db_tables (kw_db w) \<and> kw_inv w' = kw_inv w
      | Inr stored \<Rightarrow> \<exists>s j. 0 \<le> s \<and> s \<le> 99 \<and> bag w (ii_CharacterID item, s) = None
          \<and> bag w' = (bag w)((ii_CharacterID item, s) \<mapsto> (ii_ID stored, ii_ItemDefinitionID item, ii_Quantity item, ii_Durability item, j))
          \<and> kw_inv w' = kw_inv w @ [ItemAddedToInventory (ii_CharacterID item) (ii_ItemDefinitionID item) (ii_Quantity item) s])"
proof -
  obtain q d tr where q: "svc_AddItem True now item (kw_db w) (kw_inv w) = (q, d, tr)" by (metis prod_cases3)
  have w': "r = q" "w' = w\<lparr>kw_db := d, kw_inv := tr\<rparr>" using run q by (auto simp: kit_AddItem_def)
  have "t_characters (db_tables d) = t_characters (db_tables (kw_db w))"
    by (rule svc_AddItem_frames [where P = t_characters, OF _ q]) simp
  with svc_AddItem_cases [OF q ok] quest_part_kit [OF svc_AddItem_frame [OF q]] show ?thesis
    unfolding w' by (auto simp: chars_of_def split: sum.splits)
qed

subsection \<open>Crafting\<close>

text \<open>What the character has before the call: enough of every resource, and enough gold.\<close>

definition affords :: "Recipe \<Rightarrow> int \<Rightarrow> int set \<Rightarrow> kit_world \<Rightarrow> bool" where
  "affords rc c eids w \<longleftrightarrow> (\<forall>eid \<in> eids. list_all (\<lambda>(res, n). n \<le> res_bal w eid res) (rc_Cost rc))
     \<and> (rc_GoldCost rc > 0 \<longrightarrow> (\<exists>ch. chars_of (kw_db w) c = Some ch \<and> rc_GoldCost rc \<le> ch_Gold ch))"

text \<open>The outcomes of a craft of a known recipe.\<close>

definition craft_spec :: "Recipe \<Rightarrow> int \<Rightarrow> int \<Rightarrow> kit_world \<Rightarrow> (string \<times> int) result \<Rightarrow> kit_world \<Rightarrow> bool" where
  "craft_spec rc now c w r w' \<longleftrightarrow> (case r of
     Inl e \<Rightarrow> bag w' = bag w \<and> kw_inv w' = kw_inv w \<and> (\<forall>k x. res_bal w' k x \<le> res_bal w k x)
        \<and> (chars_of (kw_db w') = chars_of (kw_db w) \<or> paid_gold now c (rc_GoldCost rc) w w')
   | Inr (item, qty) \<Rightarrow> item = co_ItemID (rc_Output rc) \<and> qty = max 1 (co_Quantity (rc_Output rc))
        \<and> (\<exists>eid. mirrors w' c = {eid}
             \<and> (\<forall>k x. res_bal w' k x = res_bal w k x - (if k = eid then cost_of (rc_Cost rc) x else 0)))
        \<and> paid_gold now c (rc_GoldCost rc) w w'
        \<and> (\<exists>s i j. 0 \<le> s \<and> s \<le> 99 \<and> bag w (wrap32 c, s) = None \<and> bag w' = (bag w)((wrap32 c, s) \<mapsto> (i, item, qty, 100, j))
             \<and> kw_inv w' = kw_inv w @ [ItemAddedToInventory (wrap32 c) item qty s]))"

lemma kept_views:
  assumes "kept_but_entities w w'"
  shows "res_bal w' = res_bal w" "bag w' = bag w" "chars_of (kw_db w') = chars_of (kw_db w)"
    "slots_ok (db_tables (kw_db w')) = slots_ok (db_tables (kw_db w))" "kw_inv w' = kw_inv w"
  using game_of_views [of w' w] assms by (auto simp: kept_but_entities_def res_bal_def fun_eq_iff)

lemma only_wallet_views:
  assumes "only_wallet eid w w'"
  shows "bag w' = bag w" "chars_of (kw_db w') = chars_of (kw_db w)"
    "slots_ok (db_tables (kw_db w')) = slots_ok (db_tables (kw_db w))" "kw_inv w' = kw_inv w" "mirrors w' = mirrors w"
  using game_of_views [of w' w] mirrors_ents [of w' w] assms by (simp_all add: only_wallet_def)

lemma covers_iff: "(\<And>res. gm_get 0 b res = res_bal w eid res) \<Longrightarrow>
    covers b rc \<longleftrightarrow> list_all (\<lambda>(res, n). n \<le> res_bal w eid res) (rc_Cost rc)"
  by (simp add: covers_def list_all_iff split_beta not_less)

lemma kit_part_views:
  assumes "kit_part (db_tables (kw_db w')) = kit_part (db_tables (kw_db w))"
  shows "kit_ok w' = kit_ok w" "mirrors w' = mirrors w" "res_bal w' = res_bal w"
  using kit_part_keeps [OF assms] mirrors_ents [of w' w] by (auto simp: res_bal_def fun_eq_iff)

lemma crafted_fields [simp]:
  "ii_CharacterID (crafted c rc) = wrap32 c" "ii_ItemDefinitionID (crafted c rc) = co_ItemID (rc_Output rc)"
  "ii_Quantity (crafted c rc) = max 1 (co_Quantity (rc_Output rc))" "ii_Durability (crafted c rc) = 100"
  by (auto simp: crafted_def)

lemma craft_spec_kept:
  assumes "kept_but_entities w w1"
  shows "craft_spec rc now c w1 r w' = craft_spec rc now c w r w'"
  by (cases r) (simp_all add: craft_spec_def paid_gold_def kept_views [OF assms])

lemma Craft_paid:
  assumes ok: "kit_ok w" "mirror_unique w" "mirrors w c = {eid}" "slots_ok (db_tables (kw_db w))" and pr: "priced (rc_Cost rc)"
    and cov: "list_all (\<lambda>(res, n). n \<le> res_bal w eid res) (rc_Cost rc)"
    and pay: "pay_gold now c rc w = (Inr u, w2)" and spend: "spend_costs now c (rc_Cost rc) w2 = (q, w3)"
    and run: "(case q of Inl e \<Rightarrow> (Inl e, w3) | Inr _ \<Rightarrow> (case kit_AddItem now (crafted c rc) w3 of
        (Inl e, w4) \<Rightarrow> (Inl e, w4)
      | (Inr _, w4) \<Rightarrow> (Inr (ii_ItemDefinitionID (crafted c rc), ii_Quantity (crafted c rc)), w4))) = (r, w')"
  shows "craft_spec rc now c w r w' \<and> mirrors w' = mirrors w"
proof -
  note P = pay_gold_ok [OF pay]
  have w2: "kit_ok w2" "mirrors w2 = mirrors w" "res_bal w2 = res_bal w" using kit_part_views [of w2 w] P ok(1) by blast+
  have m2: "mirror_unique w2" using ok(2) w2 by (simp add: mirror_unique_def)
  have S: "only_wallet eid w2 w3" "\<And>x. res_bal w3 eid x \<le> res_bal w eid x"
      "is_ok q \<Longrightarrow> res_bal w3 eid x = res_bal w eid x - cost_of (rc_Cost rc) x" for x
    using spend_costs_ok [OF w2(1) m2 _ pr _ spend, of eid] ok(3) cov w2 by simp_all
  note V = only_wallet_views [OF S(1)]
  have rest: "res_bal w3 k x = res_bal w k x" if "k \<noteq> eid" for k x using S(1) w2 that by (simp add: only_wallet_def)
  have le: "res_bal w3 k x \<le> res_bal w k x" for k x using S(2) rest by (cases "k = eid") simp_all
  have gold: "paid_gold now c (rc_GoldCost rc) w w3" using P V by (simp add: paid_gold_def)
  show ?thesis
  proof (cases q)
    case (Inl e)
    then show ?thesis using run V P gold le w2 by (auto simp: craft_spec_def)
  next
    case (Inr v)
    obtain z w4 where z: "kit_AddItem now (crafted c rc) w3 = (z, w4)" by fastforce
    have "slots_ok (db_tables (kw_db w3))" using V P ok by simp
    note A = kit_AddItem_ok [OF z this]
    have w4: "mirrors w4 = mirrors w3" "res_bal w4 = res_bal w3" using kit_part_views [of w4 w3] A by blast+
    have g4: "paid_gold now c (rc_GoldCost rc) w w4" using gold A by (simp add: paid_gold_def)
    show ?thesis
    proof (cases z)
      case zl: (Inl e)
      then have "r = Inl e" "w' = w4" using run Inr z by simp_all
      then show ?thesis using A zl V P g4 le w4 w2 by (simp add: craft_spec_def)
    next
      case zr: (Inr stored)
      then have r: "r = Inr (co_ItemID (rc_Output rc), max 1 (co_Quantity (rc_Output rc)))" "w' = w4"
        using run Inr z by (simp_all add: crafted_fields)
      have "mirrors w' c = {eid}" "\<And>k x. res_bal w' k x = res_bal w k x - (if k = eid then cost_of (rc_Cost rc) x else 0)"
        using r w4 V w2 ok(3) rest S(3) Inr by simp_all
      moreover obtain s j where "0 \<le> s" "s \<le> 99" "bag w (wrap32 c, s) = None"
          "bag w' = (bag w)((wrap32 c, s) \<mapsto> (ii_ID stored, co_ItemID (rc_Output rc), max 1 (co_Quantity (rc_Output rc)), 100, j))"
          "kw_inv w' = kw_inv w @ [ItemAddedToInventory (wrap32 c) (co_ItemID (rc_Output rc)) (max 1 (co_Quantity (rc_Output rc))) s]"
        using A zr r(2) V P unfolding crafted_fields by auto
      ultimately show ?thesis using r g4 w4 V w2 unfolding craft_spec_def by auto
    qed
  qed
qed


subsection \<open>Witnesses\<close>

definition demo_crafting :: "unit CraftSvc" where
  "demo_crafting = \<lparr>cs_reg = snd (StoreContent registry_New crafting_ContentKind ''shield''
      (AnyRecipe \<lparr>rc_ID = ''shield'', rc_Name = ''Shield'', rc_Cost = [(''wood'', 20)], rc_GoldCost = 50,
        rc_Output = \<lparr>co_ItemID = ''crafted_shield'', co_Name = ''Shield'', co_SlotType = ''SHIELD'', co_Quantity = 1\<rparr>\<rparr>)),
     cs_order = [''shield'']\<rparr>"

lemma demo_recipe: "recipe demo_crafting ''shield'' = Some \<lparr>rc_ID = ''shield'', rc_Name = ''Shield'', rc_Cost = [(''wood'', 20)],
    rc_GoldCost = 50, rc_Output = \<lparr>co_ItemID = ''crafted_shield'', co_Name = ''Shield'', co_SlotType = ''SHIELD'', co_Quantity = 1\<rparr>\<rparr>"
  by (simp add: recipe_def demo_crafting_def Content_def content_Lookup_def StoreContent_def registry_New_def as_Recipe_def)

lemma cs_order_demo: "cs_order demo_crafting = [''shield'']"
  by (simp add: demo_crafting_def)

text \<open>A character with gold, some wood in the mirror's wallet and a bag.\<close>

definition demo_shop :: "InvRow list \<Rightarrow> int \<Rightarrow> int \<Rightarrow> int \<Rightarrow> kit_world" where
  "demo_shop rows gold upd n = \<lparr>kw_db = \<lparr>db_tables =
     \<lparr>t_outbox = [], t_outbox_seq = 0, t_event_log = [],
      t_characters = [(5, \<lparr>ch_UserID = 1, ch_Name = ''Bram'', ch_ClassName = ''WARRIOR'', ch_Level = 2, ch_Experience = 0,
        ch_Gold = gold, ch_LastActiveAt = 0, ch_CreatedAt = 0, ch_UpdatedAt = upd\<rparr>)], t_characters_seq = 5,
      t_character_stats = [(5, \<lparr>sr_base = JObj [], sr_derived = JObj [], sr_updated_at = 0\<rparr>)],
      t_items = [(''crafted_shield'', \<lparr>ir_name = ''Shield'', ir_description = ''Crafted item'', ir_slot_type = ''SHIELD'',
        ir_min_level = 1, ir_class_restrictions = [], ir_stats_modifiers = JArr [], ir_metadata = JObj [], ir_created_at = 3\<rparr>)],
      t_inventories = rows, t_inventories_seq = 0, t_quests = [], t_char_quests = [], t_loot = [],
      kt_entities = \<lparr>et_rows = [\<lparr>en_ID = 1, en_Kind = EntityKind, en_OwnerID = 5, en_CreatedAt = 0\<rparr>], et_next = 2\<rparr>,
      kt_wallet = [(1, JObj [(''balances'', JObj [(''wood'', JNum (of_int n))])])],
      kt_assignment = [], kt_levels = [], kt_runs = Map.empty\<rparr>, db_faults = []\<rparr>, kw_stats = [], kw_inv = []\<rparr>"

lemma demo_shop_mirror: "mirror now 5 (demo_shop rows g u n) = (Inr 1, demo_shop rows g u n)"
  by (simp add: mirror_def kit_Entities_def entities_on_def on_part_def NewPgEntityRepo_def pgEntity_ListByOwner_def
      pgEntity_list_def db_call_def kw_get_def kw_put_def sub_table_def put_table_def demo_shop_def EntityKind_def)

lemma demo_shop_Get: "in64 n \<Longrightarrow> st_Get kit_WalletStore (demo_shop rows g u n) 1
    = (Inr (Some \<lparr>w_Balances = Some (Map.empty(''wood'' \<mapsto> n))\<rparr>), demo_shop rows g u n)"
  by (simp add: kit_WalletStore_def store_on_def on_part_def NewJSONStore_def jsonStore_Get_def jsonStore_Set_def db_stmt_def db_call_def kw_get_def
      kw_put_def sub_table_def put_table_def demo_shop_def unmarshal_Wallet_def json_field_def unmarshal_intmap_def)

lemma demo_shop_Set: "st_Set kit_WalletStore (demo_shop rows g u n) 1 \<lparr>w_Balances = Some (Map.empty(''wood'' \<mapsto> m))\<rparr>
    = (Inr (), demo_shop rows g u m)"
  by (simp add: kit_WalletStore_def store_on_def on_part_def NewJSONStore_def jsonStore_Get_def jsonStore_Set_def db_stmt_def db_call_def kw_get_def
      kw_put_def sub_table_def put_table_def demo_shop_def marshal_Wallet_def marshal_intmap_def)

lemma demo_shop_gold: "pay_gold now 5 (the (recipe demo_crafting ''shield'')) (demo_shop rows 100 u n) = (Inr (), demo_shop rows 50 now n)"
  by (simp add: pay_gold_def demo_recipe on_kdb_def repo_SpendGold_def WithinTx_def tx_bind_def tx_map_err_def
      select_character_def update_character_def db_stmt_def tx_return_def demo_shop_def)

lemma demo_shop_Credit: "rw_Credit now 5 ''wood'' (wrap64 (- 20)) (demo_shop rows g u 30) = (Inr (), demo_shop rows g u 10)"
  by (simp add: rw_Credit_def demo_shop_mirror demo_shop_Get [of 30] in64_def gm_alloc_def wrap64_id demo_shop_Set)

lemma demo_shop_ok: "in64 n \<Longrightarrow> kit_ok (demo_shop rows g u n)" "mirror_unique (demo_shop rows g u n)"
  by (simp_all add: kit_ok_def demo_shop_def et_ok_def json_inv_def kw_get_def sub_table_def al_ok_def unmarshal_Wallet_def
      json_field_def unmarshal_intmap_def wallet_typ_def intmap_ok_def mirror_unique_def mirrors_def ents_def et_abs_def)

lemma demo_shop_paid:
  "Craft demo_crafting now 5 ''shield'' (demo_shop rows 100 u 30) =
     (case kit_AddItem now (crafted 5 (the (recipe demo_crafting ''shield''))) (demo_shop rows 50 now 10) of
        (Inl e, w4) \<Rightarrow> (Inl e, w4) | (Inr _, w4) \<Rightarrow> (Inr (''crafted_shield'', 1), w4))"
proof -
  have b: "rw_Balances now 5 (demo_shop rows 100 u 30) = (Inr (Some (Map.empty(''wood'' \<mapsto> 30))), demo_shop rows 100 u 30)"
    by (simp add: rw_Balances_def demo_shop_mirror demo_shop_Get [of 30] in64_def)
  note g = demo_shop_gold [of now rows u 30, unfolded demo_recipe option.sel]
  show ?thesis unfolding Craft_def demo_recipe
    by (simp add: b g covers_def gm_get_def demo_shop_Credit split: sum.splits prod.splits)
qed


text \<open>With a full bag the price is paid for nothing: the payment is not undone.\<close>

definition full_bag :: "InvRow list" where
  "full_bag = map (\<lambda>k. \<lparr>iv_id = k, iv_character_id = 5, iv_slot_index = k, iv_item_definition_id = ''crafted_shield'',
     iv_quantity = 1, iv_durability = 100, iv_custom_modifiers = JArr [], iv_created_at = 0, iv_updated_at = 0\<rparr>) [0..99]"

lemma Craft_full_bag_loses_payment:
  "\<exists>e w'. Craft demo_crafting 9 5 ''shield'' (demo_shop full_bag 100 0 30) = (Inl e, w')
     \<and> db_tables (kw_db w') = db_tables (kw_db (demo_shop full_bag 50 9 10))"
proof -
  let ?w = "demo_shop full_bag 50 9 10"
  obtain z w' where z: "kit_AddItem 9 (crafted 5 (the (recipe demo_crafting ''shield''))) ?w = (z, w')" by fastforce
  have keys: "map slot_key full_bag = map (\<lambda>k. (5, k)) [0..99]" by (simp only: full_bag_def map_map comp_def InvRow.select_convs)
  have inv: "t_inventories (db_tables (kw_db ?w)) = full_bag" by (simp add: demo_shop_def)
  have "slots_ok (db_tables (kw_db ?w))"
    unfolding slots_ok_def inv keys by (simp add: distinct_map inj_on_def)
  note A = kit_AddItem_ok [OF z this]
  have full: "bag ?w (5, s) \<noteq> None" if "0 \<le> s" "s \<le> 99" for s
  proof -
    have "(5, s) \<in> set (map slot_key full_bag)" unfolding keys using that by simp
    then show ?thesis unfolding slot_map_def inv map_of_eq_None_iff map_map comp_def fst_conv by (simp add: image_comp)
  qed
  have "wrap32 5 = 5" by (simp add: wrap32_id in32_def)
  then have "\<exists>s. 0 \<le> s \<and> s \<le> 99 \<and> bag ?w (5, s) = None" if "z = Inr y" for y
    using A that by (simp only: sum.case crafted_fields) blast
  then have "\<exists>e. z = Inl e" using full by (cases z) (blast+)
  then obtain e where e: "z = Inl e" by blast
  show ?thesis using A by (intro exI [of _ e] exI [of _ w']) (simp add: demo_shop_paid z e)
qed

end
