(* ===== verification/Buildings.thy ===== *)
theory Buildings
  imports Crafting
begin

section \<open>Buildings: backend/plugins/buildings\<close>

text \<open>
  A content plugin on the seams of the idle plugin: it registers one activity per building, feeds
  the level of every building of a character into the activity's input through the state filter,
  and sells upgrades for gold. The levels are a component of the character's mirror. A catalog is in
  the order its map is iterated over.
\<close>

subsection \<open>buildings.go\<close>

record Building =
  bd_Resource :: string
  bd_RatePerLevel :: f64
  bd_BaseCost :: int

type_synonym Catalog = "(string \<times> Building) list"

definition defaultCatalog :: Catalog where
  "defaultCatalog = [(''sawmill'', \<lparr>bd_Resource = ''wood'', bd_RatePerLevel = Fin 2, bd_BaseCost = 50\<rparr>),
     (''farm'', \<lparr>bd_Resource = ''food'', bd_RatePerLevel = Fin 3, bd_BaseCost = 40\<rparr>)]"

text \<open>The loop of \<open>UpgradeCost\<close>, in 64 bits.\<close>

fun double_cost :: "nat \<Rightarrow> int \<Rightarrow> int" where
  "double_cost 0 cost = cost"
| "double_cost (Suc n) cost = double_cost n (wrap64 (cost * 2))"

definition UpgradeCost :: "Building \<Rightarrow> int \<Rightarrow> int" where
  "UpgradeCost b level = double_cost (nat level) (bd_BaseCost b)"

definition stateKey :: "string \<Rightarrow> string" where
  "stateKey i = i @ ''_level''"

definition producer :: "string \<Rightarrow> Building \<Rightarrow> Producer" where
  "producer i b = \<lparr>pr_Unlocked = (\<lambda>s. flt (Fin 0) (State_Get s (stateKey i))),
     pr_Produce = (\<lambda>m s _. Output_Add (bd_Resource b)
       (int64_of_f64 (fmul (fmul (State_Get s (stateKey i)) (bd_RatePerLevel b)) m)) zero_Output)\<rparr>"

definition catalog_register :: "Catalog \<Rightarrow> Idle.Registry \<Rightarrow> Idle.Registry" where
  "catalog_register c activities = foldl (\<lambda>r (i, b). idle_Register i (producer i b) r) activities c"

text \<open>The filter of \<open>HookState\<close> reads the levels of the entity of the event.\<close>

definition stateFilter :: "Catalog \<Rightarrow> (kit_world, Levels) Store \<Rightarrow> StateEvent \<times> kit_world \<Rightarrow> StateEvent \<times> kit_world" where
  "stateFilter c levels ev = (case ev of (se, w) \<Rightarrow>
     (case st_Get levels w (se_EntityID se) of
        (Inl _, w1) \<Rightarrow> (se, w1)
      | (Inr x, w1) \<Rightarrow>
          (let lv = (case x of None \<Rightarrow> None | Some l \<Rightarrow> l);
               vars = (case se_State se of None \<Rightarrow> Map.empty | Some m \<Rightarrow> m) in
           (se\<lparr>se_State := Some (foldl (\<lambda>m (i, _). m(stateKey i \<mapsto> f64_of_int (gm_get 0 lv i))) vars c)\<rparr>, w1))))"

subsection \<open>plugin.go\<close>

definition entityFor :: "int \<Rightarrow> kit_world \<Rightarrow> int option result \<times> kit_world" where
  "entityFor charID w = (case er_ListByOwner kit_Entities charID w of
     (Inl e, w1) \<Rightarrow> (Inl e, w1)
   | (Inr es, w1) \<Rightarrow> (Inr (map_option en_ID (find (\<lambda>e. en_Kind e = EntityKind) es)), w1))"

datatype building_data =
    DLevels Levels
  | DUpgraded string int int

type_synonym building_handler = "(building_data, kit_world) handler"

definition buildings_list :: building_handler where
  "buildings_list r w = (case owned r w of
     (Inl resp, w1) \<Rightarrow> (resp, w1)
   | (Inr charID, w1) \<Rightarrow> (case entityFor charID w1 of
        (Inl _, w2) \<Rightarrow> (WriteError 500 ''BUILDINGS'', w2)
      | (Inr None, w2) \<Rightarrow> (WriteJSON 200 (DLevels (Some Map.empty)), w2)
      | (Inr (Some eid), w2) \<Rightarrow> (case st_Get kit_LevelsStore w2 eid of
           (x, w3) \<Rightarrow> (WriteJSON 200 (DLevels (case x of Inr (Some lv) \<Rightarrow> lv | _ \<Rightarrow> None)), w3))))"

text \<open>The part of \<open>upgrade\<close> after the building and the entity are known.\<close>

definition upgrade_building :: "int \<Rightarrow> int \<Rightarrow> int \<Rightarrow> string \<Rightarrow> Building \<Rightarrow> kit_world \<Rightarrow> building_data response \<times> kit_world" where
  "upgrade_building now charID eid i b w = (case st_Get kit_LevelsStore w eid of
     (Inl _, w1) \<Rightarrow> (WriteError 500 ''BUILDINGS'', w1)
   | (Inr x, w1) \<Rightarrow>
       (let lv = gm_alloc (case x of None \<Rightarrow> None | Some l \<Rightarrow> l);
            cost = UpgradeCost b (gm_get 0 lv i) in
        case on_kdb (repo_SpendGold now charID cost) w1 of
          (Inl _, w2) \<Rightarrow> (WriteError 500 ''BUILDINGS'', w2)
        | (Inr spent, w2) \<Rightarrow>
            if \<not> spent then (WriteError 402 ''INSUFFICIENT_GOLD'', w2)
            else (let new = wrap32 (gm_get 0 lv i + 1) in
              case gm_set lv i new of
                Inl _ \<Rightarrow> (WriteError 500 ''PANIC'', w2)
              | Inr lv' \<Rightarrow> (case st_Set kit_LevelsStore w2 eid lv' of
                   (Inl _, w3) \<Rightarrow> (WriteError 500 ''BUILDINGS'', w3)
                 | (Inr _, w3) \<Rightarrow> (WriteJSON 200 (DUpgraded i new cost), w3)))))"

definition upgrade :: "Catalog \<Rightarrow> building_handler" where
  "upgrade c r w = (case owned r w of
     (Inl resp, w1) \<Rightarrow> (resp, w1)
   | (Inr charID, w1) \<Rightarrow> (case map_of c (rq_PathValue r ''building'') of
        None \<Rightarrow> (WriteError 404 ''BUILDINGS'', w1)
      | Some b \<Rightarrow> (case entityFor charID w1 of
           (Inl _, w2) \<Rightarrow> (WriteError 500 ''BUILDINGS'', w2)
         | (Inr None, w2) \<Rightarrow> (WriteError 400 ''BUILDINGS'', w2)
         | (Inr (Some eid), w2) \<Rightarrow> upgrade_building (rq_clock r 0) charID eid (rq_PathValue r ''building'') b w2)))"

definition buildings_routes :: "jwt_parser \<Rightarrow> string \<Rightarrow> Catalog \<Rightarrow> (string \<times> building_handler) list" where
  "buildings_routes parse secret c =
     [(''GET /api/v1/characters/{id}/buildings'', AuthMiddleware parse secret buildings_list),
      (''POST /api/v1/characters/{id}/buildings/{building}/upgrade'', AuthMiddleware parse secret (upgrade c))]"

subsection \<open>The price of a level\<close>

text \<open>As long as the price fits into 64 bits it doubles with each level.\<close>

lemma double_cost_exact: "0 < cost \<Longrightarrow> cost * 2 ^ n < 2 ^ 63 \<Longrightarrow> double_cost n cost = cost * 2 ^ n"
proof (induction n arbitrary: cost)
  case 0
  then show ?case by simp
next
  case (Suc n)
  have "cost * 1 \<le> cost * 2 ^ n" using Suc.prems(1) by (intro mult_left_mono) simp_all
  then have "cost < 2 ^ 62" using Suc.prems(2) by simp
  then have "wrap64 (cost * 2) = cost * 2" using Suc.prems by (intro wrap64_id) (simp add: in64_def)
  with Suc show ?case by simp
qed

lemma UpgradeCost_exact:
  "0 \<le> level \<Longrightarrow> 0 < bd_BaseCost b \<Longrightarrow> bd_BaseCost b * 2 ^ nat level < 2 ^ 63 \<Longrightarrow>
   UpgradeCost b level = bd_BaseCost b * 2 ^ nat level \<and> 0 < UpgradeCost b level"
  by (simp add: UpgradeCost_def double_cost_exact)

text \<open>
  Beyond that the price is zero or negative, which \<open>SpendGold\<close> takes as paid: the sawmill's
  price is negative at level 58 and zero from level 63 on.
\<close>

lemma upgrade_cost_overflow:
  "UpgradeCost (the (map_of defaultCatalog ''sawmill'')) 58 < 0"
  "UpgradeCost (the (map_of defaultCatalog ''sawmill'')) 63 = 0"
  "repo_SpendGold now c (UpgradeCost (the (map_of defaultCatalog ''sawmill'')) 63) d = (Inr True, d)"
  by (simp_all add: UpgradeCost_def defaultCatalog_def eval_nat_numeral wrap64_def repo_SpendGold_def)

subsection \<open>What the handlers do\<close>

definition lvl :: "kit_world \<Rightarrow> int \<Rightarrow> string \<Rightarrow> int" where
  "lvl w k i = (case levels_of w k of None \<Rightarrow> 0 | Some l \<Rightarrow> gm_get 0 l i)"

lemma owned_ok:
  assumes "owned r w = (x, w')"
  shows "db_tables (kw_db w') = db_tables (kw_db w) \<and> kw_stats w' = kw_stats w \<and> kw_inv w' = kw_inv w
     \<and> (\<forall>resp. x = Inl resp \<longrightarrow> rp_Status resp = 400 \<or> rp_Status resp = 404)
     \<and> (\<forall>c. x = Inr c \<longrightarrow> UserIDFromContext r \<noteq> 0 \<and> (\<exists>ch. chars_of (kw_db w) c = Some ch \<and> ch_UserID ch = UserIDFromContext r))"
proof -
  have st: "rp_Status (WriteError s e) = s" for s e by (simp add: WriteError_def)
  show ?thesis
  proof (cases "\<exists>c. ParseInt 64 (rq_PathValue r ''id'') = Some c \<and> c > 0 \<and> UserIDFromContext r \<noteq> 0")
    case False
    then show ?thesis using assms by (auto simp: owned_def Let_def st split: option.splits if_splits)
  next
    case True
    then obtain c where c: "ParseInt 64 (rq_PathValue r ''id'') = Some c" "c > 0" "UserIDFromContext r \<noteq> 0" by blast
    obtain q w1 where q: "on_kdb (character_GetByID c) w = (q, w1)" by fastforce
    have t: "db_tables (kw_db w1) = db_tables (kw_db w) \<and> kw_stats w1 = kw_stats w \<and> kw_inv w1 = kw_inv w"
      using reads_kit [OF reads_GetByID q] .
    have ch: "chars_of (kw_db w) c = Some (cw_Char char)" if "q = Inr char" for char
      using q that character_GetByID_char [of c "kw_db w" char] by (auto simp: on_kdb_def chars_of_def split: prod.splits)
    show ?thesis using assms c q t ch by (auto simp: owned_def st split: sum.splits if_splits)
  qed
qed

lemma entityFor_ok:
  assumes "kit_ok w" and "mirror_unique w" and "entityFor c w = (r, w')"
  shows "kit_ok w' \<and> kept_but_entities w w' \<and> ents w' = ents w
     \<and> (\<forall>x. r = Inr x \<longrightarrow> mirrors w c = (case x of None \<Rightarrow> {} | Some eid \<Rightarrow> {eid}))"
proof -
  obtain q w1 where q: "er_ListByOwner kit_Entities c w = (q, w1)" by fastforce
  note L = kit_ListByOwner [OF assms(1) q]
  show ?thesis
  proof (cases q)
    case (Inl e)
    then show ?thesis using assms(3) q L by (auto simp: entityFor_def)
  next
    case (Inr es)
    have run: "r = Inr (map_option en_ID (find (\<lambda>e. en_Kind e = EntityKind) es))" "w' = w1"
      using assms(3) q Inr by (simp_all add: entityFor_def)
    have es: "e \<in> set es \<longleftrightarrow> ents w (en_ID e) = Some e \<and> en_OwnerID e = c" for e
      using L Inr by (auto simp: listing_def)
    have "mirrors w c = (case map_option en_ID (find (\<lambda>e. en_Kind e = EntityKind) es) of None \<Rightarrow> {} | Some eid \<Rightarrow> {eid})"
    proof (cases "find (\<lambda>e. en_Kind e = EntityKind) es")
      case None
      then have "mirrors w c = {}" using es kit_repo.ids [OF assms(1)] by (force simp: mirrors_def find_None_iff)
      then show ?thesis using None by simp
    next
      case (Some e)
      then have "e \<in> set es" "en_Kind e = EntityKind" by (auto simp: find_Some_iff in_set_conv_nth)
      then have "en_ID e \<in> mirrors w c" using es by (auto simp: mirrors_def)
      then have "mirrors w c = {en_ID e}" using assms(2) unfolding mirror_unique_def by blast
      then show ?thesis using Some by simp
    qed
    moreover have "kit_ok w1" "kept_but_entities w w1" "ents w1 = ents w" using L by blast+
    ultimately show ?thesis unfolding run by simp
  qed
qed

text \<open>Debiting gold and writing the level.\<close>

definition upgraded :: "int \<Rightarrow> int \<Rightarrow> int \<Rightarrow> string \<Rightarrow> Building \<Rightarrow> kit_world \<Rightarrow> building_data response \<Rightarrow> kit_world \<Rightarrow> bool" where
  "upgraded now c eid i b w resp w' \<longleftrightarrow> kit_ok w' \<and> ents w' = ents w \<and> wallets w' = wallets w \<and> assignments w' = assignments w
     \<and> bag w' = bag w
     \<and> (if rp_Status resp = 200
        then rp_Data resp = Some (DUpgraded i (wrap32 (lvl w eid i + 1)) (UpgradeCost b (lvl w eid i)))
           \<and> (\<forall>k j. lvl w' k j = (if k = eid \<and> j = i then wrap32 (lvl w eid i + 1) else lvl w k j))
           \<and> paid_gold now c (UpgradeCost b (lvl w eid i)) w w'
        else lvl w' = lvl w \<and> (chars_of (kw_db w') = chars_of (kw_db w)
           \<or> rp_Status resp = 500 \<and> paid_gold now c (UpgradeCost b (lvl w eid i)) w w'))"

text \<open>\<open>SpendGold\<close> on the shared state; an amount that is not positive counts as paid.\<close>

lemma kit_SpendGold:
  assumes "on_kdb (repo_SpendGold now c amount) w = (q, w')"
  shows "kit_part (db_tables (kw_db w')) = kit_part (db_tables (kw_db w)) \<and> bag w' = bag w
     \<and> (if q = Inr True then paid_gold now c amount w w' else db_tables (kw_db w') = db_tables (kw_db w))"
proof -
  let ?rc = "zero_Recipe\<lparr>rc_GoldCost := amount\<rparr>"
  show ?thesis
  proof (cases "amount > 0")
    case False
    then show ?thesis using assms by (auto simp: on_kdb_def repo_SpendGold_def paid_gold_def)
  next
    case True
    then have "pay_gold now c ?rc w = ((case q of Inl e \<Rightarrow> Inl e | Inr ok \<Rightarrow> if ok then Inr () else Inl ErrInsufficientGold), w')"
      using assms by (simp add: pay_gold_def zero_Recipe_def split: sum.splits)
    from pay_gold_ok [OF this] show ?thesis by (auto simp: zero_Recipe_def split: sum.splits if_splits)
  qed
qed

lemma paid_gold_cong:
  "chars_of (kw_db w1) = chars_of (kw_db w) \<Longrightarrow> chars_of (kw_db w3) = chars_of (kw_db w2) \<Longrightarrow>
   paid_gold now c g w1 w2 = paid_gold now c g w w3"
  by (cases "g > 0") (simp_all add: paid_gold_def)

lemma levels_ok: "kit_ok w \<Longrightarrow> levels_of w k = Some v \<Longrightarrow> intmap_ok in32 v"
  unfolding levels_of_def kit_ok_def
  by (auto simp: json_abs_def json_inv_def list_all_iff split: option.splits sum.splits dest!: map_of_SomeD)

lemma upgrade_building_ok:
  assumes ok: "kit_ok w" and run: "upgrade_building now c eid i b w = (resp, w')"
  shows "upgraded now c eid i b w resp w'"
proof -
  have st: "rp_Status (WriteError s e) = s" "rp_Status (WriteJSON s v) = s" for s e v
    by (simp_all add: WriteError_def WriteJSON_def)
  obtain x w1 where x: "st_Get kit_LevelsStore w eid = (x, w1)" by fastforce
  note G = kit_GetLevels [OF ok x]
  have v1: "kit_ok w1" "ents w1 = ents w" "wallets w1 = wallets w" "assignments w1 = assignments w" "levels_of w1 = levels_of w" "game_of w1 = game_of w"
    using G by (simp_all add: kept_but_levels_def)
  note g1 = game_of_views [OF v1(6)]
  show ?thesis
  proof (cases x)
    case (Inl e)
    then have "resp = WriteError 500 ''BUILDINGS''" "w' = w1" using run x by (simp_all add: upgrade_building_def)
    then show ?thesis using v1 g1 by (simp add: upgraded_def st lvl_def fun_eq_iff)
  next
    case (Inr y)
    then have y: "y = levels_of w eid" using G by simp
    obtain f where f: "gm_alloc (case y of None \<Rightarrow> None | Some l \<Rightarrow> l) = Some f" using gm_alloc_Some by blast
    have "gm_get 0 (Some f) j = gm_get 0 (case y of None \<Rightarrow> None | Some l \<Rightarrow> l) j" for j
      unfolding f [symmetric] by (rule gm_get_alloc)
    then have old: "gm_get 0 (Some f) j = lvl w eid j" for j using y by (simp add: lvl_def split: option.splits)
    have "intmap_ok in32 (case y of None \<Rightarrow> None | Some l \<Rightarrow> l)"
      using levels_ok [OF ok, of eid] y by (cases "levels_of w eid") (simp_all, simp add: intmap_ok_def)
    then have fok: "intmap_ok in32 (Some f)" unfolding f [symmetric] by (rule intmap_ok_alloc)
    let ?cost = "UpgradeCost b (lvl w eid i)" and ?f = "f(i \<mapsto> wrap32 (lvl w eid i + 1))"
    obtain q w2 where q: "on_kdb (repo_SpendGold now c ?cost) w1 = (q, w2)" by fastforce
    note S = kit_SpendGold [OF q]
    note K = kit_part_keeps [OF conjunct1 [OF S]]
    have v2: "kit_ok w2" "ents w2 = ents w" "wallets w2 = wallets w" "assignments w2 = assignments w" "levels_of w2 = levels_of w" "bag w2 = bag w"
      using K S v1 g1 by simp_all
    have run2: "(resp, w') = (case q of Inl _ \<Rightarrow> (WriteError 500 ''BUILDINGS'', w2)
        | Inr spent \<Rightarrow> if \<not> spent then (WriteError 402 ''INSUFFICIENT_GOLD'', w2)
          else (case st_Set kit_LevelsStore w2 eid (Some ?f) of
                 (Inl _, w3) \<Rightarrow> (WriteError 500 ''BUILDINGS'', w3)
               | (Inr _, w3) \<Rightarrow> (WriteJSON 200 (DUpgraded i (wrap32 (lvl w eid i + 1)) ?cost), w3)))"
      using run unfolding upgrade_building_def x Inr prod.case sum.case Let_def f old q gm_set_Some by simp
    show ?thesis
    proof (cases "q = Inr True")
      case False
      then have e: "w' = w2" "rp_Status resp \<noteq> 200" using run2 by (cases q; simp add: st)+
      have "db_tables (kw_db w2) = db_tables (kw_db w1)" using S False by simp
      then have "chars_of (kw_db w2) = chars_of (kw_db w)" using g1(1) by (simp add: chars_of_def)
      moreover have "lvl w2 = lvl w" using v2(5) by (simp add: lvl_def fun_eq_iff)
      ultimately show ?thesis using v2 e(2) unfolding e(1) upgraded_def by simp
    next
      case True
      obtain z w3 where z: "st_Set kit_LevelsStore w2 eid (Some ?f) = (z, w3)" by fastforce
      have "intmap_ok in32 (Some ?f)" using fok by (rule intmap_ok_upd) simp
      note T = kit_SetLevels [OF v2(1) this z]
      have v3: "kit_ok w3" "ents w3 = ents w" "wallets w3 = wallets w" "assignments w3 = assignments w" "game_of w3 = game_of w2"
        using T v2 by (simp_all add: kept_but_levels_def)
      note g3 = game_of_views [OF v3(5)]
      have "paid_gold now c ?cost w1 w2" using S True by presburger
      then have paid: "paid_gold now c ?cost w w3" using paid_gold_cong [OF g1(1) g3(1)] by blast
      have l: "lvl w3 k j = (if is_ok z \<and> k = eid \<and> j = i then wrap32 (lvl w eid i + 1) else lvl w k j)" for k j
        using T v2(5) old [of j] by (simp add: lvl_def)
      have "w' = w3" "resp = (if is_ok z then WriteJSON 200 (DUpgraded i (wrap32 (lvl w eid i + 1)) ?cost) else WriteError 500 ''BUILDINGS'')"
        using run2 True z by (cases z; simp)+
      then show ?thesis using v3 v2(6) g3 paid l by (auto simp: upgraded_def st fun_eq_iff)
    qed
  qed
qed


definition demo_upgrade :: request where
  "demo_upgrade = \<lparr>rq_Method = ''POST'', rq_Header = (\<lambda>_. []),
     rq_PathValue = (\<lambda>k. if k = ''id'' then ''5'' else if k = ''building'' then ''sawmill'' else []), rq_Query = (\<lambda>_. []),
     rq_Body = None, rq_RemoteAddr = [], rq_UserID = Some 1, rq_Username = None, rq_Role = None, rq_clock = (\<lambda>_. 9), rq_salt = []\<rparr>"

lemma demo_upgrade_id: "ParseInt 64 (rq_PathValue demo_upgrade ''id'') = Some 5"
  by code_simp

lemma demo_upgrade_owned: "owned demo_upgrade (demo_shop [] 100 0 30) = (Inr 5, demo_shop [] 100 0 30)"
  unfolding owned_def demo_upgrade_id
  by (simp add: demo_upgrade_def UserIDFromContext_def on_kdb_def character_GetByID_def tx_bind_def tx_map_err_def
      tx_return_def db_stmt_def demo_shop_def unmarshal_stats_def)

lemma demo_upgrade_entity: "entityFor 5 (demo_shop [] 100 0 30) = (Inr (Some 1), demo_shop [] 100 0 30)"
  by (simp add: entityFor_def kit_Entities_def entities_on_def on_part_def NewPgEntityRepo_def pgEntity_ListByOwner_def
      pgEntity_list_def db_call_def kw_get_def kw_put_def sub_table_def put_table_def demo_shop_def EntityKind_def)

lemma demo_upgrade_run: "rp_Status (fst (upgrade defaultCatalog demo_upgrade (demo_shop [] 100 0 30))) = 200"
proof -
  have g: "st_Get kit_LevelsStore (demo_shop [] 100 0 30) 1 = (Inr None, demo_shop [] 100 0 30)"
    by (simp add: kit_LevelsStore_def store_on_def on_part_def NewJSONStore_def jsonStore_Get_def db_call_def kw_get_def
        kw_put_def sub_table_def put_table_def demo_shop_def)
  have s: "on_kdb (repo_SpendGold 9 5 50) (demo_shop [] 100 0 30) = (Inr True, demo_shop [] 50 9 30)"
    by (simp add: on_kdb_def repo_SpendGold_def WithinTx_def tx_bind_def tx_map_err_def
        select_character_def update_character_def db_stmt_def tx_return_def demo_shop_def)
  have t: "fst (st_Set kit_LevelsStore (demo_shop [] 50 9 30) 1 (Some f)) = Inr ()" for f
    by (simp add: kit_LevelsStore_def store_on_def on_part_def NewJSONStore_def jsonStore_Set_def db_stmt_def db_call_def kw_get_def
        sub_table_def demo_shop_def marshal_Levels_def)
  have p: "rq_PathValue demo_upgrade ''building'' = ''sawmill''" "rq_clock demo_upgrade 0 = 9" by (simp_all add: demo_upgrade_def)
  obtain w3 where t2: "st_Set kit_LevelsStore (demo_shop [] 50 9 30) 1 (Some (Map.empty(''sawmill'' \<mapsto> 1))) = (Inr (), w3)"
    using t [of "Map.empty(''sawmill'' \<mapsto> 1)"] by (metis prod.collapse)
  have "wrap32 1 = 1" by (simp add: wrap32_id in32_def)
  then show ?thesis unfolding upgrade_def demo_upgrade_owned prod.case sum.case p
    by (simp add: defaultCatalog_def demo_upgrade_entity upgrade_building_def g gm_alloc_def UpgradeCost_def s t2 WriteJSON_def Let_def)
qed


end
