(* ===== verification/Spec2Isabelle.thy ===== *)
theory Spec2Isabelle
  imports Float64 Economy Inventory_Kit Progression Quest_Kit Vitals Combat Combat_Events Registry
    Topo_Sort Kernel Event_Bus Outbox Character Items Game_Inventory Keyed_Mutex Quests Loot Auth Http_Api Socket_Hub Entity_Graph World Scheduler Idle Kit_Tables Idlekit Crafting Buildings
begin

text \<open>
  A verification library for the zzrpg game server.
\<close>

end
